(* ===== verification/Prelude.thy ===== *)
theory Prelude
  imports Main "HOL-Library.Word" "HOL-Library.Monad_Syntax"
begin

text \<open>
  Shared vocabulary of the development: machine integers at the widths the C sources use,
  C memory as byte lists with checked block copies, little-endian field access, and the
  generic lemmas on lists and words that the component theories rest on.

  The targets are 32-bit ARM systems-on-chip: \<open>unsigned int\<close> and \<open>unsigned long\<close> are 32 bits
  wide, \<open>char\<close> is unsigned and memory is little endian.  A result \<^term>\<open>None\<close> of a modelled
  operation always means that the C code has undefined behaviour there (a block copy or an
  array access outside its object, an over-wide shift); error codes of the source are ordinary
  values.
\<close>

unbundle bit_operations_syntax

section \<open>Types and fact collections\<close>

type_synonym byte = "8 word"
type_synonym u16 = "16 word"
type_synonym u32 = "32 word"

named_theorems mem_simps \<open>block reads and writes on C objects\<close>
named_theorems le_simps \<open>little-endian encoding and decoding of fields\<close>
named_theorems keep_simps \<open>fields an operation leaves alone\<close>

section \<open>Blocks of memory\<close>

definition mem_read :: "'a list \<Rightarrow> nat \<Rightarrow> nat \<Rightarrow> 'a list option" where
  "mem_read m ofs n = (if ofs + n \<le> length m then Some (take n (drop ofs m)) else None)"

definition mem_write :: "'a list \<Rightarrow> nat \<Rightarrow> 'a list \<Rightarrow> 'a list option" where
  "mem_write m ofs bs =
     (if ofs + length bs \<le> length m
      then Some (take ofs m @ bs @ drop (ofs + length bs) m) else None)"

lemma mem_read_Some_iff [mem_simps]:
  "mem_read m ofs n = Some bs \<longleftrightarrow> ofs + n \<le> length m \<and> bs = take n (drop ofs m)"
  by (auto simp: mem_read_def)

lemma mem_write_Some_iff [mem_simps]:
  "mem_write m ofs bs = Some m' \<longleftrightarrow>
     ofs + length bs \<le> length m \<and> m' = take ofs m @ bs @ drop (ofs + length bs) m"
  by (auto simp: mem_write_def)

lemma mem_write_length: "mem_write m ofs bs = Some m' \<Longrightarrow> length m' = length m"
  by (auto simp: mem_write_Some_iff)

lemma mem_write_nth:
  assumes "mem_write m ofs bs = Some m'" "i < length m"
  shows "m' ! i = (if ofs \<le> i \<and> i < ofs + length bs then bs ! (i - ofs) else m ! i)"
proof -
  from assms have m': "m' = take ofs m @ bs @ drop (ofs + length bs) m"
    and le: "ofs + length bs \<le> length m"
    by (auto simp: mem_write_Some_iff)
  show ?thesis
    using le assms(2) by (auto simp: m' nth_append)
qed

lemma mem_read_write_same:
  assumes "mem_write m ofs bs = Some m'"
  shows "mem_read m' ofs (length bs) = Some bs"
  using assms by (auto simp: mem_read_def mem_write_Some_iff)

lemma mem_write_defined:
  assumes "ofs + length bs \<le> length m"
  obtains m' where "mem_write m ofs bs = Some m'" "length m' = length m"
proof
  show "mem_write m ofs bs = Some (take ofs m @ bs @ drop (ofs + length bs) m)" using assms by (simp add: mem_write_def)
  show "length (take ofs m @ bs @ drop (ofs + length bs) m) = length m" using assms by simp
qed

lemma take_mem_write:
  assumes "mem_write m ofs bs = Some m'" "ofs + length bs \<le> n"
  shows "mem_write (take n m) ofs bs = Some (take n m')"
proof -
  from assms have m': "m' = take ofs m @ bs @ drop (ofs + length bs) m"
    and le: "ofs + length bs \<le> length m"
    by (auto simp: mem_write_Some_iff)
  have "take n m' = take ofs m @ bs @ take (n - (ofs + length bs)) (drop (ofs + length bs) m)"
    using assms(2) le by (simp add: m')
  then show ?thesis
    using assms(2) le by (simp add: mem_write_Some_iff drop_take)
qed

section \<open>Little-endian fields\<close>

definition get16 :: "byte list \<Rightarrow> nat \<Rightarrow> u16" where
  "get16 m i = ucast (m ! i) OR push_bit 8 (ucast (m ! (i + 1)))"

definition get32 :: "byte list \<Rightarrow> nat \<Rightarrow> u32" where
  "get32 m i = ucast (m ! i) OR push_bit 8 (ucast (m ! (i + 1)))
     OR push_bit 16 (ucast (m ! (i + 2))) OR push_bit 24 (ucast (m ! (i + 3)))"

definition put16 :: "u16 \<Rightarrow> byte list" where
  "put16 w = [ucast w, ucast (drop_bit 8 w)]"

definition put32 :: "u32 \<Rightarrow> byte list" where
  "put32 w = [ucast w, ucast (drop_bit 8 w), ucast (drop_bit 16 w), ucast (drop_bit 24 w)]"

lemma length_put16 [simp]: "length (put16 w) = 2"
  by (simp add: put16_def)

lemma length_put32 [simp]: "length (put32 w) = 4"
  by (simp add: put32_def)

lemma ucast_bytes16:
  "ucast (ucast w :: byte) OR push_bit 8 (ucast (ucast (drop_bit 8 w) :: byte)) = (w :: u16)"
  by (rule bit_word_eqI) (auto simp: bit_simps)

lemma ucast_bytes32:
  "ucast (ucast w :: byte) OR push_bit 8 (ucast (ucast (drop_bit 8 w) :: byte))
     OR push_bit 16 (ucast (ucast (drop_bit 16 w) :: byte))
     OR push_bit 24 (ucast (ucast (drop_bit 24 w) :: byte)) = (w :: u32)" (is "?l = w")
proof (rule bit_word_eqI)
  fix n
  assume "n < LENGTH(32)"
  then consider "n < 8" | "8 \<le> n" "n < 16" | "16 \<le> n" "n < 24" | "24 \<le> n" "n < 32"
    by fastforce
  then show "bit ?l n = bit w n"
    by cases (auto simp: bit_simps)
qed

lemma get16_put16 [le_simps]: "get16 (put16 w @ bs) 0 = w"
  using ucast_bytes16 [of w] by (simp add: get16_def put16_def)

lemma get32_put32 [le_simps]: "get32 (put32 w @ bs) 0 = w"
  using ucast_bytes32 [of w] by (simp add: get32_def put32_def numeral_2_eq_2 numeral_3_eq_3)

lemma get32_append [le_simps]: "length xs \<le> i \<Longrightarrow> get32 (xs @ ys) i = get32 ys (i - length xs)"
  by (simp add: get32_def nth_append Suc_diff_le)

lemma get32_take [le_simps]: "i + 4 \<le> n \<Longrightarrow> get32 (take n m) i = get32 m i"
  by (simp add: get32_def)

section \<open>Words as numbers\<close>

lemma unat_ucast_byte16 [simp]: "unat (ucast (b :: byte) :: u16) = unat b"
  by (simp add: unsigned_ucast_eq take_bit_nat_eq_self order_less_le_trans [OF unsigned_less])

lemma unat_ucast_byte32 [simp]: "unat (ucast (b :: byte) :: u32) = unat b"
  by (simp add: unsigned_ucast_eq take_bit_nat_eq_self order_less_le_trans [OF unsigned_less])

lemma unat_ucast_16_32 [simp]: "unat (ucast (w :: u16) :: u32) = unat w"
  by (simp add: unsigned_ucast_eq take_bit_nat_eq_self order_less_le_trans [OF unsigned_less])

lemma unat_byte_less [simp]: "unat (b :: byte) < 256"
  using unsigned_less [of b] by simp

lemma unat_u16_less [simp]: "unat (w :: u16) < 65536"
  using unsigned_less [of w] by simp

lemma unat_u32_less [simp]: "unat (w :: u32) < 4294967296"
  using unsigned_less [of w] by simp

lemma unat_byte_le: "unat (b :: byte) \<le> 255"
  using unat_byte_less [of b] by linarith

section \<open>Ones'-complement sums\<close>

text \<open>
  Three checksum routines of the sources end with the same three statements: fold the upper
  half of a 32-bit sum into the lower half, fold the carry, complement.
\<close>

definition ones_fold :: "u32 \<Rightarrow> u16" where
  "ones_fold s =
     (let s = drop_bit 16 s + (s AND 0xFFFF);
          s = s + drop_bit 16 s
      in ucast (NOT s))"

text \<open>The representative of \<open>n\<close> modulo 65535 in \<open>{1..65535}\<close>, and 0 for 0.\<close>

definition ones_rep :: "nat \<Rightarrow> nat" where
  "ones_rep n = (if n = 0 then 0 else (n - 1) mod 65535 + 1)"

lemma ones_rep_less: "ones_rep n < 65536"
  by (auto simp: ones_rep_def intro: order_less_trans [OF mod_less_divisor])

lemma ones_rep_small: "n \<le> 65535 \<Longrightarrow> ones_rep n = n"
  by (auto simp: ones_rep_def)

lemma ones_rep_add: "0 < n \<Longrightarrow> ones_rep (n + 65535 * k) = ones_rep n"
proof -
  assume "0 < n"
  then have "n + 65535 * k - 1 = (n - 1) + 65535 * k"
    by simp
  then have "(n + 65535 * k - 1) mod 65535 = (n - 1) mod 65535"
    by (simp only: mod_mult_self2)
  with \<open>0 < n\<close> show ?thesis by (simp add: ones_rep_def)
qed

lemma ones_rep_mod:
  assumes "ones_rep m = ones_rep n"
  shows "m mod 65535 = n mod 65535"
proof (cases "m = 0 \<or> n = 0")
  case True
  with assms show ?thesis by (auto simp: ones_rep_def split: if_splits)
next
  case False
  then have "(m - 1) mod 65535 = (n - 1) mod 65535"
    using assms by (simp add: ones_rep_def)
  then have "Suc (m - 1) mod 65535 = Suc (n - 1) mod 65535"
    by (metis mod_Suc_eq)
  with False show ?thesis by simp
qed

lemma unat_drop_bit16: "unat (drop_bit 16 (s :: u32)) = unat s div 65536"
proof -
  have "unat (drop_bit 16 s) = unat s mod 4294967296 div 65536"
    unfolding unsigned_drop_bit_eq by (simp add: drop_bit_eq_div take_bit_eq_mod)
  then show ?thesis by simp
qed

lemma unat_not16: "unat (ucast (NOT s) :: u16) = 65535 - unat (s :: u32) mod 65536"
proof -
  have "ucast (NOT s) = NOT (ucast s :: u16)"
    by (rule bit_word_eqI) (simp add: bit_simps)
  then have eq: "ucast (NOT s) = - 1 - (ucast s :: u16)"
    by (simp add: not_eq_complement)
  have "(ucast s :: u16) \<le> - 1"
    by (rule word_order.extremum)
  then have "unat (- 1 - (ucast s :: u16)) = unat (- 1 :: u16) - unat (ucast s :: u16)"
    by (rule unat_sub)
  moreover have "unat (ucast s :: u16) = unat s mod 65536"
    by (simp add: unsigned_ucast_eq take_bit_eq_mod)
  moreover have "unat (- 1 :: u16) = 65535"
    by (simp only: unsigned_minus_1_eq_mask) (simp add: mask_eq_exp_minus_1)
  ultimately show ?thesis
    unfolding eq by simp
qed

lemma ones_fold_rep: "unat (ones_fold s) = 65535 - ones_rep (unat s)"
proof -
  define S where "S = unat s"
  define c1 where "c1 = drop_bit 16 s + (s AND 0xFFFF)"
  define c2 where "c2 = c1 + drop_bit 16 c1"
  have S: "S < 4294967296" by (simp add: S_def)
  have lo: "unat (s AND 0xFFFF) = S mod 65536"
  proof -
    have "s AND 0xFFFF = take_bit 16 s"
      by (simp add: take_bit_eq_mask mask_eq_exp_minus_1)
    then show ?thesis
      by (simp add: S_def unsigned_take_bit_eq) (simp add: take_bit_eq_mod)
  qed
  have hi: "unat (drop_bit 16 s) = S div 65536"
    by (simp only: S_def unat_drop_bit16)
  define q r where "q = S div 65536" and "r = S mod 65536"
  have S_qr: "S = 65536 * q + r" and r: "r < 65536" and q: "q < 65536"
    using S by (simp_all add: q_def r_def less_mult_imp_div_less)
  have u1: "unat c1 = q + r"
    using q r by (simp add: c1_def unat_word_ariths lo hi flip: q_def r_def)
  have rep: "ones_rep S = ones_rep (unat c1)"
  proof (cases "unat c1 = 0")
    case False
    have "S = unat c1 + 65535 * q" by (simp add: S_qr u1)
    then show ?thesis using False ones_rep_add [of "unat c1" q] by simp
  qed (use S_qr u1 in simp)
  have "unat c2 mod 65536 = ones_rep (unat c1)"
  proof (cases "unat c1 < 65536")
    case True
    then show ?thesis
      by (simp add: c2_def unat_word_ariths unat_drop_bit16 ones_rep_small)
  next
    case False
    define d where "d = unat c1 - 65535"
    have d: "unat c1 = d + 65535" "0 < d" "d \<le> 65535"
      using False q r by (auto simp: d_def u1)
    have "(d + 65535) div 65536 = 1"
      using d by (intro div_nat_eqI) auto
    then have "unat c2 = d + 65536"
      using d by (simp add: c2_def unat_word_ariths unat_drop_bit16)
    moreover have "ones_rep (unat c1) = d"
      using d ones_rep_add [of d 1] by (simp add: ones_rep_small)
    ultimately show ?thesis using d by simp
  qed
  with rep show ?thesis
    by (simp add: ones_fold_def Let_def unat_not16 flip: c1_def c2_def S_def)
qed

end
