(* ===== verification/NvCommon.thy ===== *)
theory NvCommon
  imports Prelude
begin

text \<open>
  The checksum of the NV item daemon: \<open>calc_Checksum\<close> and \<open>ChkNVEcc\<close> of
  \<^verbatim>\<open>src/apps/nvitem/nvitem_common.c\<close> (\<^verbatim>\<open>nvitem_fs.c\<close> carries a second, textually identical
  copy).  The buffer argument is the list of the \<open>len\<close> bytes the C code reads.
\<close>

section \<open>Definitions\<close>

definition RAMNV_SECT_SIZE :: nat where
  "RAMNV_SECT_SIZE = 512"

definition RAMNV_DIRTYTABLE_MAXSIZE :: nat where
  "RAMNV_DIRTYTABLE_MAXSIZE = 48"

definition RAMNV_NUM :: nat where
  "RAMNV_NUM = 15"

definition NV_PATH_MAX_LEN :: nat where
  "NV_PATH_MAX_LEN = 100"

text \<open>The loop of \<open>calc_Checksum\<close>: two bytes at a time, then a last odd byte.\<close>

fun checksum_loop :: "byte list \<Rightarrow> u32 \<Rightarrow> u32" where
  "checksum_loop (a # b # dat) chkSum =
     (let num = (ucast a :: u16);
          num = num OR push_bit 8 (ucast b)
      in checksum_loop dat (chkSum + ucast num))"
| "checksum_loop [a] chkSum = chkSum + ucast a"
| "checksum_loop [] chkSum = chkSum"

definition calc_Checksum :: "byte list \<Rightarrow> u16" where
  "calc_Checksum dat = ones_fold (checksum_loop dat 0)"

definition ChkNVEcc :: "byte list \<Rightarrow> u16 \<Rightarrow> bool" where
  "ChkNVEcc buf checksum = (calc_Checksum buf = checksum)"

section \<open>The checksum as a number\<close>

text \<open>The 16-bit little-endian words of a buffer, an odd last byte standing alone.\<close>

fun words16 :: "byte list \<Rightarrow> nat list" where
  "words16 (a # b # dat) = (unat a + 256 * unat b) # words16 dat"
| "words16 [a] = [unat a]"
| "words16 [] = []"

definition byte_weight :: "nat \<Rightarrow> nat" where
  "byte_weight i = (if even i then 1 else 256)"

lemma unat_pair16: "unat (ucast a OR push_bit 8 (ucast b) :: u16) = unat (a :: byte) + 256 * unat (b :: byte)"
proof -
  have "ucast a OR push_bit 8 (ucast b) = (ucast a + push_bit 8 (ucast b) :: u16)"
    by (rule disjunctive_add [symmetric]) (auto simp: bit_simps dest: bit_imp_le_length)
  also have "unat \<dots> = (unat a + 256 * unat b) mod 65536"
    by (simp add: unat_word_ariths push_bit_eq_mult mod_add_right_eq mult.commute)
  finally show ?thesis
    using unat_byte_le [of a] unat_byte_le [of b] by simp
qed

lemma sum_words16_bound: "sum_list (words16 dat) \<le> 65535 * ((length dat + 1) div 2)"
proof (induction dat rule: words16.induct)
  case (1 a b dat)
  then show ?case
    using unat_byte_le [of a] unat_byte_le [of b] by simp
next
  case (2 a)
  then show ?case using unat_byte_le [of a] by simp
qed simp

lemma checksum_loop_mod:
  "unat (checksum_loop dat s) = (unat s + sum_list (words16 dat)) mod 4294967296"
proof (induction dat s rule: checksum_loop.induct)
  case (1 a b dat s)
  then show ?case
    by (simp add: Let_def unat_word_ariths unat_pair16 mod_add_left_eq add.assoc)
qed (simp_all add: unat_word_ariths)

lemma calc_Checksum_ones:
  assumes "length dat \<le> 131072"
  shows "unat (calc_Checksum dat) = 65535 - ones_rep (sum_list (words16 dat))"
proof -
  have "sum_list (words16 dat) < 4294967296"
    using sum_words16_bound [of dat] assms by linarith
  then show ?thesis
    by (simp add: calc_Checksum_def ones_fold_rep checksum_loop_mod)
qed

lemma calc_Checksum_eqD:
  assumes "calc_Checksum xs = calc_Checksum ys" "length xs \<le> 131072" "length ys \<le> 131072"
  shows "sum_list (words16 xs) mod 65535 = sum_list (words16 ys) mod 65535"
proof (rule ones_rep_mod)
  have "65535 - ones_rep (sum_list (words16 xs)) = 65535 - ones_rep (sum_list (words16 ys))"
    using assms by (metis calc_Checksum_ones)
  then show "ones_rep (sum_list (words16 xs)) = ones_rep (sum_list (words16 ys))"
    using ones_rep_less [of "sum_list (words16 xs)"] ones_rep_less [of "sum_list (words16 ys)"]
    by linarith
qed

lemma sum_words16_update:
  "i < length dat \<Longrightarrow>
     sum_list (words16 (dat[i := v])) + byte_weight i * unat (dat ! i)
       = sum_list (words16 dat) + byte_weight i * unat v"
proof (induction dat arbitrary: i rule: words16.induct)
  case (1 a b dat)
  show ?case
  proof (cases i)
    case 0
    then show ?thesis by (simp add: byte_weight_def)
  next
    case (Suc j)
    show ?thesis
    proof (cases j)
      case 0
      with Suc show ?thesis by (simp add: byte_weight_def)
    next
      case (Suc k)
      with \<open>i = Suc j\<close> "1.prems" "1.IH" [of k] show ?thesis
        by (simp add: byte_weight_def)
    qed
  qed
qed (auto simp: byte_weight_def less_Suc_eq_0_disj)

lemma mod_eq_close_le:
  fixes m n d :: nat
  assumes "m mod d = n mod d" "m \<le> n" "n < m + d"
  shows "m = n"
proof -
  have "d dvd n - m"
    using mod_eq_dvd_iff_nat [OF assms(2), of d] assms(1) by simp
  then show ?thesis
    using assms(2,3) by (cases "n - m = 0") (auto dest: dvd_imp_le)
qed

lemma mod_eq_close:
  fixes m n d :: nat
  assumes "m mod d = n mod d" "m < n + d" "n < m + d"
  shows "m = n"
  using mod_eq_close_le [of m d n] mod_eq_close_le [of n d m] assms by (cases "m \<le> n") auto

section \<open>Properties\<close>

text \<open>
  C23.  Any single corrupted byte of an NV image of up to 128 KiB (the size of the fixed NV
  partition) is detected: \<open>ChkNVEcc\<close> rejects the changed image against the checksum of the
  original.
\<close>

theorem single_byte_corruption_detected:
  assumes "length dat \<le> 131072" and "i < length dat" and "v \<noteq> dat ! i"
  shows "\<not> ChkNVEcc (dat[i := v]) (calc_Checksum dat)"
proof
  assume "ChkNVEcc (dat[i := v]) (calc_Checksum dat)"
  then have cong: "sum_list (words16 (dat[i := v])) mod 65535 = sum_list (words16 dat) mod 65535"
    using assms(1) by (intro calc_Checksum_eqD) (simp_all add: ChkNVEcc_def)
  note upd = sum_words16_update [OF assms(2), of v]
  have small: "byte_weight i * unat w < 65535" for w :: byte
    using unat_byte_le [of w] by (simp add: byte_weight_def)
  have "sum_list (words16 (dat[i := v])) = sum_list (words16 dat)"
    using upd small [of v] small [of "dat ! i"] by (intro mod_eq_close [OF cong]) linarith+
  with upd have "unat v = unat (dat ! i)"
    by (simp add: byte_weight_def split: if_splits)
  with assms(3) show False
    by (simp add: word_unat_eq_iff)
qed

theorem single_byte_corruption_detected_witness:
  "\<not> ChkNVEcc ([1, 2, 3][1 := 7]) (calc_Checksum [1, 2, 3])"
  by (rule single_byte_corruption_detected) simp_all

end
