(* ===== verification/NvFs.thy ===== *)
theory NvFs
  imports NvCommon
begin

text \<open>
  The storage layer of the NV item daemon, \<^verbatim>\<open>src/apps/nvitem/nvitem_fs.c\<close>: the start-up
  arguments (\<open>initArgs\<close>), the partition table (\<open>ramDisk_Init\<close>, \<open>_getIdx\<close>) and the two mirrored
  image files of a partition (\<open>ramDisk_Read\<close>, \<open>ramDisk_Write\<close>).

  The operating system is a small file system value: the contents of the existing files, which
  names can be created, and how many bytes a file can take before \<open>write\<close> stops short.  The
  Android property service is the parameter \<open>prop\<close> (the value \<open>property_get\<close> delivers, the
  empty string when the property is not set), and \<open>rand() % 2\<close> is the parameter \<open>coin\<close>.
\<close>

section \<open>Start-up arguments\<close>

definition RO_MODEM_CHAR :: string where "RO_MODEM_CHAR = ''ro.modem.''"
definition PERSIST_MODEM_CHAR :: string where "PERSIST_MODEM_CHAR = ''persist.modem.''"
definition PRODUCT_PARTITION_PATH :: string where
  "PRODUCT_PARTITION_PATH = ''ro.product.partitionpath''"
definition RO_MODEM_FIXNVSIZE :: string where "RO_MODEM_FIXNVSIZE = ''.fixnv_size''"
definition RO_MODEM_RUNNVSIZE :: string where "RO_MODEM_RUNNVSIZE = ''.runnv_size''"
definition NV_PATH :: string where "NV_PATH = ''.nvp''"
definition NV_TAIL :: string where "NV_TAIL = ''.nv''"

record nv_args =
  channel_path :: string
  fixnv_ori_path :: string
  fixnv_bak_path :: string
  runnv_ori_path :: string
  runnv_bak_path :: string
  fixnv_size :: u32
  runnv_size :: u32

text \<open>\<open>strtol(s, 0, 16)\<close> with a 32-bit \<open>long\<close>: blanks, a sign, an optional \<open>0x\<close>, hexadecimal
  digits, the result clipped to the range of \<open>long\<close>.\<close>

definition hex_val :: "char \<Rightarrow> nat option" where
  "hex_val c =
     (let n = of_char c :: nat in
      if 48 \<le> n \<and> n \<le> 57 then Some (n - 48)
      else if 65 \<le> n \<and> n \<le> 70 then Some (n - 55)
      else if 97 \<le> n \<and> n \<le> 102 then Some (n - 87)
      else None)"

fun hex_digits :: "string \<Rightarrow> nat \<Rightarrow> nat" where
  "hex_digits [] acc = acc"
| "hex_digits (c # cs) acc =
     (case hex_val c of None \<Rightarrow> acc | Some d \<Rightarrow> hex_digits cs (16 * acc + d))"

definition is_space :: "char \<Rightarrow> bool" where
  "is_space c = (let n = of_char c :: nat in n = 32 \<or> (9 \<le> n \<and> n \<le> 13))"

definition strip_0x :: "string \<Rightarrow> string" where
  "strip_0x s = (case s of
       c # d # cs \<Rightarrow> if c = CHR ''0'' \<and> (d = CHR ''x'' \<or> d = CHR ''X'') then cs else s
     | _ \<Rightarrow> s)"

definition strtol16 :: "string \<Rightarrow> int" where
  "strtol16 s =
     (let s = dropWhile is_space s;
          neg = (s \<noteq> [] \<and> hd s = CHR ''-'');
          s = (if s \<noteq> [] \<and> (hd s = CHR ''-'' \<or> hd s = CHR ''+'') then tl s else s);
          n = int (hex_digits (strip_0x s) 0)
      in if neg then max (- (2 ^ 31)) (- n) else min (2 ^ 31 - 1) n)"

text \<open>
  \<open>initArgs\<close>: the return value and the globals it assigns.  A local array that a length test
  left unfilled and that the code then reads is the undefined result \<^term>\<open>None\<close>.
\<close>

definition initArgs :: "(string \<Rightarrow> string) \<Rightarrow> string \<Rightarrow> nv_args \<Rightarrow> (bool \<times> nv_args) option" where
  "initArgs prop argv1 g =
     (if length argv1 = 0 then Some (False, g) else do {
        ro_prop \<leftarrow> (if length RO_MODEM_CHAR + length argv1 < 20
                    then Some (RO_MODEM_CHAR @ argv1) else None);
        persist_prop \<leftarrow> (if length PERSIST_MODEM_CHAR + length argv1 < 32
                         then Some (PERSIST_MODEM_CHAR @ argv1) else None);
        channel_char \<leftarrow> (if length ro_prop + length NV_TAIL < 50
                         then Some (ro_prop @ NV_TAIL) else None);
        let g = g\<lparr>channel_path := prop channel_char\<rparr>;
        if length (channel_path g) = 0 then Some (False, g) else do {
        let fix_tested = length ro_prop + length RO_MODEM_FIXNVSIZE < 50;
        let fixnv = prop (ro_prop @ RO_MODEM_FIXNVSIZE);
        if fix_tested \<and> length fixnv = 0 then Some (False, g) else do {
        let g = (if fix_tested then g\<lparr>fixnv_size := word_of_int (strtol16 fixnv)\<rparr> else g);
        let run_tested = length ro_prop + length RO_MODEM_RUNNVSIZE < 50;
        let runnv = prop (ro_prop @ RO_MODEM_RUNNVSIZE);
        if run_tested \<and> length runnv = 0 then Some (False, g) else do {
        let g = (if run_tested then g\<lparr>runnv_size := word_of_int (strtol16 runnv)\<rparr> else g);
        let partition_path = prop PRODUCT_PARTITION_PATH;
        let nvp_tested = length persist_prop + length NV_PATH < 50;
        let path_char = (if nvp_tested then prop (persist_prop @ NV_PATH) else []);
        if nvp_tested \<and> length path_char = 0 then Some (False, g) else
        if \<not> length partition_path + length path_char + length ''fixnv1'' < NV_PATH_MAX_LEN
        then Some (False, g) else do {
        let g = g\<lparr>fixnv_ori_path := partition_path @ path_char @ ''fixnv1'',
                  fixnv_bak_path := partition_path @ path_char @ ''fixnv2''\<rparr>;
        if \<not> length partition_path + length path_char + length ''runtimenv1'' < NV_PATH_MAX_LEN
        then Some (False, g) else
        Some (True, g\<lparr>runnv_ori_path := partition_path @ path_char @ ''runtimenv1'',
                      runnv_bak_path := partition_path @ path_char @ ''runtimenv2''\<rparr>)}}}}})"

section \<open>The partition table\<close>

record RAM_NV_CONFIG =
  cfg_partId :: u32
  image_path :: string
  imageBak_path :: string
  image_size :: u32

definition blank_config :: RAM_NV_CONFIG where
  "blank_config = \<lparr>cfg_partId = 0, image_path = [], imageBak_path = [], image_size = 0\<rparr>"

definition ramdiskCfg0 :: "RAM_NV_CONFIG list" where
  "ramdiskCfg0 =
     [\<lparr>cfg_partId = 1, image_path = ''/fixnv/fixnv.bin'', imageBak_path = [], image_size = 0x20000\<rparr>,
      \<lparr>cfg_partId = 2, image_path = ''/runtimenv/runtimenv.bin'', imageBak_path = [],
       image_size = 0x40000\<rparr>]
     @ replicate (RAMNV_NUM + 1 - 2) blank_config"

text \<open>\<open>strcpy\<close> into a member of \<^term>\<open>NV_PATH_MAX_LEN\<close> characters, terminator included.\<close>

definition strcpy_path :: "string \<Rightarrow> string option" where
  "strcpy_path s = (if length s < NV_PATH_MAX_LEN then Some s else None)"

definition ramDisk_Init :: "nv_args \<Rightarrow> RAM_NV_CONFIG list \<Rightarrow> RAM_NV_CONFIG list option" where
  "ramDisk_Init g cfgs =
     (if length (fixnv_ori_path g) > NV_PATH_MAX_LEN \<or> length (fixnv_bak_path g) > NV_PATH_MAX_LEN
       \<or> length (runnv_ori_path g) > NV_PATH_MAX_LEN \<or> length (runnv_bak_path g) > NV_PATH_MAX_LEN
      then Some cfgs
      else do {
        p0 \<leftarrow> strcpy_path (fixnv_ori_path g);
        b0 \<leftarrow> strcpy_path (fixnv_bak_path g);
        p1 \<leftarrow> strcpy_path (runnv_ori_path g);
        b1 \<leftarrow> strcpy_path (runnv_bak_path g);
        Some ([\<lparr>cfg_partId = 1, image_path = p0, imageBak_path = b0, image_size = fixnv_size g\<rparr>,
               \<lparr>cfg_partId = 2, image_path = p1, imageBak_path = b1, image_size = runnv_size g\<rparr>]
              @ replicate (length cfgs - 2) blank_config)})"

definition ramDisk_Open :: "u32 \<Rightarrow> u32" where
  "ramDisk_Open partId = partId"

fun getIdx_loop :: "RAM_NV_CONFIG list \<Rightarrow> int \<Rightarrow> u32 \<Rightarrow> int" where
  "getIdx_loop [] i partId = -1"
| "getIdx_loop (c # cs) i partId =
     (if cfg_partId c = 0 then -1
      else if partId = cfg_partId c then i
      else getIdx_loop cs (i + 1) partId)"

definition getIdx :: "RAM_NV_CONFIG list \<Rightarrow> u32 \<Rightarrow> int" where
  "getIdx cfgs handle = getIdx_loop cfgs 0 handle"

section \<open>The mirrored image files\<close>

record nv_fs =
  files :: "string \<rightharpoonup> byte list"
  creatable :: "string \<Rightarrow> bool"
  room :: "string \<Rightarrow> nat"

definition NV_HEAD_MAGIC :: u32 where "NV_HEAD_MAGIC = 0x00004e56"
definition NV_VERSION :: u32 where "NV_VERSION = 101"

text \<open>The 512-byte header sector: \<open>magic\<close>, \<open>len\<close>, \<open>checksum\<close>, \<open>version\<close>, zeros.\<close>

definition nv_header :: "byte list \<Rightarrow> byte list" where
  "nv_header buf =
     put32 NV_HEAD_MAGIC @ put32 (of_nat (length buf)) @ put32 (ucast (calc_Checksum buf))
     @ put32 NV_VERSION @ replicate (RAMNV_SECT_SIZE - 16) 0"

definition header_checksum :: "byte list \<Rightarrow> u16" where
  "header_checksum header = ucast (get32 header 8)"

text \<open>Reading into a buffer that \<open>memset\<close> prepared: the bytes read replace a prefix.\<close>

definition read_into :: "byte list \<Rightarrow> byte list \<Rightarrow> byte list" where
  "read_into bs buf = bs @ drop (length bs) buf"

text \<open>\<open>open(name, O_RDWR | O_CREAT | O_TRUNC)\<close>, two \<open>write\<close>s, \<open>fsync\<close>, \<open>close\<close>; the flag
  tells whether both \<open>write\<close> calls took all their bytes.  A failed \<open>open\<close> is silent.\<close>

definition write_image :: "nv_fs \<Rightarrow> string \<Rightarrow> byte list \<Rightarrow> byte list \<Rightarrow> nv_fs \<times> bool" where
  "write_image fs name header buf =
     (if creatable fs name
      then (fs\<lparr>files := (files fs)(name \<mapsto> take (room fs name) (header @ buf))\<rparr>,
            length header \<le> room fs name \<and> length header + length buf \<le> room fs name)
      else (fs, True))"

definition ramDisk_Write ::
  "RAM_NV_CONFIG list \<Rightarrow> nv_fs \<Rightarrow> u32 \<Rightarrow> byte list \<Rightarrow> nv_fs \<times> bool" where
  "ramDisk_Write cfgs fs handle buf =
     (let idx = getIdx cfgs handle in
      if idx = -1 then (fs, False)
      else let c = cfgs ! nat idx;
               header_buf = nv_header buf;
               (fs1, ok1) = write_image fs (imageBak_path c) header_buf buf;
               (fs2, ok2) = write_image fs1 (image_path c) header_buf buf
           in (fs2, ok1 \<and> ok2))"

text \<open>
  \<open>ramDisk_Read\<close>.  \<open>buf\<close> holds the \<open>size\<close> bytes at the caller's pointer.  The counter \<open>ret2\<close>
  of the first attempt survives when the second file cannot be opened.
\<close>

definition ramDisk_Read_second ::
  "nv_fs \<Rightarrow> string \<Rightarrow> string \<Rightarrow> nat \<Rightarrow> nat \<Rightarrow> nv_fs \<times> byte list \<times> bool" where
  "ramDisk_Read_second fs firstName secondName sz ret2 =
     (let (opened, header, buf, ret1, ret2) =
            (case files fs secondName of
               None \<Rightarrow> (False, replicate RAMNV_SECT_SIZE 0, replicate sz 0xFF, 0, ret2)
             | Some content \<Rightarrow>
                 let h = take RAMNV_SECT_SIZE content;
                     b = take sz (drop (length h) content)
                 in (True, read_into h (replicate RAMNV_SECT_SIZE 0),
                     read_into b (replicate sz 0xFF), length h, length b))
      in if opened \<and> ret1 \<noteq> RAMNV_SECT_SIZE then (fs, buf, True)
         else if ret2 \<noteq> sz then (fs, buf, True)
         else if \<not> ChkNVEcc buf (header_checksum header) then (fs, buf, True)
         else (fst (write_image fs firstName header buf), buf, True))"

definition ramDisk_Read ::
  "bool \<Rightarrow> RAM_NV_CONFIG list \<Rightarrow> nv_fs \<Rightarrow> u32 \<Rightarrow> byte list \<Rightarrow> nv_fs \<times> byte list \<times> bool" where
  "ramDisk_Read coin cfgs fs handle buf =
     (let idx = getIdx cfgs handle; sz = length buf in
      if idx = -1 then (fs, buf, False)
      else let c = cfgs ! nat idx;
               firstName = (if coin then image_path c else imageBak_path c);
               secondName = (if coin then imageBak_path c else image_path c)
           in case files fs firstName of
                None \<Rightarrow> ramDisk_Read_second fs firstName secondName sz 0
              | Some content \<Rightarrow>
                  let h = take RAMNV_SECT_SIZE content;
                      b = take sz (drop (length h) content);
                      header = read_into h (replicate RAMNV_SECT_SIZE 0);
                      buf = read_into b (replicate sz 0xFF)
                  in if length h = RAMNV_SECT_SIZE \<and> length b = sz
                        \<and> ChkNVEcc buf (header_checksum header)
                     then (fs, buf, True)
                     else ramDisk_Read_second fs firstName secondName sz (length b))"

text \<open>\<open>ramDisk_Close\<close> has an empty body; nothing of the state changes.\<close>

definition ramDisk_Close :: "nv_fs \<Rightarrow> u32 \<Rightarrow> nv_fs" where
  "ramDisk_Close fs handle = fs"

section \<open>Images on disk\<close>

definition valid_image :: "nat \<Rightarrow> byte list \<Rightarrow> bool" where
  "valid_image sz content =
     (RAMNV_SECT_SIZE + sz \<le> length content
      \<and> ChkNVEcc (take sz (drop RAMNV_SECT_SIZE content))
           (header_checksum (take RAMNV_SECT_SIZE content)))"

definition holds_image :: "nv_fs \<Rightarrow> string \<Rightarrow> byte list \<Rightarrow> bool" where
  "holds_image fs name dat =
     (case files fs name of
        None \<Rightarrow> False
      | Some content \<Rightarrow> valid_image (length dat) content
          \<and> take (length dat) (drop RAMNV_SECT_SIZE content) = dat)"


definition mirror :: "bool \<Rightarrow> RAM_NV_CONFIG \<Rightarrow> string" where
  "mirror coin c = (if coin then image_path c else imageBak_path c)"


lemma length_nv_header [simp]: "length (nv_header buf) = RAMNV_SECT_SIZE"
  by (simp add: nv_header_def RAMNV_SECT_SIZE_def)

lemma header_checksum_nv_header [simp]: "header_checksum (nv_header buf) = calc_Checksum buf"
proof -
  have "get32 (nv_header buf) 8 = ucast (calc_Checksum buf)"
    unfolding nv_header_def by (simp add: le_simps)
  moreover have "ucast (ucast w :: u32) = (w :: u16)" for w
    by (rule bit_word_eqI) (simp add: bit_simps)
  ultimately show ?thesis by (simp add: header_checksum_def)
qed

lemma read_into_full [simp]: "length bs = length buf \<Longrightarrow> read_into bs buf = bs"
  by (simp add: read_into_def)

lemma read_into_Nil [simp]: "read_into [] buf = buf"
  by (simp add: read_into_def)

lemma valid_image_written [simp]:
  "n = length buf \<Longrightarrow> valid_image n (nv_header buf @ buf)"
  by (simp add: valid_image_def ChkNVEcc_def)



lemma ramDisk_Read_eq:
  assumes "getIdx cfgs h = int k"
  shows "ramDisk_Read coin cfgs fs h buf =
    (case files fs (mirror coin (cfgs ! k)) of
       None \<Rightarrow> ramDisk_Read_second fs (mirror coin (cfgs ! k)) (mirror (\<not> coin) (cfgs ! k)) (length buf) 0
     | Some content \<Rightarrow>
         if valid_image (length buf) content
         then (fs, take (length buf) (drop RAMNV_SECT_SIZE content), True)
         else ramDisk_Read_second fs (mirror coin (cfgs ! k)) (mirror (\<not> coin) (cfgs ! k))
                (length buf) (min (length buf) (length content - RAMNV_SECT_SIZE)))"
proof -
  have len: "min RAMNV_SECT_SIZE n = RAMNV_SECT_SIZE \<or> n - min RAMNV_SECT_SIZE n = 0" for n
    by auto
  have "(length (take RAMNV_SECT_SIZE content) = RAMNV_SECT_SIZE
        \<and> length (take (length buf) (drop (length (take RAMNV_SECT_SIZE content)) content)) = length buf
        \<and> ChkNVEcc (read_into (take (length buf) (drop (length (take RAMNV_SECT_SIZE content)) content))
             (replicate (length buf) 0xFF))
            (header_checksum (read_into (take RAMNV_SECT_SIZE content) (replicate RAMNV_SECT_SIZE 0))))
      = valid_image (length buf) content" for content
    by (auto simp: valid_image_def min_absorb2)
  moreover have "length (take RAMNV_SECT_SIZE content) = RAMNV_SECT_SIZE"
    "read_into (take (length buf) (drop RAMNV_SECT_SIZE content)) (replicate (length buf) 0xFF)
       = take (length buf) (drop RAMNV_SECT_SIZE content)"
    if "valid_image (length buf) content" for content
    using that by (auto simp: valid_image_def min_absorb2)
  moreover have "length (take (length buf) (drop (length (take RAMNV_SECT_SIZE content)) content))
      = min (length buf) (length content - RAMNV_SECT_SIZE)" for content :: "byte list"
    using len [of "length content"] by auto
  moreover have "int k \<noteq> -1" by simp
  ultimately show ?thesis
    using assms by (cases coin) (auto simp only: ramDisk_Read_def Let_def mirror_def
        simp_thms if_True if_False nat_int cong: if_cong split: option.split)
qed

lemma ramDisk_Read_first:
  assumes "getIdx cfgs h = int k" "holds_image fs (mirror coin (cfgs ! k)) dat"
    and "length buf = length dat"
  shows "ramDisk_Read coin cfgs fs h buf = (fs, dat, True)"
  using assms by (auto simp: ramDisk_Read_eq holds_image_def split: option.splits)


lemma write_image_full:
  assumes "creatable fs p" "RAMNV_SECT_SIZE + length dat \<le> room fs p"
  shows "write_image fs p (nv_header dat) dat
    = (fs\<lparr>files := (files fs)(p \<mapsto> nv_header dat @ dat)\<rparr>, True)"
  using assms by (simp add: write_image_def)

lemma ramDisk_Write_full:
  assumes "getIdx cfgs h = int k"
    and "\<And>b. creatable fs (mirror b (cfgs ! k)) \<and> RAMNV_SECT_SIZE + length dat \<le> room fs (mirror b (cfgs ! k))"
  shows "ramDisk_Write cfgs fs h dat = (fs\<lparr>files := (files fs)
    (imageBak_path (cfgs ! k) \<mapsto> nv_header dat @ dat, image_path (cfgs ! k) \<mapsto> nv_header dat @ dat)\<rparr>, True)"
  using assms(1) assms(2) [of True] assms(2) [of False]
  by (simp add: ramDisk_Write_def write_image_full Let_def mirror_def)

lemma holds_image_written:
  "files fs name = Some (nv_header dat @ dat) \<Longrightarrow> holds_image fs name dat"
  by (simp add: holds_image_def)

lemma holds_image_cong:
  "files fs' name = files fs name \<Longrightarrow> holds_image fs' name dat = holds_image fs name dat"
  by (simp add: holds_image_def)

lemma sum_words16_FF: "even n \<Longrightarrow> sum_list (words16 (replicate n 0xFF)) = 65535 * (n div 2)"
proof -
  have "sum_list (words16 (replicate (2 * m) 0xFF)) = 65535 * m" for m
    by (induction m) simp_all
  then show "even n \<Longrightarrow> ?thesis" by (auto elim: evenE)
qed

lemma calc_Checksum_FF:
  assumes "even n" "0 < n" "n \<le> 131072"
  shows "calc_Checksum (replicate n 0xFF) = 0"
proof -
  obtain m where m: "n div 2 = Suc m"
    using assms(1,2) by (metis dvd_div_eq_0_iff gr_implies_not0 not0_implies_Suc)
  have "ones_rep (65535 * (n div 2)) = 65535"
    using ones_rep_add [of 65535 m] by (simp add: m ones_rep_small)
  then have "unat (calc_Checksum (replicate n 0xFF)) = 0"
    using assms by (simp add: calc_Checksum_ones sum_words16_FF)
  then show ?thesis by (simp add: unsigned_eq_0_iff)
qed

lemma header_checksum_zero: "header_checksum (replicate RAMNV_SECT_SIZE 0) = 0"
  by (simp add: header_checksum_def get32_def RAMNV_SECT_SIZE_def)

lemma holds_image_zero_header:
  assumes "files fs p = Some (replicate RAMNV_SECT_SIZE 0 @ replicate n 0xFF)"
    and "even n" "0 < n" "n \<le> 131072"
  shows "holds_image fs p (replicate n 0xFF)"
  using assms
  by (simp add: holds_image_def valid_image_def ChkNVEcc_def calc_Checksum_FF header_checksum_zero)

lemma getIdx_loop_blank: "getIdx_loop (replicate n blank_config) i h = -1"
  by (cases n) (simp_all add: blank_config_def)

lemma initArgs_defined:
  assumes "length argv1 \<le> 10"
  shows "initArgs prop argv1 g \<noteq> None"
  using assms
  by (auto simp: initArgs_def Let_def RO_MODEM_CHAR_def PERSIST_MODEM_CHAR_def NV_TAIL_def
      split: if_splits)

lemma initArgs_paths:
  assumes "initArgs prop argv1 g = Some res" "res = (r, g')" "r"
  obtains p where "fixnv_ori_path g' = p @ ''fixnv1''" "fixnv_bak_path g' = p @ ''fixnv2''"
    "runnv_ori_path g' = p @ ''runtimenv1''" "runnv_bak_path g' = p @ ''runtimenv2''"
    "length p + 10 < 100"
proof -
  let ?p = "prop PRODUCT_PARTITION_PATH @ (if length (PERSIST_MODEM_CHAR @ argv1) + length NV_PATH < 50
              then prop ((PERSIST_MODEM_CHAR @ argv1) @ NV_PATH) else [])"
  have "fixnv_ori_path g' = ?p @ ''fixnv1'' \<and> fixnv_bak_path g' = ?p @ ''fixnv2''
      \<and> runnv_ori_path g' = ?p @ ''runtimenv1'' \<and> runnv_bak_path g' = ?p @ ''runtimenv2''
      \<and> length ?p + 10 < 100"
    using assms by (auto simp: initArgs_def Let_def NV_PATH_MAX_LEN_def split: if_splits bind_splits)
  then show ?thesis by (intro that) blast+
qed






section \<open>Properties\<close>


definition demo_cfgs :: "RAM_NV_CONFIG list" where
  "demo_cfgs = [\<lparr>cfg_partId = 1, image_path = ''a'', imageBak_path = ''b'', image_size = 512\<rparr>,
               blank_config]"

definition demo_fs :: nv_fs where
  "demo_fs = \<lparr>files = [''a'' \<mapsto> nv_header [1, 2] @ [1, 2], ''b'' \<mapsto> nv_header [1, 2] @ [1, 2]],
              creatable = (\<lambda>_. True), room = (\<lambda>_. 4096)\<rparr>"

lemma demo_getIdx: "getIdx demo_cfgs 1 = int 0"
  by (simp add: getIdx_def demo_cfgs_def)

lemma demo_paths: "image_path (demo_cfgs ! 0) = ''a''" "imageBak_path (demo_cfgs ! 0) = ''b''"
  by (simp_all add: demo_cfgs_def)



text \<open>
  C22.  Round trip through the disk: when both files can be created and have room for the
  header sector and the image, \<open>ramDisk_Write\<close> reports success and a later \<open>ramDisk_Read\<close>
  returns the written bytes without touching the files, whichever mirror it reads first.
\<close>

theorem ramDisk_Write_Read:
  assumes "getIdx cfgs h = int k"
    and "\<forall>p\<in>{image_path (cfgs ! k), imageBak_path (cfgs ! k)}.
           creatable fs p \<and> RAMNV_SECT_SIZE + length dat \<le> room fs p"
    and "length buf = length dat"
  shows "\<exists>fs'. ramDisk_Write cfgs fs h dat = (fs', True)
     \<and> (\<forall>coin. ramDisk_Read coin cfgs fs' h buf = (fs', dat, True))"
proof -
  define fs' where "fs' = fst (ramDisk_Write cfgs fs h dat)"
  have "ramDisk_Write cfgs fs h dat = (fs', True)"
    using assms(1,2) by (simp add: fs'_def ramDisk_Write_def write_image_full Let_def)
  moreover have "holds_image fs' (mirror coin (cfgs ! k)) dat" for coin
    using assms(1,2)
    by (simp add: fs'_def ramDisk_Write_def write_image_full Let_def holds_image_def mirror_def)
  ultimately show ?thesis
    using ramDisk_Read_first [OF assms(1)] assms(3) by blast
qed

theorem ramDisk_Write_Read_witness:
  "\<exists>fs'. ramDisk_Write demo_cfgs demo_fs 1 [7, 8] = (fs', True)
     \<and> (\<forall>coin. ramDisk_Read coin demo_cfgs fs' 1 [0, 0] = (fs', [7, 8], True))"
  by (rule ramDisk_Write_Read [OF demo_getIdx])
    (simp_all add: demo_paths demo_fs_def RAMNV_SECT_SIZE_def)

text \<open>
  A blank partition is taken for a valid one.  When the first image is complete but fails
  its checksum and the second file does not exist, \<open>ramDisk_Read\<close> reports success with a buffer
  of 0xFF bytes (whose checksum is 0, the one in the cleared header) and overwrites the first
  file with that blank image, which every later read accepts.
\<close>

theorem ramDisk_Read_blank_accepted:
  assumes "getIdx cfgs h = int k"
    and "files fs (mirror coin (cfgs ! k)) = Some content"
    and "RAMNV_SECT_SIZE + length buf \<le> length content" "\<not> valid_image (length buf) content"
    and "files fs (mirror (\<not> coin) (cfgs ! k)) = None"
    and "even (length buf)" "0 < length buf" "length buf \<le> 131072"
    and "creatable fs (mirror coin (cfgs ! k))"
    and "RAMNV_SECT_SIZE + length buf \<le> room fs (mirror coin (cfgs ! k))"
  shows "\<exists>fs'. ramDisk_Read coin cfgs fs h buf = (fs', replicate (length buf) 0xFF, True)
     \<and> holds_image fs' (mirror coin (cfgs ! k)) (replicate (length buf) 0xFF)"
proof -
  define fs' where "fs' = fs\<lparr>files := (files fs)(mirror coin (cfgs ! k) \<mapsto>
     replicate RAMNV_SECT_SIZE 0 @ replicate (length buf) 0xFF)\<rparr>"
  have "min (length buf) (length content - RAMNV_SECT_SIZE) = length buf"
    using assms(3) by simp
  then have "ramDisk_Read coin cfgs fs h buf = (fs', replicate (length buf) 0xFF, True)"
    using assms
    by (simp add: ramDisk_Read_eq ramDisk_Read_second_def Let_def ChkNVEcc_def calc_Checksum_FF
        header_checksum_zero write_image_def fs'_def)
  moreover have "holds_image fs' (mirror coin (cfgs ! k)) (replicate (length buf) 0xFF)"
    using assms(6-8) by (intro holds_image_zero_header) (simp_all add: fs'_def)
  ultimately show ?thesis by blast
qed

theorem ramDisk_Read_blank_accepted_witness:
  "\<exists>fs'. ramDisk_Read True demo_cfgs
        (demo_fs\<lparr>files := [''a'' \<mapsto> replicate 514 1]\<rparr>) 1 [0, 0] = (fs', [0xFF, 0xFF], True)
     \<and> holds_image fs' ''a'' [0xFF, 0xFF]"
proof -
  have two: "replicate 2 x = [x, x]" for x :: byte
    by (simp add: numeral_2_eq_2)
  have "calc_Checksum [1, 1] \<noteq> header_checksum (replicate 512 1)"
    by (simp add: calc_Checksum_def ones_fold_def header_checksum_def get32_def)
  then have "\<not> valid_image 2 (replicate 514 1)"
    by (simp add: valid_image_def RAMNV_SECT_SIZE_def ChkNVEcc_def two)
  then have "\<not> valid_image (Suc (Suc 0)) (replicate 514 1)"
    by (unfold numeral_2_eq_2)
  then show ?thesis
    using ramDisk_Read_blank_accepted [OF demo_getIdx, of
        "demo_fs\<lparr>files := [''a'' \<mapsto> replicate 514 1]\<rparr>" True "replicate 514 1" "[0, 0]"]
    by (simp add: mirror_def demo_paths demo_fs_def RAMNV_SECT_SIZE_def two)
qed

text \<open>
  A failing \<open>open\<close> is not reported: if neither image file can be opened for writing,
  \<open>ramDisk_Write\<close> still returns success and leaves the disk as it was.
\<close>

theorem ramDisk_Write_open_failure_silent:
  assumes "getIdx cfgs h = int k"
    and "\<not> creatable fs (image_path (cfgs ! k))" "\<not> creatable fs (imageBak_path (cfgs ! k))"
  shows "ramDisk_Write cfgs fs h dat = (fs, True)"
  using assms by (simp add: ramDisk_Write_def write_image_def Let_def)

theorem ramDisk_Write_open_failure_silent_witness:
  "ramDisk_Write demo_cfgs (demo_fs\<lparr>creatable := (\<lambda>_. False)\<rparr>) 1 [9]
     = (demo_fs\<lparr>creatable := (\<lambda>_. False)\<rparr>, True)"
  by (rule ramDisk_Write_open_failure_silent [OF demo_getIdx]) simp_all

text \<open>
  Start-up stays within its buffers.  For a modem name of at most ten characters (what
  \<open>main\<close> lets through) \<open>initArgs\<close> never reads an unfilled local array; when it succeeds,
  \<open>ramDisk_Init\<close> copies the four paths without overrunning the 100-byte members of the table,
  the paths are pairwise different, and handles 1 and 2 are the only ones \<open>_getIdx\<close> finds.
\<close>

theorem initArgs_ramDisk_Init_safe:
  assumes "length argv1 \<le> 10"
  shows "\<exists>r g'. initArgs prop argv1 g = Some (r, g')
     \<and> (r \<longrightarrow> (\<exists>cfgs. ramDisk_Init g' ramdiskCfg0 = Some cfgs
          \<and> distinct [image_path (cfgs ! 0), imageBak_path (cfgs ! 0),
                      image_path (cfgs ! 1), imageBak_path (cfgs ! 1)]
          \<and> getIdx cfgs 1 = 0 \<and> getIdx cfgs 2 = 1
          \<and> (\<forall>h. h \<notin> {1, 2} \<longrightarrow> getIdx cfgs h = -1)))"
proof (cases "initArgs prop argv1 g")
  case None
  then show ?thesis using initArgs_defined [OF assms] by blast
next
  case (Some res)
  show ?thesis
  proof (cases res)
    case (Pair r g')
    have "\<exists>cfgs. ramDisk_Init g' ramdiskCfg0 = Some cfgs
          \<and> distinct [image_path (cfgs ! 0), imageBak_path (cfgs ! 0),
                      image_path (cfgs ! 1), imageBak_path (cfgs ! 1)]
          \<and> getIdx cfgs 1 = 0 \<and> getIdx cfgs 2 = 1
          \<and> (\<forall>h. h \<notin> {1, 2} \<longrightarrow> getIdx cfgs h = -1)" if r: r
    proof -
      obtain p where paths: "fixnv_ori_path g' = p @ ''fixnv1''" "fixnv_bak_path g' = p @ ''fixnv2''"
        "runnv_ori_path g' = p @ ''runtimenv1''" "runnv_bak_path g' = p @ ''runtimenv2''"
        and len: "length p + 10 < 100"
        using Some Pair r by (rule initArgs_paths)
      show ?thesis
        using len by (simp add: ramDisk_Init_def strcpy_path_def paths NV_PATH_MAX_LEN_def
            ramdiskCfg0_def RAMNV_NUM_def getIdx_def getIdx_loop_blank)
    qed
    with Some Pair show ?thesis by blast
  qed
qed

theorem initArgs_ramDisk_Init_safe_witness:
  "\<exists>r g'. initArgs (\<lambda>_. ''/p/'') ''t'' \<lparr>channel_path = [], fixnv_ori_path = [], fixnv_bak_path = [],
        runnv_ori_path = [], runnv_bak_path = [], fixnv_size = 0, runnv_size = 0\<rparr> = Some (r, g')
     \<and> r \<and> (\<exists>cfgs. ramDisk_Init g' ramdiskCfg0 = Some cfgs \<and> getIdx cfgs 2 = 1)"
proof -
  let ?g = "\<lparr>channel_path = [], fixnv_ori_path = [], fixnv_bak_path = [],
        runnv_ori_path = [], runnv_bak_path = [], fixnv_size = 0, runnv_size = 0\<rparr>"
  have "\<exists>g'. initArgs (\<lambda>_. ''/p/'') ''t'' ?g = Some (True, g')"
    by (simp add: initArgs_def Let_def RO_MODEM_CHAR_def PERSIST_MODEM_CHAR_def NV_TAIL_def
        RO_MODEM_FIXNVSIZE_def RO_MODEM_RUNNVSIZE_def NV_PATH_def NV_PATH_MAX_LEN_def)
  then show ?thesis
    using initArgs_ramDisk_Init_safe [of "''t''" "\<lambda>_. ''/p/''" ?g] by fastforce
qed

end
