(* ===== verification/NvBuf.thy ===== *)
theory NvBuf
  imports NvFs
begin

text \<open>
  The RAM copies of the NV partitions, \<^verbatim>\<open>src/apps/nvitem/nvitem_buf.c\<close>.  Each partition has
  three buffers (\<open>fromChannel\<close>, \<open>backup\<close>, \<open>toDisk\<close>), each with a table of dirty sector bits and a
  checksum.  The state \<open>nv_world\<close> is \<open>ramNvCtl\<close> together with what the operations reach: the
  partition table and the disk of \<open>NvFs\<close>, the calibration flag, whether the kernel panic of
  \<open>ChkNVBufEcc\<close> was requested, and the number of wake-ups \<open>giveEvent\<close> sent to the save task.

  Allocation always succeeds in the model; the contents of a fresh block are the parameter
  \<open>junk\<close>.
\<close>

section \<open>State\<close>

record RAMNV_BUF_CTRL =
  diskbuf :: "byte list"
  dirty :: "u32 list"
  checksum :: u16

record RAMNV_PART_CTRL =
  partId :: u32
  sctNum :: u32
  fromChannel :: RAMNV_BUF_CTRL
  backup :: RAMNV_BUF_CTRL
  toDisk :: RAMNV_BUF_CTRL
  fdhandle :: u32

record nv_world =
  partNum :: nat
  part :: "RAMNV_PART_CTRL list"
  cfgs :: "RAM_NV_CONFIG list"
  disk :: nv_fs
  is_cali_mode :: bool
  sysrq :: bool
  events :: nat

text \<open>\<open>RAMNV_SECT_SIZE*ramNvCtl.part[id].sctNum\<close>, computed in 32 bits.\<close>

definition part_size :: "RAMNV_PART_CTRL \<Rightarrow> nat" where
  "part_size p = unat (of_nat RAMNV_SECT_SIZE * sctNum p)"

definition get_part :: "nv_world \<Rightarrow> u32 \<Rightarrow> RAMNV_PART_CTRL option" where
  "get_part w i = (if unat i < length (part w) then Some (part w ! unat i) else None)"

definition put_part :: "nv_world \<Rightarrow> u32 \<Rightarrow> RAMNV_PART_CTRL \<Rightarrow> nv_world" where
  "put_part w i p = w\<lparr>part := (part w)[unat i := p]\<rparr>"

section \<open>Initialisation\<close>

definition clear_dirty :: "RAMNV_BUF_CTRL \<Rightarrow> RAMNV_BUF_CTRL" where
  "clear_dirty b = b\<lparr>dirty := replicate RAMNV_DIRTYTABLE_MAXSIZE 0\<rparr>"

definition reset_part :: "RAMNV_PART_CTRL \<Rightarrow> RAMNV_PART_CTRL" where
  "reset_part p = p\<lparr>sctNum := 0, fromChannel := clear_dirty (fromChannel p),
     backup := clear_dirty (backup p), toDisk := clear_dirty (toDisk p)\<rparr>"

fun initBuf_loop ::
  "(u32 \<Rightarrow> bool) \<Rightarrow> (nat \<Rightarrow> byte list) \<Rightarrow> RAM_NV_CONFIG list \<Rightarrow> u32 \<Rightarrow> nv_world \<Rightarrow> nv_world option" where
  "initBuf_loop coin junk [] i w = None"
| "initBuf_loop coin junk (c # cs) i w =
     (if cfg_partId c = 0 then Some w else do {
        p \<leftarrow> get_part w i;
        let p = p\<lparr>fdhandle := ramDisk_Open (cfg_partId c)\<rparr>;
        if fdhandle p = 0 then initBuf_loop coin junk cs i (put_part w i p) else do {
        let p = p\<lparr>partId := cfg_partId c, sctNum := image_size c div of_nat RAMNV_SECT_SIZE\<rparr>;
        let n = unat (image_size c + 4);
        d \<leftarrow> mem_write (junk n) 0 (replicate (unat (image_size c)) 0);
        let (fs, buf, ok) = ramDisk_Read (coin (cfg_partId c)) (cfgs w) (disk w) (fdhandle p)
                              (take (unat (image_size c)) d);
        if \<not> ok then
          initBuf_loop coin junk cs i
            (put_part (w\<lparr>disk := fs\<rparr>) i
              (p\<lparr>fromChannel := (fromChannel p)\<lparr>diskbuf := []\<rparr>, backup := (backup p)\<lparr>diskbuf := []\<rparr>,
                 toDisk := (toDisk p)\<lparr>diskbuf := []\<rparr>\<rparr>))
        else do {
        d \<leftarrow> mem_write d 0 buf;
        let sum = calc_Checksum (take (unat (image_size c)) d);
        d2 \<leftarrow> mem_write (junk n) 0 (take n d);
        let sum2 = calc_Checksum (take (unat (image_size c)) d2);
        d3 \<leftarrow> mem_write (junk n) 0 (take n d);
        let sum3 = calc_Checksum (take (unat (image_size c)) d3);
        initBuf_loop coin junk cs (i + 1)
          ((put_part (w\<lparr>disk := fs\<rparr>) i
             (p\<lparr>fromChannel := (fromChannel p)\<lparr>diskbuf := d, checksum := sum\<rparr>,
                backup := (backup p)\<lparr>diskbuf := d2, checksum := sum2\<rparr>,
                toDisk := (toDisk p)\<lparr>diskbuf := d3, checksum := sum3\<rparr>\<rparr>))
           \<lparr>partNum := partNum w + 1\<rparr>)}}})"

definition initBuf ::
  "(u32 \<Rightarrow> bool) \<Rightarrow> (nat \<Rightarrow> byte list) \<Rightarrow> nv_args \<Rightarrow> nv_world \<Rightarrow> nv_world option" where
  "initBuf coin junk g w = do {
     let w = w\<lparr>partNum := 0, part := map reset_part (part w)\<rparr>;
     config \<leftarrow> ramDisk_Init g (cfgs w);
     initBuf_loop coin junk config 0 (w\<lparr>cfgs := config\<rparr>)}"

definition free_part :: "RAMNV_PART_CTRL \<Rightarrow> RAMNV_PART_CTRL" where
  "free_part p = p\<lparr>sctNum := 0, fromChannel := (fromChannel p)\<lparr>diskbuf := []\<rparr>,
     backup := (backup p)\<lparr>diskbuf := []\<rparr>, toDisk := (toDisk p)\<lparr>diskbuf := []\<rparr>\<rparr>"

definition uninitBuf :: "nv_world \<Rightarrow> nv_world" where
  "uninitBuf w = w\<lparr>part := map free_part (take (partNum w) (part w)) @ drop (partNum w) (part w),
     partNum := 0\<rparr>"

fun getCtlId_loop :: "RAMNV_PART_CTRL list \<Rightarrow> u32 \<Rightarrow> u32 \<Rightarrow> u32" where
  "getCtlId_loop [] i pid = - 1"
| "getCtlId_loop (p # ps) i pid = (if pid = partId p then i else getCtlId_loop ps (i + 1) pid)"

definition getCtlId :: "nv_world \<Rightarrow> u32 \<Rightarrow> u32" where
  "getCtlId w pid = getCtlId_loop (take (partNum w) (part w)) 0 pid"

section \<open>Dirty bits\<close>

text \<open>
  The loop of \<open>_markDirtyInfo\<close>.  The index, the bit position and the count stay below their
  32-bit bounds, so they are natural numbers; a shift by 32 (a count of 0) and an index outside
  the table are undefined.
\<close>

function markDirty_loop :: "u32 list \<Rightarrow> nat \<Rightarrow> nat \<Rightarrow> nat \<Rightarrow> u32 list option" where
  "markDirty_loop table bytes bits scts =
     (if 32 - bits < scts then
        (if bytes < length table
         then markDirty_loop (table[bytes := table ! bytes OR push_bit bits (- 1)])
                (bytes + 1) 0 (scts - (32 - bits))
         else None)
      else if bytes < length table \<and> 32 - scts < 32
      then Some (table[bytes := table ! bytes OR push_bit bits (drop_bit (32 - scts) (- 1))])
      else None)"
  by pat_completeness auto
termination
  by (relation "measure (\<lambda>(table, bytes, bits, scts). length table - bytes)") auto

declare markDirty_loop.simps [simp del]

definition markDirtyInfo :: "nv_world \<Rightarrow> u32 \<Rightarrow> u32 \<Rightarrow> u32 \<Rightarrow> nv_world option" where
  "markDirtyInfo w i start scts = do {
     p \<leftarrow> get_part w i;
     let bytes = drop_bit 5 start;
     let bits = start - push_bit 5 bytes;
     table \<leftarrow> markDirty_loop (dirty (fromChannel p)) (unat bytes) (unat bits) (unat scts);
     Some (put_part w i (p\<lparr>fromChannel := (fromChannel p)\<lparr>dirty := table\<rparr>\<rparr>))}"

definition ifHasDirty :: "RAMNV_PART_CTRL \<Rightarrow> bool" where
  "ifHasDirty p = list_ex (\<lambda>x. x \<noteq> 0) (take RAMNV_DIRTYTABLE_MAXSIZE (dirty (backup p)))"

section \<open>Moving data between the buffers\<close>

definition ChkNVBufEcc :: "nv_world \<Rightarrow> byte list \<Rightarrow> u16 \<Rightarrow> nv_world \<times> bool" where
  "ChkNVBufEcc w buf chk = (if \<not> ChkNVEcc buf chk then (w\<lparr>sysrq := True\<rparr>, False) else (w, True))"

definition writeData :: "nv_world \<Rightarrow> u32 \<Rightarrow> u32 \<Rightarrow> byte list \<Rightarrow> nv_world option" where
  "writeData w i start buf =
     (if buf = [] then Some w else do {
        p \<leftarrow> get_part w i;
        bs \<leftarrow> mem_read (diskbuf (fromChannel p)) 0 (part_size p);
        let (w, ok) = ChkNVBufEcc w bs (checksum (fromChannel p));
        if \<not> ok then Some w else do {
          d \<leftarrow> mem_write (diskbuf (fromChannel p)) (unat start) buf;
          bs \<leftarrow> mem_read d 0 (part_size p);
          Some (put_part w i (p\<lparr>fromChannel := (fromChannel p)\<lparr>diskbuf := d,
                                                         checksum := calc_Checksum bs\<rparr>\<rparr>))}})"

text \<open>\<open>memcpy(dst.diskbuf, src.diskbuf, n)\<close> and the checksum of the copy.\<close>

definition copy_disk :: "nat \<Rightarrow> RAMNV_BUF_CTRL \<Rightarrow> RAMNV_BUF_CTRL \<Rightarrow> RAMNV_BUF_CTRL option" where
  "copy_disk n dst src = do {
     bs \<leftarrow> mem_read (diskbuf src) 0 n;
     d \<leftarrow> mem_write (diskbuf dst) 0 bs;
     bs \<leftarrow> mem_read d 0 n;
     Some (dst\<lparr>diskbuf := d, checksum := calc_Checksum bs\<rparr>)}"

definition or_dirty :: "u32 list \<Rightarrow> u32 list \<Rightarrow> u32 list" where
  "or_dirty dst src = map2 (OR) dst src"

definition getData :: "nv_world \<Rightarrow> u32 \<Rightarrow> nv_world option" where
  "getData w i = do {
     p \<leftarrow> get_part w i;
     bs \<leftarrow> mem_read (diskbuf (backup p)) 0 (part_size p);
     let (w, ok) = ChkNVBufEcc w bs (checksum (backup p));
     if \<not> ok then Some w else do {
       b \<leftarrow> copy_disk (part_size p) (toDisk p) (backup p);
       Some (put_part w i
         (p\<lparr>toDisk := b\<lparr>dirty := or_dirty (dirty (toDisk p)) (dirty (backup p))\<rparr>,
            backup := clear_dirty (backup p)\<rparr>))}}"

text \<open>The body of the loop of \<open>saveToDisk\<close>.\<close>

definition saveToDisk_one :: "u32 \<Rightarrow> nv_world \<Rightarrow> nv_world option" where
  "saveToDisk_one i w = do {
     p \<leftarrow> get_part w i;
     if \<not> ifHasDirty p then Some w else do {
     w \<leftarrow> getData w i;
     p \<leftarrow> get_part w i;
     bs \<leftarrow> mem_read (diskbuf (toDisk p)) 0 (part_size p);
     let (w, ok) = ChkNVBufEcc w bs (checksum (toDisk p));
     if \<not> ok then Some w else do {
     let (fs, written) = ramDisk_Write (cfgs w) (disk w) (fdhandle p) bs;
     let w = w\<lparr>disk := fs\<rparr>;
     if written then Some (put_part w i (p\<lparr>toDisk := clear_dirty (toDisk p)\<rparr>)) else Some w}}}"

fun saveToDisk_loop :: "nat \<Rightarrow> nat \<Rightarrow> nv_world \<Rightarrow> nv_world option" where
  "saveToDisk_loop i 0 w = Some w"
| "saveToDisk_loop i (Suc n) w = do {
     w \<leftarrow> saveToDisk_one (of_nat i) w;
     saveToDisk_loop (i + 1) n w}"

definition saveToDisk :: "nv_world \<Rightarrow> nv_world option" where
  "saveToDisk w = saveToDisk_loop 0 (partNum w) w"

definition backupData :: "nv_world \<Rightarrow> u32 \<Rightarrow> (nv_world \<times> bool) option" where
  "backupData w i = do {
     p \<leftarrow> get_part w i;
     bs \<leftarrow> mem_read (diskbuf (fromChannel p)) 0 (part_size p);
     let (w, ok) = ChkNVBufEcc w bs (checksum (fromChannel p));
     w \<leftarrow> (if \<not> ok then Some w else do {
       b \<leftarrow> copy_disk (part_size p) (backup p) (fromChannel p);
       Some (put_part w i
         (p\<lparr>backup := b\<lparr>dirty := or_dirty (dirty (backup p)) (dirty (fromChannel p))\<rparr>\<rparr>))});
     w \<leftarrow> (if is_cali_mode w then saveToDisk w else Some (w\<lparr>events := events w + 1\<rparr>));
     Some (w, True)}"

definition restoreData :: "nv_world \<Rightarrow> u32 \<Rightarrow> nv_world option" where
  "restoreData w i = do {
     p \<leftarrow> get_part w i;
     bs \<leftarrow> mem_read (diskbuf (backup p)) 0 (part_size p);
     let (w, ok) = ChkNVBufEcc w bs (checksum (backup p));
     if \<not> ok then Some w else do {
       b \<leftarrow> copy_disk (part_size p) (fromChannel p) (backup p);
       Some (put_part w i (p\<lparr>fromChannel := b\<lparr>dirty := dirty (backup p)\<rparr>\<rparr>))}}"

section \<open>The invariant of the buffers\<close>

text \<open>A buffer is large enough for its partition, its table is complete, and its checksum is the
  checksum of its contents.\<close>

definition buf_ok :: "nat \<Rightarrow> RAMNV_BUF_CTRL \<Rightarrow> bool" where
  "buf_ok n b = (n \<le> length (diskbuf b) \<and> length (dirty b) = RAMNV_DIRTYTABLE_MAXSIZE
     \<and> checksum b = calc_Checksum (take n (diskbuf b)))"

definition part_ok :: "RAMNV_PART_CTRL \<Rightarrow> bool" where
  "part_ok p = (buf_ok (part_size p) (fromChannel p) \<and> buf_ok (part_size p) (backup p)
     \<and> buf_ok (part_size p) (toDisk p))"

definition nv_ok :: "nv_world \<Rightarrow> bool" where
  "nv_ok w = (length (part w) = RAMNV_NUM \<and> partNum w \<le> RAMNV_NUM
     \<and> (\<forall>k < partNum w. part_ok (part w ! k)))"

definition valid_id :: "nv_world \<Rightarrow> u32 \<Rightarrow> bool" where
  "valid_id w i = (unat i < partNum w)"

text \<open>The contents a partition has for the channel, and the contents last committed.\<close>

definition shadow :: "nv_world \<Rightarrow> u32 \<Rightarrow> byte list" where
  "shadow w i = (let p = part w ! unat i in take (part_size p) (diskbuf (fromChannel p)))"

definition stable :: "nv_world \<Rightarrow> u32 \<Rightarrow> byte list" where
  "stable w i = (let p = part w ! unat i in take (part_size p) (diskbuf (backup p)))"

lemma part_size_update [simp]:
  "part_size (p\<lparr>fromChannel := b\<rparr>) = part_size p" "part_size (p\<lparr>backup := b\<rparr>) = part_size p"
  "part_size (p\<lparr>toDisk := b\<rparr>) = part_size p"
  by (simp_all add: part_size_def)

lemma put_part_simps [simp, keep_simps]:
  "partNum (put_part w i p) = partNum w" "cfgs (put_part w i p) = cfgs w"
  "disk (put_part w i p) = disk w" "is_cali_mode (put_part w i p) = is_cali_mode w"
  "sysrq (put_part w i p) = sysrq w" "events (put_part w i p) = events w"
  "part (put_part w i p) = (part w)[unat i := p]"
  by (simp_all add: put_part_def)

lemma get_part_valid:
  assumes "nv_ok w" "valid_id w i"
  shows "get_part w i = Some (part w ! unat i)" "unat i < length (part w)"
    "part_ok (part w ! unat i)"
  using assms by (auto simp: get_part_def nv_ok_def valid_id_def)

lemma valid_id_part [simp]: "valid_id (put_part w i p) j = valid_id w j"
  by (simp add: valid_id_def)

lemma nv_ok_put_part:
  assumes "nv_ok w" "part_ok p"
  shows "nv_ok (put_part w i p)"
proof -
  have "part_ok ((part w)[unat i := p] ! k)" if "k < partNum w" for k
    using assms that by (cases "k = unat i") (auto simp: nv_ok_def)
  then show ?thesis using assms(1) by (simp add: nv_ok_def)
qed

lemma shadow_put_part:
  assumes "unat i < length (part w)"
  shows "shadow (put_part w i p) j =
    (if j = i then take (part_size p) (diskbuf (fromChannel p)) else shadow w j)"
  using assms by (auto simp: shadow_def nth_list_update word_unat_eq_iff)

lemma stable_put_part:
  assumes "unat i < length (part w)"
  shows "stable (put_part w i p) j =
    (if j = i then take (part_size p) (diskbuf (backup p)) else stable w j)"
  using assms by (auto simp: stable_def nth_list_update word_unat_eq_iff)

lemmas put_part_views = shadow_put_part stable_put_part

lemma buf_okD:
  assumes "buf_ok n b"
  shows "mem_read (diskbuf b) 0 n = Some (take n (diskbuf b))"
    "ChkNVBufEcc w (take n (diskbuf b)) (checksum b) = (w, True)"
    "length (dirty b) = RAMNV_DIRTYTABLE_MAXSIZE"
  using assms by (auto simp: buf_ok_def mem_read_def ChkNVBufEcc_def ChkNVEcc_def)

lemma clear_dirty_simps [simp, keep_simps]:
  "diskbuf (clear_dirty b) = diskbuf b" "checksum (clear_dirty b) = checksum b"
  "dirty (clear_dirty b) = replicate RAMNV_DIRTYTABLE_MAXSIZE 0"
  by (simp_all add: clear_dirty_def)

lemma buf_ok_clear [simp]: "buf_ok n b \<Longrightarrow> buf_ok n (clear_dirty b)"
  by (simp add: buf_ok_def)

lemma length_or_dirty [simp]: "length (or_dirty xs ys) = min (length xs) (length ys)"
  by (simp add: or_dirty_def)

definition copied :: "nat \<Rightarrow> RAMNV_BUF_CTRL \<Rightarrow> RAMNV_BUF_CTRL \<Rightarrow> RAMNV_BUF_CTRL" where
  "copied n dst src = dst\<lparr>diskbuf := take n (diskbuf src) @ drop n (diskbuf dst),
     checksum := calc_Checksum (take n (diskbuf src))\<rparr>"

lemma copy_disk_ok:
  assumes "buf_ok n dst" "buf_ok n src"
  shows "copy_disk n dst src = Some (copied n dst src)"
  using assms by (simp add: copy_disk_def buf_ok_def copied_def mem_read_def mem_write_def)

lemma buf_ok_copied:
  assumes "buf_ok n dst" "buf_ok n src" "length d = RAMNV_DIRTYTABLE_MAXSIZE"
  shows "buf_ok n (copied n dst src\<lparr>dirty := d\<rparr>)"
  using assms by (simp add: buf_ok_def copied_def)

lemma take_copied [simp]:
  "buf_ok n src \<Longrightarrow> take n (diskbuf (copied n dst src)) = take n (diskbuf src)"
  by (simp add: buf_ok_def copied_def)

lemma dirty_copied [simp]: "dirty (copied n dst src) = dirty dst"
  by (simp add: copied_def)

section \<open>Each operation on a valid state\<close>

definition restored :: "RAMNV_PART_CTRL \<Rightarrow> RAMNV_PART_CTRL" where
  "restored p = p\<lparr>fromChannel := copied (part_size p) (fromChannel p) (backup p)
     \<lparr>dirty := dirty (backup p)\<rparr>\<rparr>"

definition backed_up :: "RAMNV_PART_CTRL \<Rightarrow> RAMNV_PART_CTRL" where
  "backed_up p = p\<lparr>backup := copied (part_size p) (backup p) (fromChannel p)
     \<lparr>dirty := or_dirty (dirty (backup p)) (dirty (fromChannel p))\<rparr>\<rparr>"

definition fetched :: "RAMNV_PART_CTRL \<Rightarrow> RAMNV_PART_CTRL" where
  "fetched p = p\<lparr>toDisk := copied (part_size p) (toDisk p) (backup p)
     \<lparr>dirty := or_dirty (dirty (toDisk p)) (dirty (backup p))\<rparr>, backup := clear_dirty (backup p)\<rparr>"

lemma part_ok_moves:
  assumes "part_ok p"
  shows "part_ok (restored p)" "part_ok (backed_up p)" "part_ok (fetched p)"
    "part_ok (p\<lparr>toDisk := clear_dirty (toDisk p)\<rparr>)"
  using assms
  by (auto simp: part_ok_def restored_def backed_up_def fetched_def buf_okD(3) intro!: buf_ok_copied)

lemma part_size_moves [simp]:
  "part_size (restored p) = part_size p" "part_size (backed_up p) = part_size p"
  "part_size (fetched p) = part_size p"
  by (simp_all add: restored_def backed_up_def fetched_def)

lemma restoreData_valid:
  assumes "nv_ok w" "valid_id w i"
  shows "restoreData w i = Some (put_part w i (restored (part w ! unat i)))"
  using get_part_valid [OF assms] copy_disk_ok
  by (simp add: restoreData_def restored_def part_ok_def buf_okD)

lemma getData_valid:
  assumes "nv_ok w" "valid_id w i"
  shows "getData w i = Some (put_part w i (fetched (part w ! unat i)))"
  using get_part_valid [OF assms] copy_disk_ok
  by (simp add: getData_def fetched_def part_ok_def buf_okD)

lemma writeData_valid:
  assumes "nv_ok w" "valid_id w i" and "p = part w ! unat i"
  shows "writeData w i start buf = (if buf = [] then Some w else
    map_option (\<lambda>d. put_part w i (p\<lparr>fromChannel := (fromChannel p)\<lparr>diskbuf := d,
        checksum := calc_Checksum (take (part_size p) d)\<rparr>\<rparr>))
      (mem_write (diskbuf (fromChannel p)) (unat start) buf))"
proof -
  have "mem_read d 0 (part_size p) = Some (take (part_size p) d)"
    if "mem_write (diskbuf (fromChannel p)) (unat start) buf = Some d" for d
    using get_part_valid [OF assms(1,2)] mem_write_length [OF that] assms(3)
    by (simp add: mem_read_def part_ok_def buf_ok_def)
  then show ?thesis
    using get_part_valid [OF assms(1,2)] assms(3)
    by (cases "mem_write (diskbuf (fromChannel p)) (unat start) buf")
       (simp_all add: writeData_def part_ok_def buf_okD)
qed

text \<open>What no operation on the buffers changes.\<close>

definition same_setup :: "nv_world \<Rightarrow> nv_world \<Rightarrow> bool" where
  "same_setup w w' = (partNum w' = partNum w \<and> cfgs w' = cfgs w \<and> sysrq w' = sysrq w
     \<and> is_cali_mode w' = is_cali_mode w \<and> map partId (part w') = map partId (part w)
     \<and> map sctNum (part w') = map sctNum (part w) \<and> map fdhandle (part w') = map fdhandle (part w))"

lemma same_setup_refl [simp]: "same_setup w w"
  by (simp add: same_setup_def)

lemma same_setup_trans: "same_setup w w' \<Longrightarrow> same_setup w' w'' \<Longrightarrow> same_setup w w''"
  by (simp add: same_setup_def)

lemma same_setup_valid: "same_setup w w' \<Longrightarrow> valid_id w' = valid_id w"
  by (auto simp: same_setup_def valid_id_def)

lemma same_setup_put_part:
  assumes "partId p = partId (part w ! unat i)" "sctNum p = sctNum (part w ! unat i)"
    and "fdhandle p = fdhandle (part w ! unat i)"
  shows "same_setup w (put_part w i p)"
  using assms by (cases "unat i < length (part w)") (simp_all add: same_setup_def map_update
      list_update_same_conv list_update_beyond not_less)

lemma same_setup_disk [simp]: "same_setup w (w\<lparr>disk := fs\<rparr>)" "same_setup w (w\<lparr>events := n\<rparr>)"
  by (simp_all add: same_setup_def)

lemma moves_fields [simp]:
  "partId (restored p) = partId p" "partId (backed_up p) = partId p" "partId (fetched p) = partId p"
  "sctNum (restored p) = sctNum p" "sctNum (backed_up p) = sctNum p" "sctNum (fetched p) = sctNum p"
  "fdhandle (restored p) = fdhandle p" "fdhandle (backed_up p) = fdhandle p"
  "fdhandle (fetched p) = fdhandle p"
  by (simp_all add: restored_def backed_up_def fetched_def)

definition saved_part :: "bool \<Rightarrow> RAMNV_PART_CTRL \<Rightarrow> RAMNV_PART_CTRL" where
  "saved_part ok p = (let q = fetched p in if ok then q\<lparr>toDisk := clear_dirty (toDisk q)\<rparr> else q)"

lemma saved_part_simps [simp]:
  "fromChannel (saved_part ok p) = fromChannel p"
  "backup (saved_part ok p) = clear_dirty (backup p)" "part_size (saved_part ok p) = part_size p"
  "partId (saved_part ok p) = partId p" "sctNum (saved_part ok p) = sctNum p"
  "fdhandle (saved_part ok p) = fdhandle p"
  by (simp_all add: saved_part_def Let_def fetched_def)

lemma part_ok_saved: "part_ok p \<Longrightarrow> part_ok (saved_part ok p)"
  using part_ok_moves(3) part_ok_moves(4) [OF part_ok_moves(3)] by (simp add: saved_part_def Let_def)

lemma not_dirty_saved: "\<not> ifHasDirty (saved_part ok p)"
  by (simp add: ifHasDirty_def list_ex_iff)

lemma toDisk_fetched:
  assumes "part_ok p"
  shows "take (part_size p) (diskbuf (toDisk (fetched p))) = take (part_size p) (diskbuf (backup p))"
  using assms by (simp add: fetched_def part_ok_def)

text \<open>One round of \<open>saveToDisk\<close>: a partition without dirty sectors is skipped, any other one has
  its committed contents written and its dirty bits cleared.\<close>

lemma saveToDisk_one_valid:
  assumes "nv_ok w" "valid_id w i"
  shows "saveToDisk_one i w = Some (if \<not> ifHasDirty (part w ! unat i) then w else
    let (fs, ok) = ramDisk_Write (cfgs w) (disk w) (fdhandle (part w ! unat i)) (stable w i)
    in put_part (w\<lparr>disk := fs\<rparr>) i (saved_part ok (part w ! unat i)))"
proof -
  let ?p = "part w ! unat i" and ?w = "put_part w i (fetched (part w ! unat i))"
  note valid = get_part_valid [OF assms]
  have ok: "nv_ok ?w" "valid_id ?w i"
    using assms valid by (simp_all add: nv_ok_put_part part_ok_moves)
  have p: "get_part ?w i = Some (fetched ?p)" "part_ok (fetched ?p)"
    using get_part_valid [OF ok] valid(2) by simp_all
  then have "mem_read (diskbuf (toDisk (fetched ?p))) 0 (part_size ?p) = Some (stable w i)"
    "ChkNVBufEcc ?w (stable w i) (checksum (toDisk (fetched ?p))) = (?w, True)"
    using buf_okD [of "part_size ?p" "toDisk (fetched ?p)"] toDisk_fetched [OF valid(3)]
    by (simp_all add: part_ok_def stable_def Let_def)
  then show ?thesis
    using valid(1,2) p getData_valid [OF assms]
    by (auto simp: saveToDisk_one_def saved_part_def Let_def put_part_def split: prod.splits)
qed

definition save_step :: "u32 \<Rightarrow> nv_world \<Rightarrow> nv_world \<Rightarrow> bool" where
  "save_step i w w' = (nv_ok w' \<and> same_setup w w' \<and> shadow w' = shadow w \<and> stable w' = stable w
     \<and> \<not> ifHasDirty (part w' ! unat i)
     \<and> (\<forall>j. j \<noteq> i \<longrightarrow> part w' ! unat j = part w ! unat j))"

lemma saveToDisk_one_step:
  assumes "nv_ok w" "valid_id w i"
  shows "\<exists>w'. saveToDisk_one i w = Some w' \<and> save_step i w w'"
proof (cases "ifHasDirty (part w ! unat i)")
  case False
  then show ?thesis
    using assms by (simp add: saveToDisk_one_valid save_step_def)
next
  case True
  obtain fs ok where fs: "ramDisk_Write (cfgs w) (disk w) (fdhandle (part w ! unat i)) (stable w i) = (fs, ok)"
    by fastforce
  let ?w = "put_part (w\<lparr>disk := fs\<rparr>) i (saved_part ok (part w ! unat i))"
  note valid = get_part_valid [OF assms]
  have "nv_ok (w\<lparr>disk := fs\<rparr>)" using assms(1) by (simp add: nv_ok_def)
  then have "nv_ok ?w" using valid by (simp add: nv_ok_put_part part_ok_saved)
  moreover have "same_setup w ?w"
    by (rule same_setup_trans [of w "w\<lparr>disk := fs\<rparr>"]) (simp_all add: same_setup_put_part)
  moreover have "shadow ?w = shadow w" "stable ?w = stable w"
    using valid(2) by (auto simp: put_part_views fun_eq_iff) (simp_all add: shadow_def stable_def Let_def)
  ultimately have "save_step i w ?w"
    using valid(2) by (auto simp: save_step_def not_dirty_saved nth_list_update word_unat_eq_iff)
  then show ?thesis
    using True fs by (simp add: saveToDisk_one_valid [OF assms])
qed

lemma of_nat_index:
  assumes "nv_ok w" "k < partNum w"
  shows "unat (of_nat k :: u32) = k" "valid_id w (of_nat k)"
proof -
  have "k < 4294967296" using assms by (simp add: nv_ok_def RAMNV_NUM_def)
  then show "unat (of_nat k :: u32) = k"
    by (simp add: unsigned_of_nat take_bit_nat_eq_self)
  then show "valid_id w (of_nat k)" using assms by (simp add: valid_id_def)
qed

text \<open>A property of partitions and an invariant that one round establishes and keeps hold for
  every partition after the loop.\<close>

lemma saveToDisk_loop_induct:
  assumes "nv_ok w" "i + n \<le> partNum w" "I w"
    and step: "\<And>w w' k. nv_ok w \<Longrightarrow> I w \<Longrightarrow> k < partNum w \<Longrightarrow> saveToDisk_one (of_nat k) w = Some w' \<Longrightarrow>
      I w' \<and> Q w' k \<and> (\<forall>j. j \<noteq> k \<longrightarrow> j < partNum w \<longrightarrow> Q w j \<longrightarrow> Q w' j)"
    and before: "\<And>k. k < i \<Longrightarrow> Q w k"
  shows "\<exists>w'. saveToDisk_loop i n w = Some w' \<and> nv_ok w' \<and> same_setup w w' \<and> shadow w' = shadow w
    \<and> stable w' = stable w \<and> I w' \<and> (\<forall>k < i + n. Q w' k)"
  using assms(1-3) before
proof (induction n arbitrary: i w)
  case 0
  then show ?case by simp
next
  case (Suc n)
  then have i: "i < partNum w" by simp
  obtain w' where w': "saveToDisk_one (of_nat i) w = Some w'" "save_step (of_nat i) w w'"
    using saveToDisk_one_step [OF Suc.prems(1) of_nat_index(2) [OF Suc.prems(1) i]] by blast
  then have s: "nv_ok w'" "same_setup w w'" "shadow w' = shadow w" "stable w' = stable w"
    "partNum w' = partNum w"
    by (simp_all add: save_step_def same_setup_def)
  have "I w'" and Q: "\<And>k. k < i + 1 \<Longrightarrow> Q w' k"
    using step [OF Suc.prems(1,3) i w'(1)] Suc.prems(4) i less_trans by (auto simp: less_Suc_eq)
  then have "\<exists>w''. saveToDisk_loop (i + 1) n w' = Some w'' \<and> nv_ok w'' \<and> same_setup w' w''
      \<and> shadow w'' = shadow w' \<and> stable w'' = stable w' \<and> I w'' \<and> (\<forall>k < i + 1 + n. Q w'' k)"
    using Suc.prems(2) s by (intro Suc.IH) simp_all
  then show ?case
    using w'(1) s same_setup_trans by auto
qed

lemma saveToDisk_induct:
  assumes "nv_ok w" "I w"
    and "\<And>w w' k. nv_ok w \<Longrightarrow> I w \<Longrightarrow> k < partNum w \<Longrightarrow> saveToDisk_one (of_nat k) w = Some w' \<Longrightarrow>
      I w' \<and> Q w' k \<and> (\<forall>j. j \<noteq> k \<longrightarrow> j < partNum w \<longrightarrow> Q w j \<longrightarrow> Q w' j)"
  shows "\<exists>w'. saveToDisk w = Some w' \<and> nv_ok w' \<and> same_setup w w' \<and> shadow w' = shadow w
    \<and> stable w' = stable w \<and> I w' \<and> (\<forall>k < partNum w. Q w' k)"
  unfolding saveToDisk_def
  using saveToDisk_loop_induct [of w 0 "partNum w" I Q] assms by simp

lemma save_step_parts:
  assumes "nv_ok w" "k < partNum w" "save_step (of_nat k) w w'"
  shows "\<not> ifHasDirty (part w' ! k)"
    and "j \<noteq> k \<Longrightarrow> j < partNum w \<Longrightarrow> part w' ! j = part w ! j"
proof -
  note k = of_nat_index(1) [OF assms(1,2)]
  show "\<not> ifHasDirty (part w' ! k)"
    using assms(3) k by (simp add: save_step_def)
  assume "j \<noteq> k" "j < partNum w"
  note j = of_nat_index(1) [OF assms(1) this(2)]
  have "(of_nat j :: u32) \<noteq> of_nat k"
    using k j \<open>j \<noteq> k\<close> by (auto simp: word_unat_eq_iff)
  then have "part w' ! unat (of_nat j :: u32) = part w ! unat (of_nat j :: u32)"
    using assms(3) by (simp add: save_step_def)
  then show "part w' ! j = part w ! j" by (simp only: j)
qed

lemma saveToDisk_one_of_nat:
  assumes "nv_ok w" "k < partNum w" "saveToDisk_one (of_nat k) w = Some w'"
  shows "save_step (of_nat k) w w'"
  using saveToDisk_one_step [OF assms(1) of_nat_index(2) [OF assms(1,2)]] assms(3) by auto

lemma saveToDisk_drains:
  assumes "nv_ok w"
  shows "\<exists>w'. saveToDisk w = Some w' \<and> nv_ok w' \<and> same_setup w w' \<and> shadow w' = shadow w
    \<and> stable w' = stable w \<and> (\<forall>k < partNum w. \<not> ifHasDirty (part w' ! k))"
  using saveToDisk_induct [OF assms, where I = "\<lambda>_. True" and Q = "\<lambda>w k. \<not> ifHasDirty (part w ! k)"]
    save_step_parts saveToDisk_one_of_nat
  by simp

text \<open>Both image files of the partition hold its committed contents.\<close>

definition on_disk :: "nv_world \<Rightarrow> nat \<Rightarrow> bool" where
  "on_disk w k = (\<exists>c. getIdx (cfgs w) (fdhandle (part w ! k)) = int c
     \<and> (\<forall>b. holds_image (disk w) (mirror b (cfgs w ! c)) (stable w (of_nat k))))"

definition names :: "nv_world \<Rightarrow> nat \<Rightarrow> string set" where
  "names w k = {mirror b (cfgs w ! c) | b c. getIdx (cfgs w) (fdhandle (part w ! k)) = int c}"

text \<open>The disk takes every image, and no two partitions share a file.\<close>

definition disk_ready :: "nv_world \<Rightarrow> bool" where
  "disk_ready w = ((\<forall>k < partNum w. \<exists>c. getIdx (cfgs w) (fdhandle (part w ! k)) = int c)
     \<and> (\<forall>k < partNum w. \<forall>n \<in> names w k. creatable (disk w) n
          \<and> RAMNV_SECT_SIZE + length (stable w (of_nat k)) \<le> room (disk w) n)
     \<and> (\<forall>k < partNum w. \<forall>j < partNum w. j \<noteq> k \<longrightarrow> names w j \<inter> names w k = {}))"

lemma same_setup_fdhandle:
  assumes "same_setup w w'"
  shows "length (part w') = length (part w)"
    and "k < length (part w) \<Longrightarrow> fdhandle (part w' ! k) = fdhandle (part w ! k)"
    and "k < length (part w) \<Longrightarrow> names w' k = names w k"
proof -
  have m: "map fdhandle (part w') = map fdhandle (part w)" "cfgs w' = cfgs w"
    using assms by (simp_all add: same_setup_def)
  show l: "length (part w') = length (part w)"
    using m(1) by (rule map_eq_imp_length_eq)
  show eq: "fdhandle (part w' ! k) = fdhandle (part w ! k)" if "k < length (part w)"
    using arg_cong [OF m(1), of "\<lambda>xs. xs ! k"] l that by simp
  show "names w' k = names w k" if "k < length (part w)"
    using eq that m(2) by (simp add: names_def)
qed

lemma disk_ready_cong:
  assumes "same_setup w w'" "stable w' = stable w" "nv_ok w"
    and "creatable (disk w') = creatable (disk w)" "room (disk w') = room (disk w)"
  shows "disk_ready w' = disk_ready w"
proof -
  have "k < length (part w)" if "k < partNum w" for k
    using that assms(3) by (simp add: nv_ok_def)
  then show ?thesis
    using assms(1,2,4,5) same_setup_fdhandle [OF assms(1)]
    by (simp add: disk_ready_def same_setup_def)
qed

lemma on_disk_cong:
  assumes "same_setup w w'" "stable w' = stable w" "k < length (part w)"
    and "\<And>n. n \<in> names w k \<Longrightarrow> files (disk w') n = files (disk w) n"
  shows "on_disk w' k = on_disk w k"
proof -
  have "holds_image (disk w') (mirror b (cfgs w ! c)) dat = holds_image (disk w) (mirror b (cfgs w ! c)) dat"
    if "getIdx (cfgs w) (fdhandle (part w ! k)) = int c" for b c dat
    using that assms(4) by (intro holds_image_cong) (auto simp: names_def)
  then show ?thesis
    using assms(1-3) same_setup_fdhandle [OF assms(1)]
    by (auto simp: on_disk_def same_setup_def)
qed

text \<open>One round of \<open>saveToDisk\<close> on a working disk.\<close>

lemma saveToDisk_one_durable:
  assumes "nv_ok w" "disk_ready w" "k < partNum w" "saveToDisk_one (of_nat k) w = Some w'"
    and "ifHasDirty (part w ! k)"
  shows "disk_ready w' \<and> on_disk w' k \<and> (\<forall>n. n \<notin> names w k \<longrightarrow> files (disk w') n = files (disk w) n)"
proof -
  note step = saveToDisk_one_of_nat [OF assms(1,3,4)] and idx = of_nat_index [OF assms(1,3)]
  let ?dat = "stable w (of_nat k)"
  obtain c where c: "getIdx (cfgs w) (fdhandle (part w ! k)) = int c"
    using assms(2,3) by (auto simp: disk_ready_def)
  then have names: "names w k = {image_path (cfgs w ! c), imageBak_path (cfgs w ! c)}"
    by (auto simp: names_def mirror_def)
  define fs where "fs = (disk w)\<lparr>files := (files (disk w))
    (imageBak_path (cfgs w ! c) \<mapsto> nv_header ?dat @ ?dat, image_path (cfgs w ! c) \<mapsto> nv_header ?dat @ ?dat)\<rparr>"
  have "ramDisk_Write (cfgs w) (disk w) (fdhandle (part w ! k)) ?dat = (fs, True)"
    unfolding fs_def using assms(2,3) names
    by (intro ramDisk_Write_full [OF c]) (auto simp: disk_ready_def mirror_def)
  then have d: "disk w' = fs"
    using assms(4,5) idx by (auto simp: saveToDisk_one_valid [OF assms(1) idx(2)])
  have s: "same_setup w w'" "stable w' = stable w"
    using step by (simp_all add: save_step_def)
  have "getIdx (cfgs w') (fdhandle (part w' ! k)) = int c" "cfgs w' = cfgs w"
    using c s(1) same_setup_fdhandle(2) [OF s(1)] assms(1,3) by (auto simp: same_setup_def nv_ok_def)
  then have "on_disk w' k"
    unfolding on_disk_def using d s(2)
    by (auto simp: fs_def mirror_def intro!: exI [of _ c] holds_image_written)
  moreover have "disk_ready w'"
    using assms(2) disk_ready_cong [OF s assms(1)] d by (simp add: fs_def)
  ultimately show ?thesis using d names by (simp add: fs_def)
qed

definition accounted :: "nv_world \<Rightarrow> bool" where
  "accounted w = (\<forall>k < partNum w. ifHasDirty (part w ! k) \<or> on_disk w k)"

lemma saveToDisk_one_accounted:
  assumes "nv_ok w" "disk_ready w \<and> accounted w" "k < partNum w" "saveToDisk_one (of_nat k) w = Some w'"
  shows "(disk_ready w' \<and> accounted w') \<and> on_disk w' k
    \<and> (\<forall>j. j \<noteq> k \<longrightarrow> j < partNum w \<longrightarrow> on_disk w j \<longrightarrow> on_disk w' j)"
proof (cases "ifHasDirty (part w ! k)")
  case False
  then have "w' = w"
    using assms(4) of_nat_index [OF assms(1,3)] by (simp add: saveToDisk_one_valid [OF assms(1)])
  then show ?thesis using assms(2,3) False by (auto simp: accounted_def)
next
  case True
  note step = saveToDisk_one_of_nat [OF assms(1,3,4)]
  then have s: "same_setup w w'" "stable w' = stable w" "partNum w' = partNum w"
    by (simp_all add: save_step_def same_setup_def)
  note dur = saveToDisk_one_durable [OF assms(1) conjunct1 [OF assms(2)] assms(3,4) True]
  have keep: "on_disk w' j = on_disk w j" if "j \<noteq> k" "j < partNum w" for j
  proof (rule on_disk_cong [OF s(1,2)])
    show "j < length (part w)" using that assms(1) by (simp add: nv_ok_def)
    have "names w j \<inter> names w k = {}"
      using that assms(2,3) by (simp add: disk_ready_def)
    then show "files (disk w') n = files (disk w) n" if "n \<in> names w j" for n
      using that dur by blast
  qed
  have "ifHasDirty (part w' ! j) \<or> on_disk w' j" if "j < partNum w" for j
    using assms(2) that dur keep save_step_parts(2) [OF assms(1,3) step]
    by (cases "j = k") (auto simp: accounted_def)
  then show ?thesis using dur keep s(3) by (simp add: accounted_def)
qed

lemma saveToDisk_on_disk:
  assumes "nv_ok w" "disk_ready w" "accounted w"
  shows "\<exists>w'. saveToDisk w = Some w' \<and> nv_ok w' \<and> same_setup w w' \<and> shadow w' = shadow w
    \<and> stable w' = stable w \<and> disk_ready w' \<and> (\<forall>k < partNum w. on_disk w' k)"
proof -
  have "\<exists>w'. saveToDisk w = Some w' \<and> nv_ok w' \<and> same_setup w w' \<and> shadow w' = shadow w
      \<and> stable w' = stable w \<and> (disk_ready w' \<and> accounted w') \<and> (\<forall>k < partNum w. on_disk w' k)"
    by (rule saveToDisk_induct [OF assms(1)])
      (simp add: assms(2,3), rule saveToDisk_one_accounted)
  then show ?thesis by blast
qed

section \<open>Commit, rollback, write and mark\<close>

lemma backupData_returns_1: "backupData w i = Some (w', r) \<Longrightarrow> r"
  by (auto simp: backupData_def Let_def split: bind_splits prod.splits)

lemma backupData_valid:
  assumes "nv_ok w" "valid_id w i" and "w1 = put_part w i (backed_up (part w ! unat i))"
  shows "backupData w i = map_option (\<lambda>w. (w, True))
    (if is_cali_mode w then saveToDisk w1 else Some (w1\<lparr>events := events w + 1\<rparr>))"
proof -
  have "backupData w i = do {
      w \<leftarrow> (if is_cali_mode w then saveToDisk w1 else Some (w1\<lparr>events := events w + 1\<rparr>));
      Some (w, True)}"
    using get_part_valid [OF assms(1,2)] copy_disk_ok
    by (simp add: backupData_def backed_up_def part_ok_def buf_okD assms(3))
  then show ?thesis by (simp add: map_conv_bind_option comp_def)
qed

lemma backed_up_step:
  assumes "nv_ok w" "valid_id w i" and "w1 = put_part w i (backed_up (part w ! unat i))"
  shows "nv_ok w1" "same_setup w w1" "shadow w1 = shadow w" "stable w1 = (stable w)(i := shadow w i)"
proof -
  note valid = get_part_valid [OF assms(1,2)]
  show "nv_ok w1" "same_setup w w1"
    using assms(1) valid part_ok_moves
    by (simp_all add: assms(3) nv_ok_put_part same_setup_put_part)
  have fc: "fromChannel (backed_up p) = fromChannel p" for p
    by (simp add: backed_up_def)
  have bk: "take (part_size p) (diskbuf (backup (backed_up p))) = take (part_size p) (diskbuf (fromChannel p))"
    if "part_ok p" for p
    using that by (simp add: backed_up_def part_ok_def)
  show "shadow w1 = shadow w"
    using valid by (auto simp: assms(3) put_part_views fc fun_eq_iff) (simp add: shadow_def Let_def)
  show "stable w1 = (stable w)(i := shadow w i)"
    using valid by (auto simp: assms(3) put_part_views bk fun_eq_iff) (simp add: shadow_def Let_def)
qed

text \<open>\<open>backupData\<close> commits the partition, in both modes.\<close>

lemma backupData_commits:
  assumes "nv_ok w" "valid_id w i"
  shows "\<exists>w'. backupData w i = Some (w', True) \<and> nv_ok w' \<and> same_setup w w' \<and> shadow w' = shadow w
    \<and> stable w' = (stable w)(i := shadow w i)"
proof -
  define w1 where "w1 = put_part w i (backed_up (part w ! unat i))"
  note b = backed_up_step [OF assms w1_def] and v = backupData_valid [OF assms w1_def]
  show ?thesis
  proof (cases "is_cali_mode w")
    case True
    obtain w' where "saveToDisk w1 = Some w'" "nv_ok w'" "same_setup w1 w'" "shadow w' = shadow w1"
      "stable w' = stable w1"
      using saveToDisk_drains [OF b(1)] by blast
    then show ?thesis using True v b(3,4) same_setup_trans [OF b(2)] by simp
  next
    case False
    have "nv_ok (w1\<lparr>events := n\<rparr>) = nv_ok w1" "shadow (w1\<lparr>events := n\<rparr>) = shadow w1"
      "stable (w1\<lparr>events := n\<rparr>) = stable w1" for n
      by (simp_all add: nv_ok_def shadow_def stable_def fun_eq_iff)
    then show ?thesis using False b v same_setup_trans [OF b(2)] by simp
  qed
qed

lemma restoreData_rolls_back:
  assumes "nv_ok w" "valid_id w i"
  shows "\<exists>w'. restoreData w i = Some w' \<and> nv_ok w' \<and> same_setup w w' \<and> stable w' = stable w
    \<and> shadow w' = (shadow w)(i := stable w i)"
proof -
  note valid = get_part_valid [OF assms]
  let ?w = "put_part w i (restored (part w ! unat i))"
  have bk: "backup (restored p) = backup p" for p
    by (simp add: restored_def)
  have fc: "take (part_size p) (diskbuf (fromChannel (restored p))) = take (part_size p) (diskbuf (backup p))"
    if "part_ok p" for p
    using that by (simp add: restored_def part_ok_def)
  have "nv_ok ?w" "same_setup w ?w"
    using assms(1) valid part_ok_moves by (simp_all add: nv_ok_put_part same_setup_put_part)
  moreover have "stable ?w = stable w"
    using valid by (auto simp: put_part_views bk fun_eq_iff) (simp add: stable_def Let_def)
  moreover have "shadow ?w = (shadow w)(i := stable w i)"
    using valid by (auto simp: put_part_views fc fun_eq_iff) (simp add: stable_def Let_def)
  ultimately show ?thesis using restoreData_valid [OF assms] by simp
qed

lemma part_size_ok:
  assumes "nv_ok w" "valid_id w i"
  shows "part_size (part w ! unat i) \<le> length (diskbuf (fromChannel (part w ! unat i)))"
  using get_part_valid(3) [OF assms] by (simp add: part_ok_def buf_ok_def)

lemma writeData_step:
  assumes "nv_ok w" "valid_id w i" "writeData w i start buf = Some w'"
  shows "nv_ok w' \<and> same_setup w w' \<and> stable w' = stable w \<and> (\<forall>j. j \<noteq> i \<longrightarrow> shadow w' j = shadow w j)"
proof (cases "buf = []")
  case True
  then show ?thesis using assms by (simp add: writeData_def)
next
  case False
  define p where "p = part w ! unat i"
  note valid = get_part_valid [OF assms(1,2)]
  obtain d where d: "mem_write (diskbuf (fromChannel p)) (unat start) buf = Some d"
    and w': "w' = put_part w i (p\<lparr>fromChannel := (fromChannel p)\<lparr>diskbuf := d,
        checksum := calc_Checksum (take (part_size p) d)\<rparr>\<rparr>)" (is "_ = put_part w i ?q")
    using assms(3) False by (auto simp: writeData_valid [OF assms(1,2) p_def])
  have "part_ok ?q"
    using valid(3) mem_write_length [OF d] unfolding p_def [symmetric] part_ok_def
    by (simp add: buf_ok_def)
  then have "nv_ok w'" using assms(1) by (simp add: w' nv_ok_put_part)
  moreover have "same_setup w w'" by (simp add: w' same_setup_put_part p_def)
  moreover have "stable w' = stable w"
    using valid by (auto simp: w' put_part_views fun_eq_iff) (simp add: stable_def p_def Let_def)
  ultimately show ?thesis using valid by (simp add: w' put_part_views)
qed

lemma writeData_within:
  assumes "nv_ok w" "valid_id w i" "mem_write (shadow w i) (unat start) buf = Some m"
  shows "\<exists>w'. writeData w i start buf = Some w' \<and> shadow w' i = m"
proof -
  define p where "p = part w ! unat i"
  note valid = get_part_valid [OF assms(1,2)] and le = part_size_ok [OF assms(1,2)]
  have sh: "shadow w i = take (part_size p) (diskbuf (fromChannel p))"
    by (simp add: shadow_def p_def Let_def)
  obtain d where d: "mem_write (diskbuf (fromChannel p)) (unat start) buf = Some d"
    "take (part_size p) d = m"
    using assms(3) le unfolding sh p_def [symmetric] by (auto simp: mem_write_def drop_take split: if_splits)
  show ?thesis
  proof (cases "buf = []")
    case True
    then show ?thesis using assms(3) by (auto simp: writeData_def mem_write_def split: if_splits)
  next
    case False
    then show ?thesis
      using d valid by (simp add: writeData_valid [OF assms(1,2) p_def] put_part_views)
  qed
qed

text \<open>Sector \<open>j\<close> is marked in the table.\<close>

definition dirty_bit :: "u32 list \<Rightarrow> nat \<Rightarrow> bool" where
  "dirty_bit table j = bit (table ! (j div 32)) (j mod 32)"

lemma dirty_bit_update:
  assumes "bytes < length table" "j < 32 * length table"
  shows "dirty_bit (table[bytes := table ! bytes OR m]) j =
    (dirty_bit table j \<or> j div 32 = bytes \<and> bit m (j mod 32))"
  using assms by (auto simp: dirty_bit_def nth_list_update bit_simps)

lemma bit_mask_from:
  "n < 32 \<Longrightarrow> bit (push_bit k (- 1 :: u32)) n = (k \<le> n)" "n < 32 \<Longrightarrow> bit (NOT (mask k) :: u32) n = (k \<le> n)"
  by (auto simp: bit_simps)

lemma bit_mask_range:
  "n < 32 \<Longrightarrow> 0 < s \<Longrightarrow> s \<le> 32 - k \<Longrightarrow>
    bit (push_bit k (drop_bit (32 - s) (- 1 :: u32))) n = (k \<le> n \<and> n < k + s)"
  "n < 32 \<Longrightarrow> bit (push_bit k (mask s :: u32)) n = (k \<le> n \<and> n < k + s)"
  by (auto simp: bit_simps)

lemma mark_split:
  fixes r q :: nat
  assumes "r < 32" "bits < 32" "32 - bits < scts"
  shows "(q = bytes \<and> bits \<le> r \<or> 32 * (bytes + 1) \<le> 32 * q + r \<and> 32 * q + r < 32 * (bytes + 1) + (scts - (32 - bits)))
    = (32 * bytes + bits \<le> 32 * q + r \<and> 32 * q + r < 32 * bytes + bits + scts)"
proof (cases q bytes rule: linorder_cases)
  case less
  then have "32 * q + r < 32 * bytes" using assms(1) by linarith
  then show ?thesis by auto
next
  case equal
  then show ?thesis using assms by auto
next
  case greater
  then have "32 * bytes + 32 \<le> 32 * q + r" by linarith
  then show ?thesis using assms by auto
qed

lemma mark_last:
  fixes r q :: nat
  assumes "r < 32" "bits + scts \<le> 32"
  shows "(q = bytes \<and> bits \<le> r \<and> r < bits + scts)
    = (32 * bytes + bits \<le> 32 * q + r \<and> 32 * q + r < 32 * bytes + bits + scts)"
proof (cases q bytes rule: linorder_cases)
  case less
  then have "32 * q + r < 32 * bytes" using assms(1) by linarith
  then show ?thesis by auto
next
  case equal
  then show ?thesis using assms by auto
next
  case greater
  then have "32 * bytes + 32 \<le> 32 * q + r" by linarith
  then show ?thesis using assms by auto
qed

lemma markDirty_loop_marks:
  assumes "bits < 32" "0 < scts" "32 * bytes + bits + scts \<le> 32 * length table"
  shows "\<exists>t. markDirty_loop table bytes bits scts = Some t \<and> length t = length table
    \<and> (\<forall>j < 32 * length table. dirty_bit t j =
         (dirty_bit table j \<or> 32 * bytes + bits \<le> j \<and> j < 32 * bytes + bits + scts))"
  using assms
proof (induction table bytes bits scts rule: markDirty_loop.induct)
  case (1 table bytes bits scts)
  have len: "bytes < length table" using 1(2-4) by linarith
  show ?case
  proof (cases "32 - bits < scts")
    case True
    let ?t = "table[bytes := table ! bytes OR push_bit bits (- 1)]"
    have "\<exists>t. markDirty_loop ?t (bytes + 1) 0 (scts - (32 - bits)) = Some t \<and> length t = length ?t
      \<and> (\<forall>j < 32 * length ?t. dirty_bit t j =
         (dirty_bit ?t j \<or> 32 * (bytes + 1) + 0 \<le> j \<and> j < 32 * (bytes + 1) + 0 + (scts - (32 - bits))))"
      using True 1(2-4) by (intro 1(1) len) auto
    moreover have "(dirty_bit ?t j \<or> 32 * (bytes + 1) + 0 \<le> j \<and> j < 32 * (bytes + 1) + 0 + (scts - (32 - bits)))
        = (dirty_bit table j \<or> 32 * bytes + bits \<le> j \<and> j < 32 * bytes + bits + scts)"
      if "j < 32 * length table" for j
    proof -
      have "j = 32 * (j div 32) + j mod 32" "j mod 32 < 32" by simp_all
      then have "(j div 32 = bytes \<and> bits \<le> j mod 32 \<or> 32 * (bytes + 1) \<le> j \<and> j < 32 * (bytes + 1) + (scts - (32 - bits)))
          = (32 * bytes + bits \<le> j \<and> j < 32 * bytes + bits + scts)"
        using True 1(2) mark_split [of "j mod 32" bits scts "j div 32" bytes] by simp
      then show ?thesis
        using that len by (auto simp: dirty_bit_update bit_mask_from)
    qed
    ultimately show ?thesis
      using True len by (subst markDirty_loop.simps) simp
  next
    case False
    have "(j div 32 = bytes \<and> bits \<le> j mod 32 \<and> j mod 32 < bits + scts)
        = (32 * bytes + bits \<le> j \<and> j < 32 * bytes + bits + scts)" for j
      using False 1(2) mark_last [of "j mod 32" bits scts "j div 32" bytes] by simp
    then show ?thesis
      using False len 1(2,3)
      by (subst markDirty_loop.simps) (simp add: dirty_bit_update bit_mask_range)
  qed
qed

lemma markDirty_loop_outside:
  assumes "bits < 32" "scts = 0 \<or> 32 * length table < 32 * bytes + bits + scts"
  shows "markDirty_loop table bytes bits scts = None"
  using assms
proof (induction table bytes bits scts rule: markDirty_loop.induct)
  case (1 table bytes bits scts)
  show ?case
  proof (cases "32 - bits < scts \<and> bytes < length table")
    case True
    then have "markDirty_loop (table[bytes := table ! bytes OR push_bit bits (- 1)]) (bytes + 1) 0
        (scts - (32 - bits)) = None"
      using 1(2,3) by (intro 1(1)) auto
    then show ?thesis using True by (subst markDirty_loop.simps) simp
  next
    case False
    then show ?thesis using 1(2,3) by (subst markDirty_loop.simps) auto
  qed
qed

lemma unat_sector_index:
  "unat (drop_bit 5 (start :: u32)) = unat start div 32"
  "unat (start - push_bit 5 (drop_bit 5 start)) = unat start mod 32"
proof -
  show d: "unat (drop_bit 5 start) = unat start div 32"
    unfolding unsigned_drop_bit_eq by (simp add: drop_bit_eq_div take_bit_nat_eq_self)
  have "push_bit 5 (drop_bit 5 start) = start - start mod 32"
    by (simp add: push_bit_eq_mult drop_bit_eq_div minus_mod_eq_mult_div mult.commute)
  then show "unat (start - push_bit 5 (drop_bit 5 start)) = unat start mod 32"
    by (simp add: unat_mod)
qed

lemma markDirtyInfo_step:
  assumes "nv_ok w" "valid_id w i" "markDirtyInfo w i start scts = Some w'"
  shows "nv_ok w' \<and> same_setup w w' \<and> shadow w' = shadow w \<and> stable w' = stable w"
proof -
  note valid = get_part_valid [OF assms(1,2)]
  let ?p = "part w ! unat i"
  have l: "length (dirty (fromChannel ?p)) = RAMNV_DIRTYTABLE_MAXSIZE"
    using valid(3) by (simp add: part_ok_def buf_ok_def)
  obtain t where t: "markDirty_loop (dirty (fromChannel ?p)) (unat start div 32) (unat start mod 32) (unat scts) = Some t"
    and w': "w' = put_part w i (?p\<lparr>fromChannel := (fromChannel ?p)\<lparr>dirty := t\<rparr>\<rparr>)" (is "_ = put_part w i ?q")
    using assms(3) valid(1) by (auto simp: markDirtyInfo_def Let_def unat_sector_index split: bind_splits)
  have "length t = RAMNV_DIRTYTABLE_MAXSIZE"
  proof (cases "unat scts = 0 \<or> 32 * RAMNV_DIRTYTABLE_MAXSIZE
      < 32 * (unat start div 32) + unat start mod 32 + unat scts")
    case True
    then show ?thesis using markDirty_loop_outside t l by (metis mod_less_divisor option.distinct(1) zero_less_numeral)
  next
    case False
    then have "32 * (unat start div 32) + unat start mod 32 + unat scts \<le> 32 * length (dirty (fromChannel ?p))"
      using l by linarith
    then show ?thesis
      using False t l markDirty_loop_marks [of "unat start mod 32" "unat scts" "unat start div 32" "dirty (fromChannel ?p)"]
      by auto
  qed
  then have "part_ok ?q"
    using valid(3) by (simp add: part_ok_def buf_ok_def)
  then have "nv_ok w'" using assms(1) by (simp add: w' nv_ok_put_part)
  moreover have "shadow w' = shadow w" "stable w' = stable w"
    using valid by (auto simp: w' put_part_views fun_eq_iff) (simp_all add: shadow_def stable_def Let_def)
  ultimately show ?thesis by (simp add: w' same_setup_put_part)
qed

lemma markDirtyInfo_defined:
  assumes "nv_ok w" "valid_id w i" "0 < unat scts" "unat start + unat scts \<le> 1536"
  shows "\<exists>w'. markDirtyInfo w i start scts = Some w'"
proof -
  note valid = get_part_valid [OF assms(1,2)]
  have "length (dirty (fromChannel (part w ! unat i))) = 48"
    using valid(3) by (simp add: part_ok_def buf_ok_def RAMNV_DIRTYTABLE_MAXSIZE_def)
  then have "\<exists>t. markDirty_loop (dirty (fromChannel (part w ! unat i))) (unat start div 32) (unat start mod 32)
      (unat scts) = Some t"
    using markDirty_loop_marks [of "unat start mod 32" "unat scts" "unat start div 32"
        "dirty (fromChannel (part w ! unat i))"] assms(3,4) by auto
  then show ?thesis
    using valid(1) by (auto simp: markDirtyInfo_def Let_def unat_sector_index)
qed

section \<open>The store interface\<close>

text \<open>A list of block writes, on a store and on the bytes of one partition.\<close>

primrec run_writes :: "('s \<Rightarrow> u32 \<Rightarrow> byte list \<Rightarrow> 's option) \<Rightarrow> (u32 \<times> byte list) list \<Rightarrow> 's \<Rightarrow> 's option" where
  "run_writes wr [] s = Some s"
| "run_writes wr (x # xs) s = do { s \<leftarrow> wr s (fst x) (snd x); run_writes wr xs s }"

primrec patch_all :: "(u32 \<times> byte list) list \<Rightarrow> byte list \<Rightarrow> byte list option" where
  "patch_all [] m = Some m"
| "patch_all (x # xs) m = do { m \<leftarrow> mem_write m (unat (fst x)) (snd x); patch_all xs m }"

text \<open>
  What the synchroniser relies on: every partition has current and committed contents; a write
  changes the current contents of one partition only, a commit makes the current contents the
  committed ones, a rollback the committed contents the current ones.
\<close>

locale nv_store =
  fixes ok :: "'s \<Rightarrow> bool"
    and valid :: "'s \<Rightarrow> 'i \<Rightarrow> bool"
    and cur :: "'s \<Rightarrow> 'i \<Rightarrow> byte list"
    and base :: "'s \<Rightarrow> 'i \<Rightarrow> byte list"
    and put :: "'s \<Rightarrow> 'i \<Rightarrow> u32 \<Rightarrow> byte list \<Rightarrow> 's option"
    and mark :: "'s \<Rightarrow> 'i \<Rightarrow> u32 \<Rightarrow> u32 \<Rightarrow> 's option"
    and commit :: "'s \<Rightarrow> 'i \<Rightarrow> 's option"
    and rollback :: "'s \<Rightarrow> 'i \<Rightarrow> 's option"
  assumes write_step: "\<lbrakk>ok s; valid s i; put s i n d = Some s'\<rbrakk> \<Longrightarrow>
      ok s' \<and> valid s' = valid s \<and> base s' = base s \<and> (\<forall>j. j \<noteq> i \<longrightarrow> cur s' j = cur s j)"
    and write_within: "\<lbrakk>ok s; valid s i; mem_write (cur s i) (unat n) d = Some m\<rbrakk> \<Longrightarrow>
      \<exists>s'. put s i n d = Some s' \<and> cur s' i = m"
    and mark_step: "\<lbrakk>ok s; valid s i; mark s i n k = Some s'\<rbrakk> \<Longrightarrow>
      ok s' \<and> valid s' = valid s \<and> base s' = base s \<and> cur s' = cur s"
    and commit_step: "\<lbrakk>ok s; valid s i\<rbrakk> \<Longrightarrow> \<exists>s'. commit s i = Some s' \<and> ok s' \<and> valid s' = valid s
      \<and> cur s' = cur s \<and> base s' = (base s)(i := cur s i)"
    and rollback_step: "\<lbrakk>ok s; valid s i\<rbrakk> \<Longrightarrow> \<exists>s'. rollback s i = Some s' \<and> ok s' \<and> valid s' = valid s
      \<and> base s' = base s \<and> cur s' = (cur s)(i := base s i)"
begin

lemma write_exact:
  assumes "ok s" "valid s i" "mem_write (cur s i) (unat n) d = Some m"
  shows "\<exists>s'. put s i n d = Some s' \<and> ok s' \<and> valid s' = valid s \<and> base s' = base s
    \<and> cur s' = (cur s)(i := m)"
proof -
  obtain s' where "put s i n d = Some s'" "cur s' i = m"
    using write_within [OF assms] by blast
  then show ?thesis using write_step [OF assms(1,2)] by (auto simp: fun_eq_iff)
qed

lemma writes_exact:
  assumes "ok s" "valid s i" "patch_all ws (cur s i) = Some m"
  shows "\<exists>s'. run_writes (\<lambda>s. put s i) ws s = Some s' \<and> ok s' \<and> valid s' = valid s
    \<and> base s' = base s \<and> cur s' = (cur s)(i := m)"
  using assms
proof (induction ws arbitrary: s)
  case Nil
  then show ?case by auto
next
  case (Cons x xs)
  obtain m1 where m1: "mem_write (cur s i) (unat (fst x)) (snd x) = Some m1" "patch_all xs m1 = Some m"
    using Cons.prems(3) by (auto split: bind_splits)
  obtain s1 where s1: "put s i (fst x) (snd x) = Some s1" "ok s1" "valid s1 = valid s"
      "base s1 = base s" "cur s1 = (cur s)(i := m1)"
    using write_exact [OF Cons.prems(1,2) m1(1)] by blast
  show ?case
    using Cons.IH [of s1] s1 m1(2) Cons.prems(2) by (auto simp: fun_eq_iff)
qed

lemma transaction_commits:
  assumes "ok s" "valid s i" "patch_all ws (cur s i) = Some m"
  shows "\<exists>s1 s2. run_writes (\<lambda>s. put s i) ws s = Some s1 \<and> commit s1 i = Some s2 \<and> ok s2
    \<and> base s1 = base s \<and> base s2 = (base s)(i := m) \<and> cur s2 = (cur s)(i := m)"
proof -
  obtain s1 where s1: "run_writes (\<lambda>s. put s i) ws s = Some s1" "ok s1" "valid s1 = valid s"
    "base s1 = base s" "cur s1 = (cur s)(i := m)"
    using writes_exact [OF assms] by blast
  show ?thesis using commit_step [OF s1(2), of i] s1 assms(2) by auto
qed

lemma transaction_aborts:
  assumes "ok s" "valid s i" "patch_all ws (cur s i) = Some m"
  shows "\<exists>s1 s2. run_writes (\<lambda>s. put s i) ws s = Some s1 \<and> rollback s1 i = Some s2 \<and> ok s2
    \<and> base s2 = base s \<and> cur s2 = (cur s)(i := base s i)"
proof -
  obtain s1 where s1: "run_writes (\<lambda>s. put s i) ws s = Some s1" "ok s1" "valid s1 = valid s"
    "base s1 = base s" "cur s1 = (cur s)(i := m)"
    using writes_exact [OF assms] by blast
  show ?thesis using rollback_step [OF s1(2), of i] s1 assms(2) by auto
qed

text \<open>Ending a transaction on \<open>i\<close> leaves nothing uncommitted, if only \<open>i\<close> was touched.\<close>

lemma commit_settles:
  assumes "ok s" "valid s i" "\<And>j. valid s j \<Longrightarrow> j \<noteq> i \<Longrightarrow> cur s j = base s j" "commit s i = Some s'" "valid s' j"
  shows "cur s' j = base s' j"
  using commit_step [OF assms(1,2)] assms(3-5) by auto

lemma rollback_settles:
  assumes "ok s" "valid s i" "\<And>j. valid s j \<Longrightarrow> j \<noteq> i \<Longrightarrow> cur s j = base s j" "rollback s i = Some s'" "valid s' j"
  shows "cur s' j = base s' j"
  using rollback_step [OF assms(1,2)] assms(3-5) by auto

end

interpretation ramnv: nv_store nv_ok valid_id shadow stable writeData markDirtyInfo
    "\<lambda>w i. map_option fst (backupData w i)" restoreData
proof unfold_locales
  fix w w' :: nv_world and i n k :: u32 and d m :: "byte list"
  assume ok: "nv_ok w" "valid_id w i"
  show "nv_ok w' \<and> valid_id w' = valid_id w \<and> stable w' = stable w \<and> (\<forall>j. j \<noteq> i \<longrightarrow> shadow w' j = shadow w j)"
    if "writeData w i n d = Some w'"
    using writeData_step [OF ok that] same_setup_valid by simp
  show "\<exists>w'. writeData w i n d = Some w' \<and> shadow w' i = m" if "mem_write (shadow w i) (unat n) d = Some m"
    using writeData_within [OF ok that] .
  show "nv_ok w' \<and> valid_id w' = valid_id w \<and> stable w' = stable w \<and> shadow w' = shadow w"
    if "markDirtyInfo w i n k = Some w'"
    using markDirtyInfo_step [OF ok that] same_setup_valid by simp
  show "\<exists>w'. map_option fst (backupData w i) = Some w' \<and> nv_ok w' \<and> valid_id w' = valid_id w
      \<and> shadow w' = shadow w \<and> stable w' = (stable w)(i := shadow w i)"
    using backupData_commits [OF ok] same_setup_valid by fastforce
  show "\<exists>w'. restoreData w i = Some w' \<and> nv_ok w' \<and> valid_id w' = valid_id w
      \<and> stable w' = stable w \<and> shadow w' = (shadow w)(i := stable w i)"
    using restoreData_rolls_back [OF ok] same_setup_valid by fastforce
qed

section \<open>Initialisation establishes the invariant\<close>

lemma length_read_into: "length bs \<le> length buf \<Longrightarrow> length (read_into bs buf) = length buf"
  by (simp add: read_into_def)

lemma length_ramDisk_Read:
  assumes "ramDisk_Read coin c fs h buf = (fs', buf', r)"
  shows "length buf' = length buf"
proof -
  have "length (fst (snd (ramDisk_Read_second fs f s sz n))) = sz" for f s sz n
    by (auto simp: ramDisk_Read_second_def Let_def length_read_into split: option.splits)
  then have "length (fst (snd (ramDisk_Read coin c fs h buf))) = length buf"
    by (auto simp: ramDisk_Read_def Let_def length_read_into split: option.splits)
  then show ?thesis using assms by simp
qed

definition tables_ok :: "RAMNV_PART_CTRL \<Rightarrow> bool" where
  "tables_ok p = (length (dirty (fromChannel p)) = RAMNV_DIRTYTABLE_MAXSIZE
     \<and> length (dirty (backup p)) = RAMNV_DIRTYTABLE_MAXSIZE
     \<and> length (dirty (toDisk p)) = RAMNV_DIRTYTABLE_MAXSIZE)"

text \<open>A partition size the code can work with: whole sectors, and four spare bytes do not wrap.\<close>

definition size_ok :: "RAM_NV_CONFIG \<Rightarrow> bool" where
  "size_ok c = (512 dvd unat (image_size c) \<and> unat (image_size c) + 4 < 2 ^ 32)"

lemma size_ok_part:
  assumes "size_ok c"
  shows "unat (image_size c + 4) = unat (image_size c) + 4"
    and "sctNum p = image_size c div of_nat RAMNV_SECT_SIZE \<Longrightarrow> part_size p = unat (image_size c)"
proof -
  show "unat (image_size c + 4) = unat (image_size c) + 4"
    using assms by (simp add: size_ok_def unat_word_ariths)
  assume s: "sctNum p = image_size c div of_nat RAMNV_SECT_SIZE"
  have "unat (image_size c div 512) = unat (image_size c) div 512"
    by (simp add: unat_div)
  then show "part_size p = unat (image_size c)"
    using assms by (simp add: part_size_def s RAMNV_SECT_SIZE_def unat_word_ariths size_ok_def)
qed

definition init_ok :: "nat \<Rightarrow> nv_world \<Rightarrow> bool" where
  "init_ok n w = (nv_ok w \<and> partNum w = n \<and> (\<forall>p \<in> set (part w). tables_ok p)
     \<and> (\<forall>k < n. take (part_size (part w ! k)) (diskbuf (fromChannel (part w ! k)))
                = take (part_size (part w ! k)) (diskbuf (backup (part w ! k))))
     \<and> \<not> sysrq w)"

lemma init_ok_put_part:
  assumes "init_ok n w" "n \<le> unat i" "tables_ok p"
  shows "init_ok n (put_part (w\<lparr>disk := fs\<rparr>) i p)"
proof -
  have "(part w)[unat i := p] ! k = part w ! k" if "k < n" for k
    using that assms(2) by simp
  moreover have "set ((part w)[unat i := p]) \<subseteq> insert p (set (part w))"
    by (rule set_update_subset_insert)
  ultimately show ?thesis
    using assms(1,3) unfolding init_ok_def nv_ok_def by fastforce
qed

lemma init_ok_add:
  assumes "init_ok n (put_part w i p)" "n = unat i" "unat i < RAMNV_NUM" "part_ok p"
    and "take (part_size p) (diskbuf (fromChannel p)) = take (part_size p) (diskbuf (backup p))"
  shows "init_ok (Suc n) ((put_part w i p)\<lparr>partNum := Suc n\<rparr>)"
proof -
  have "n < length (part w)" using assms(1-3) by (simp add: init_ok_def nv_ok_def)
  then show ?thesis
    using assms unfolding init_ok_def nv_ok_def by (auto simp: less_Suc_eq)
qed

text \<open>The entry \<open>initBuf\<close> fills for a configuration it can read, and for one it cannot.\<close>

definition opened :: "RAM_NV_CONFIG \<Rightarrow> RAMNV_PART_CTRL \<Rightarrow> RAMNV_PART_CTRL" where
  "opened c p = p\<lparr>fdhandle := cfg_partId c, partId := cfg_partId c,
     sctNum := image_size c div of_nat RAMNV_SECT_SIZE\<rparr>"

definition filled :: "byte list \<Rightarrow> nat \<Rightarrow> RAMNV_PART_CTRL \<Rightarrow> RAMNV_PART_CTRL" where
  "filled d sz p = (let s = calc_Checksum (take sz d) in
     p\<lparr>fromChannel := (fromChannel p)\<lparr>diskbuf := d, checksum := s\<rparr>,
       backup := (backup p)\<lparr>diskbuf := d, checksum := s\<rparr>,
       toDisk := (toDisk p)\<lparr>diskbuf := d, checksum := s\<rparr>\<rparr>)"

definition unread :: "RAMNV_PART_CTRL \<Rightarrow> RAMNV_PART_CTRL" where
  "unread p = p\<lparr>fromChannel := (fromChannel p)\<lparr>diskbuf := []\<rparr>, backup := (backup p)\<lparr>diskbuf := []\<rparr>,
     toDisk := (toDisk p)\<lparr>diskbuf := []\<rparr>\<rparr>"

lemma initBuf_loop_step:
  assumes "cfg_partId c \<noteq> 0" "size_ok c" "\<And>n. length (junk n) = n" "unat i < length (part w)"
    and "sz = unat (image_size c)"
    and "ramDisk_Read (coin (cfg_partId c)) (cfgs w) (disk w) (cfg_partId c) (replicate sz 0) = (fs, buf, ok)"
  shows "initBuf_loop coin junk (c # cs) i w =
    (if ok then initBuf_loop coin junk cs (i + 1)
       (put_part (w\<lparr>disk := fs\<rparr>) i (filled (buf @ drop sz (junk (sz + 4))) sz (opened c (part w ! unat i)))
          \<lparr>partNum := partNum w + 1\<rparr>)
     else initBuf_loop coin junk cs i (put_part (w\<lparr>disk := fs\<rparr>) i (unread (opened c (part w ! unat i)))))"
proof -
  have l: "length buf = sz" using length_ramDisk_Read [OF assms(6)] by simp
  let ?d = "buf @ drop sz (junk (sz + 4))"
  have "mem_write (junk (sz + 4)) 0 (replicate sz 0) = Some (replicate sz 0 @ drop sz (junk (sz + 4)))"
    "mem_write (replicate sz 0 @ drop sz (junk (sz + 4))) 0 buf = Some ?d"
    "mem_write (junk (sz + 4)) 0 ?d = Some ?d" "take (sz + 4) ?d = ?d"
    using assms(3) l by (simp_all add: mem_write_def)
  then show ?thesis
    using assms(1,4,6) size_ok_part(1) [OF assms(2)]
    by (simp add: ramDisk_Open_def get_part_def Let_def assms(5) [symmetric] filled_def opened_def
        unread_def)
qed

lemma opened_tables [simp]: "tables_ok (opened c p) = tables_ok p" "tables_ok (unread p) = tables_ok p"
  "tables_ok (filled d sz p) = tables_ok p"
  by (simp_all add: tables_ok_def opened_def unread_def filled_def Let_def)

lemma part_ok_filled:
  assumes "size_ok c" "tables_ok p" "unat (image_size c) \<le> length d"
  shows "part_ok (filled d (unat (image_size c)) (opened c p))"
proof -
  have "part_size (filled d (unat (image_size c)) (opened c p)) = unat (image_size c)"
    by (rule size_ok_part(2) [OF assms(1)]) (simp add: filled_def opened_def Let_def)
  then show ?thesis
    using assms(2,3) by (simp add: part_ok_def buf_ok_def tables_ok_def filled_def opened_def Let_def)
qed

lemma filled_same: "diskbuf (fromChannel (filled d sz q)) = diskbuf (backup (filled d sz q))"
  by (simp add: filled_def Let_def)

lemma initBuf_loop_ok:
  assumes "\<And>n. length (junk n) = n" "\<forall>c \<in> set cs. cfg_partId c \<noteq> 0 \<longrightarrow> size_ok c"
    and "\<exists>c \<in> set cs. cfg_partId c = 0"
    and "init_ok (unat i) w" "unat i + length (takeWhile (\<lambda>c. cfg_partId c \<noteq> 0) cs) \<le> RAMNV_NUM"
  shows "\<exists>w' n. initBuf_loop coin junk cs i w = Some w' \<and> init_ok n w' \<and> n \<le> unat i
    + length (takeWhile (\<lambda>c. cfg_partId c \<noteq> 0) cs)"
  using assms(2-5)
proof (induction cs arbitrary: i w)
  case Nil
  then show ?case by simp
next
  case (Cons c cs)
  show ?case
  proof (cases "cfg_partId c = 0")
    case True
    then show ?thesis using Cons.prems(3) by auto
  next
    case False
    define sz where "sz = unat (image_size c)"
    obtain fs buf ok where r: "ramDisk_Read (coin (cfg_partId c)) (cfgs w) (disk w) (cfg_partId c)
        (replicate sz 0) = (fs, buf, ok)"
      using prod_cases3 by blast
    have c: "size_ok c" using Cons.prems(1) False by simp
    have lt: "unat i < RAMNV_NUM" using Cons.prems(4) False by simp
    then have len: "unat i < length (part w)" using Cons.prems(3) by (simp add: init_ok_def nv_ok_def)
    have t: "tables_ok (part w ! unat i)" using Cons.prems(3) len by (simp add: init_ok_def)
    note step = initBuf_loop_step [where coin = coin, OF False c assms(1) len sz_def r]
    show ?thesis
    proof (cases ok)
      case True
      let ?q = "filled (buf @ drop sz (junk (sz + 4))) sz (opened c (part w ! unat i))"
      have "unat (i + 1) = Suc (unat i)"
        using lt by (simp add: RAMNV_NUM_def unat_word_ariths)
      moreover have "init_ok (unat i) (put_part (w\<lparr>disk := fs\<rparr>) i ?q)"
        using t by (intro init_ok_put_part Cons.prems(3)) simp_all
      moreover have "part_ok ?q" "partNum w = unat i"
        using c t length_ramDisk_Read [OF r] Cons.prems(3)
        by (simp_all add: part_ok_filled sz_def init_ok_def)
      ultimately have "init_ok (unat (i + 1)) (put_part (w\<lparr>disk := fs\<rparr>) i ?q\<lparr>partNum := partNum w + 1\<rparr>)"
        using init_ok_add [OF _ refl lt] filled_same by simp
      then show ?thesis
        using Cons.IH [of "i + 1"] Cons.prems False True \<open>unat (i + 1) = Suc (unat i)\<close> step by auto
    next
      case nok: False
      have "init_ok (unat i) (put_part (w\<lparr>disk := fs\<rparr>) i (unread (opened c (part w ! unat i))))"
        using t by (intro init_ok_put_part Cons.prems(3)) simp_all
      then show ?thesis
        using Cons.IH [of i] Cons.prems False nok step by fastforce
    qed
  qed
qed

lemma takeWhile_less:
  assumes "\<exists>x \<in> set xs. \<not> P x"
  shows "length (takeWhile P xs) < length xs"
  using assms by (induction xs) auto

lemma init_ok_start:
  assumes "length (part w) = RAMNV_NUM" "\<not> sysrq w"
  shows "init_ok 0 (w\<lparr>partNum := 0, part := map reset_part (part w), cfgs := cs\<rparr>)"
  using assms by (simp add: init_ok_def nv_ok_def tables_ok_def reset_part_def)

lemma init_ok_views:
  assumes "init_ok n w" "valid_id w i"
  shows "shadow w i = stable w i"
  using assms by (simp add: init_ok_def valid_id_def shadow_def stable_def Let_def)

lemma initBuf_ok:
  assumes "length (part w) = RAMNV_NUM" "\<not> sysrq w" "\<forall>n. length (junk n) = n"
    and "ramDisk_Init g (cfgs w) = Some config" "length config \<le> RAMNV_NUM + 1"
    and "\<exists>c \<in> set config. cfg_partId c = 0"
    and "\<forall>c \<in> set config. cfg_partId c \<noteq> 0 \<longrightarrow> size_ok c"
  shows "\<exists>w0 n. initBuf coin junk g w = Some w0 \<and> init_ok n w0"
proof -
  have "length (takeWhile (\<lambda>c. cfg_partId c \<noteq> 0) config) < length config"
    using assms(6) by (intro takeWhile_less) simp
  then have "\<exists>w0 n. initBuf_loop coin junk config 0
        (w\<lparr>partNum := 0, part := map reset_part (part w), cfgs := config\<rparr>) = Some w0 \<and> init_ok n w0
      \<and> n \<le> unat (0 :: u32) + length (takeWhile (\<lambda>c. cfg_partId c \<noteq> 0) config)"
    using assms init_ok_start by (intro initBuf_loop_ok) simp_all
  then show ?thesis using assms(4) by (auto simp: initBuf_def Let_def)
qed

section \<open>Runs of the buffer operations\<close>

inductive nv_run :: "nv_world \<Rightarrow> nv_world \<Rightarrow> bool" for w0 where
  start: "nv_run w0 w0"
| run_write: "nv_run w0 w \<Longrightarrow> valid_id w i \<Longrightarrow> writeData w i n d = Some w' \<Longrightarrow> nv_run w0 w'"
| run_mark: "nv_run w0 w \<Longrightarrow> valid_id w i \<Longrightarrow> markDirtyInfo w i n k = Some w' \<Longrightarrow> nv_run w0 w'"
| run_backup: "nv_run w0 w \<Longrightarrow> valid_id w i \<Longrightarrow> backupData w i = Some (w', r) \<Longrightarrow> nv_run w0 w'"
| run_restore: "nv_run w0 w \<Longrightarrow> valid_id w i \<Longrightarrow> restoreData w i = Some w' \<Longrightarrow> nv_run w0 w'"
| run_save: "nv_run w0 w \<Longrightarrow> saveToDisk w = Some w' \<Longrightarrow> nv_run w0 w'"

lemma nv_run_ok:
  assumes "nv_run w0 w" "nv_ok w0"
  shows "nv_ok w \<and> same_setup w0 w"
  using assms
proof (induction rule: nv_run.induct)
  case (run_write w i n d w')
  then show ?case using writeData_step same_setup_trans by blast
next
  case (run_mark w i n k w')
  then show ?case using markDirtyInfo_step same_setup_trans by blast
next
  case (run_backup w i w' r)
  then have ok: "nv_ok w" "same_setup w0 w" by simp_all
  show ?case using backupData_commits [OF ok(1) run_backup(2)] run_backup(3) same_setup_trans [OF ok(2)]
    by auto
next
  case (run_restore w i w')
  then have ok: "nv_ok w" "same_setup w0 w" by simp_all
  show ?case using restoreData_rolls_back [OF ok(1) run_restore(2)] run_restore(3) same_setup_trans [OF ok(2)]
    by auto
next
  case (run_save w w')
  then have ok: "nv_ok w" "same_setup w0 w" by simp_all
  show ?case using saveToDisk_drains [OF ok(1)] run_save(2) same_setup_trans [OF ok(2)] by auto
qed simp

section \<open>Properties\<close>

definition demo_buf :: RAMNV_BUF_CTRL where
  "demo_buf = \<lparr>diskbuf = replicate 516 0, dirty = replicate 48 0, checksum = calc_Checksum (replicate 512 0)\<rparr>"

definition demo_part :: RAMNV_PART_CTRL where
  "demo_part = \<lparr>partId = 1, sctNum = 1, fromChannel = demo_buf\<lparr>dirty := 1 # replicate 47 0\<rparr>,
     backup = demo_buf, toDisk = demo_buf, fdhandle = 1\<rparr>"

definition demo_world :: nv_world where
  "demo_world = \<lparr>partNum = 1, part = replicate 15 demo_part, cfgs = demo_cfgs, disk = demo_fs,
     is_cali_mode = True, sysrq = False, events = 0\<rparr>"

lemma demo_part_size [simp]: "part_size demo_part = 512"
  by (simp add: part_size_def demo_part_def RAMNV_SECT_SIZE_def)

lemma demo_part_nth: "k < 15 \<Longrightarrow> part demo_world ! k = demo_part"
  by (simp add: demo_world_def)

lemma demo_valid: "valid_id demo_world 0" "valid_id demo_world i = (i = 0)"
  by (simp_all add: valid_id_def demo_world_def unsigned_eq_0_iff)

lemma demo_ok: "nv_ok demo_world"
  by (simp add: nv_ok_def demo_world_def RAMNV_NUM_def part_ok_def buf_ok_def)
    (simp add: demo_part_def demo_buf_def RAMNV_DIRTYTABLE_MAXSIZE_def)

lemma demo_views: "shadow demo_world 0 = replicate 512 0" "stable demo_world 0 = replicate 512 0"
  by (simp_all add: shadow_def stable_def Let_def demo_part_nth)
    (simp_all add: demo_part_def demo_buf_def)

text \<open>
  C9.  \<open>_markDirtyInfo\<close> marks exactly the sectors \<open>start .. start + scts - 1\<close> of the channel
  buffer's table and no other, whatever words the range spans.  An empty range, or one past the
  1536 sectors of the table, makes the C code undefined (a shift by 32, a write outside the
  table).
\<close>

theorem markDirtyInfo_exact:
  assumes "nv_ok w" "valid_id w i"
  shows "if 0 < scts \<and> unat start + unat scts \<le> 1536
    then \<exists>w'. markDirtyInfo w i start scts = Some w' \<and> (\<forall>j < 1536.
           dirty_bit (dirty (fromChannel (part w' ! unat i))) j =
             (dirty_bit (dirty (fromChannel (part w ! unat i))) j
              \<or> unat start \<le> j \<and> j < unat start + unat scts))
    else markDirtyInfo w i start scts = None"
proof -
  let ?p = "part w ! unat i"
  let ?run = "markDirty_loop (dirty (fromChannel ?p)) (unat start div 32) (unat start mod 32) (unat scts)"
  note valid = get_part_valid [OF assms]
  have l: "length (dirty (fromChannel ?p)) = 48"
    using valid(3) by (simp add: part_ok_def buf_ok_def RAMNV_DIRTYTABLE_MAXSIZE_def)
  have eq: "markDirtyInfo w i start scts =
      map_option (\<lambda>t. put_part w i (?p\<lparr>fromChannel := (fromChannel ?p)\<lparr>dirty := t\<rparr>\<rparr>)) ?run"
    using valid(1) by (simp add: markDirtyInfo_def Let_def unat_sector_index map_conv_bind_option comp_def)
  have pos: "(0 < scts) = (0 < unat scts)" by (simp add: word_less_nat_alt)
  show ?thesis
  proof (cases "0 < scts \<and> unat start + unat scts \<le> 1536")
    case True
    then obtain t where "?run = Some t" "\<forall>j < 1536. dirty_bit t j =
        (dirty_bit (dirty (fromChannel ?p)) j \<or> unat start \<le> j \<and> j < unat start + unat scts)"
      using markDirty_loop_marks [of "unat start mod 32" "unat scts" "unat start div 32" "dirty (fromChannel ?p)"]
        l pos by auto
    then show ?thesis using True eq valid(2) by simp
  next
    case False
    then have "unat scts = 0 \<or> 32 * 48 < 32 * (unat start div 32) + unat start mod 32 + unat scts"
      using pos by auto
    then have "?run = None" using l by (intro markDirty_loop_outside) simp_all
    then show ?thesis using False eq by simp
  qed
qed

theorem markDirtyInfo_exact_witness:
  "\<exists>w'. markDirtyInfo demo_world 0 30 4 = Some w' \<and> (\<forall>j < 1536.
     dirty_bit (dirty (fromChannel (part w' ! 0))) j =
       (dirty_bit (dirty (fromChannel (part demo_world ! 0))) j \<or> 30 \<le> j \<and> j < 34))"
  using markDirtyInfo_exact [OF demo_ok demo_valid(1), of 4 30] by simp

text \<open>
  C10.  Transactions on a partition.  Any list of block writes that stays inside the partition
  runs without error and leaves the committed contents alone; \<open>backupData\<close> then makes the
  result the committed contents of that partition and of no other, and \<open>restoreData\<close> instead
  brings back the committed contents as if nothing had been written.
\<close>

theorem nv_transaction_atomic:
  assumes "nv_ok w" "valid_id w i" "patch_all ws (shadow w i) = Some m"
  shows "\<exists>w1. run_writes (\<lambda>w. writeData w i) ws w = Some w1 \<and> stable w1 = stable w
    \<and> (\<exists>w2. backupData w1 i = Some (w2, True) \<and> nv_ok w2
         \<and> stable w2 = (stable w)(i := m) \<and> shadow w2 = (shadow w)(i := m))
    \<and> (\<exists>w2. restoreData w1 i = Some w2 \<and> nv_ok w2
         \<and> stable w2 = stable w \<and> shadow w2 = (shadow w)(i := stable w i))"
proof -
  obtain w1 w2 where c: "run_writes (\<lambda>w. writeData w i) ws w = Some w1"
    "map_option fst (backupData w1 i) = Some w2" "nv_ok w2" "stable w1 = stable w"
    "stable w2 = (stable w)(i := m)" "shadow w2 = (shadow w)(i := m)"
    using ramnv.transaction_commits [OF assms] by blast
  obtain w3 where "restoreData w1 i = Some w3" "nv_ok w3" "stable w3 = stable w"
    "shadow w3 = (shadow w)(i := stable w i)"
    using ramnv.transaction_aborts [OF assms] c(1) by auto
  moreover have "backupData w1 i = Some (w2, True)"
    using c(2) backupData_returns_1 by fastforce
  ultimately show ?thesis using c by blast
qed

theorem nv_transaction_atomic_witness:
  "\<exists>w1. run_writes (\<lambda>w. writeData w 0) [(2, [7, 8]), (3, [9])] demo_world = Some w1
    \<and> stable w1 = stable demo_world
    \<and> (\<exists>w2. backupData w1 0 = Some (w2, True)
         \<and> stable w2 = (stable demo_world)(0 := [0, 0, 7, 9] @ replicate 508 0))"
proof -
  have two: "replicate 2 x = [x, x]" "replicate 3 x = [x, x, x]" for x :: byte
    by (simp_all add: numeral_2_eq_2 numeral_3_eq_3)
  have "patch_all [(2, [7, 8]), (3, [9])] (shadow demo_world 0) = Some ([0, 0, 7, 9] @ replicate 508 0)"
    by (simp add: demo_views mem_write_def two)
  from nv_transaction_atomic [OF demo_ok demo_valid(1) this] show ?thesis by blast
qed

lemma or_dirty_nonzero:
  assumes "length xs = length ys" "list_ex (\<lambda>x. x \<noteq> 0) ys"
  shows "list_ex (\<lambda>x. x \<noteq> 0) (or_dirty xs ys)"
proof -
  obtain k where k: "k < length ys" "ys ! k \<noteq> 0"
    using assms(2) by (auto simp: list_ex_length)
  then have "or_dirty xs ys ! k \<noteq> 0"
    using assms(1) by (simp add: or_dirty_def or_eq_0_iff)
  then show ?thesis using k assms(1) by (auto simp: list_ex_length)
qed

lemma ifHasDirty_backed_up:
  assumes "part_ok p" "list_ex (\<lambda>x. x \<noteq> 0) (dirty (fromChannel p))"
  shows "ifHasDirty (backed_up p)"
proof -
  have l: "length (dirty (backup p)) = RAMNV_DIRTYTABLE_MAXSIZE"
    "length (dirty (fromChannel p)) = RAMNV_DIRTYTABLE_MAXSIZE"
    using assms(1) by (simp_all add: part_ok_def buf_ok_def)
  then show ?thesis
    using or_dirty_nonzero [OF _ assms(2)] by (simp add: ifHasDirty_def backed_up_def)
qed

lemma accounted_backed_up:
  assumes "nv_ok w" "valid_id w i" "accounted w"
    and "list_ex (\<lambda>x. x \<noteq> 0) (dirty (fromChannel (part w ! unat i)))"
    and "w1 = put_part w i (backed_up (part w ! unat i))"
  shows "accounted w1"
proof -
  note valid = get_part_valid [OF assms(1,2)]
  have s: "same_setup w w1" "stable w1 = (stable w)(i := shadow w i)"
    using backed_up_step [OF assms(1,2,5)] by blast+
  have "on_disk w1 k = on_disk w k" if "k \<noteq> unat i" "k < partNum w" for k
  proof -
    have "(of_nat k :: u32) \<noteq> i" using of_nat_index(1) [OF assms(1) that(2)] that(1) by auto
    then have "stable w1 (of_nat k) = stable w (of_nat k)" by (simp add: s(2))
    then show ?thesis using that(1) s(1) by (simp add: on_disk_def assms(5) same_setup_def)
  qed
  then have "ifHasDirty (part w1 ! k) \<or> on_disk w1 k" if "k < partNum w" for k
    using that assms(3) valid(2) ifHasDirty_backed_up [OF valid(3) assms(4)]
    by (cases "k = unat i") (auto simp: assms(5) accounted_def)
  then show ?thesis using s(1) by (simp add: accounted_def same_setup_def)
qed

lemma disk_ready_backed_up:
  assumes "nv_ok w" "valid_id w i" "disk_ready w" "w1 = put_part w i (backed_up (part w ! unat i))"
  shows "disk_ready w1"
proof -
  note b = backed_up_step [OF assms(1,2,4)]
  have "length (stable w1 j) = length (stable w j)" for j
    using get_part_valid [OF assms(1,2)]
    by (auto simp: b(4) shadow_def stable_def Let_def part_ok_def buf_ok_def)
  moreover have "k < length (part w)" if "k < partNum w" for k
    using that assms(1) by (simp add: nv_ok_def)
  moreover have "partNum w1 = partNum w" "cfgs w1 = cfgs w" "disk w1 = disk w"
    by (simp_all add: assms(4))
  ultimately show ?thesis
    using assms(3) same_setup_fdhandle [OF b(2)] unfolding disk_ready_def by simp
qed

text \<open>
  C8.  In calibration mode a commit is durable.  If every partition without dirty sectors is
  already on disk, the disk takes the images and the partition was marked dirty, then
  \<open>backupData\<close> returns with the channel contents committed and with both image files of every
  partition holding its committed contents.
\<close>

theorem calibration_commit_durable:
  assumes "nv_ok w" "valid_id w i" "is_cali_mode w" "disk_ready w" "accounted w"
    and "list_ex (\<lambda>x. x \<noteq> 0) (dirty (fromChannel (part w ! unat i)))"
  shows "\<exists>w'. backupData w i = Some (w', True) \<and> stable w' i = shadow w i
    \<and> (\<forall>k < partNum w'. on_disk w' k)"
proof -
  define w1 where "w1 = put_part w i (backed_up (part w ! unat i))"
  note b = backed_up_step [OF assms(1,2) w1_def]
  have n: "partNum w1 = partNum w" by (simp add: w1_def)
  obtain w' where w': "saveToDisk w1 = Some w'" "stable w' = stable w1" "same_setup w1 w'"
    "\<forall>k < partNum w1. on_disk w' k"
    using saveToDisk_on_disk [OF b(1) disk_ready_backed_up [OF assms(1,2,4) w1_def]
        accounted_backed_up [OF assms(1,2,5,6) w1_def]] by blast
  then have "backupData w i = Some (w', True)"
    using backupData_valid [OF assms(1,2) w1_def] assms(3) by simp
  moreover have "partNum w' = partNum w1" using w'(3) by (simp add: same_setup_def)
  ultimately show ?thesis using w' b(4) by simp
qed

lemma demo_ready:
  assumes "fs = demo_fs\<lparr>files := [''a'' \<mapsto> nv_header (replicate 512 0) @ replicate 512 0,
                            ''b'' \<mapsto> nv_header (replicate 512 0) @ replicate 512 0]\<rparr>"
  shows "disk_ready (demo_world\<lparr>disk := fs\<rparr>)" "accounted (demo_world\<lparr>disk := fs\<rparr>)"
proof -
  let ?w = "demo_world\<lparr>disk := fs\<rparr>"
  have n: "partNum ?w = 1" "cfgs ?w = demo_cfgs" "part ?w ! 0 = demo_part" "disk ?w = fs"
    by (simp_all add: demo_world_def)
  have idx: "getIdx (cfgs ?w) (fdhandle (part ?w ! 0)) = int 0"
    unfolding n using demo_getIdx by (simp add: demo_part_def)
  have v: "stable ?w (of_nat 0) = replicate 512 0"
    using demo_views by (simp add: stable_def)
  have "creatable fs p \<and> RAMNV_SECT_SIZE + length (replicate 512 (0 :: byte)) \<le> room fs p" for p
    by (simp add: assms demo_fs_def RAMNV_SECT_SIZE_def)
  then show "disk_ready ?w"
    unfolding disk_ready_def n(1,4) less_one using idx v by (auto intro!: exI [of _ 0])
  have "holds_image fs (mirror b (demo_cfgs ! 0)) (replicate 512 0)" for b
    by (rule holds_image_written) (cases b; simp add: assms mirror_def demo_paths)
  then have "on_disk ?w 0"
    unfolding on_disk_def v using idx n by (intro exI [of _ 0]) simp
  then show "accounted ?w" by (simp add: accounted_def n(1))
qed

theorem calibration_commit_durable_witness:
  "let w = demo_world\<lparr>disk := demo_fs\<lparr>files := [''a'' \<mapsto> nv_header (replicate 512 0) @ replicate 512 0,
                                         ''b'' \<mapsto> nv_header (replicate 512 0) @ replicate 512 0]\<rparr>\<rparr>
   in \<exists>w'. backupData w 0 = Some (w', True) \<and> stable w' 0 = shadow w 0 \<and> (\<forall>k < partNum w'. on_disk w' k)"
proof -
  let ?w = "demo_world\<lparr>disk := demo_fs\<lparr>files := [''a'' \<mapsto> nv_header (replicate 512 0) @ replicate 512 0,
                                         ''b'' \<mapsto> nv_header (replicate 512 0) @ replicate 512 0]\<rparr>\<rparr>"
  have "nv_ok ?w" "valid_id ?w 0" "is_cali_mode ?w"
    using demo_ok demo_valid(1) by (simp_all add: nv_ok_def valid_id_def demo_world_def)
  moreover have "list_ex (\<lambda>x. x \<noteq> 0) (dirty (fromChannel (part ?w ! unat (0 :: u32))))"
    by (simp add: demo_part_nth) (simp add: demo_part_def)
  ultimately show ?thesis
    using calibration_commit_durable [OF _ _ _ demo_ready [OF refl]] by (simp only: Let_def)
qed

text \<open>
  A save is attempted once.  Whatever the disk did, no partition has a dirty bit that
  \<open>saveToDisk\<close> looks at once it has returned, so a second \<open>saveToDisk\<close> changes nothing: an image
  whose \<open>ramDisk_Write\<close> failed is not written again until the next commit marks it.
\<close>

theorem saveToDisk_attempts_once:
  assumes "nv_ok w"
  shows "\<exists>w'. saveToDisk w = Some w' \<and> nv_ok w' \<and> shadow w' = shadow w \<and> stable w' = stable w
    \<and> saveToDisk w' = Some w'"
proof -
  obtain w' where w': "saveToDisk w = Some w'" "nv_ok w'" "same_setup w w'" "shadow w' = shadow w"
    "stable w' = stable w" "\<forall>k < partNum w. \<not> ifHasDirty (part w' ! k)"
    using saveToDisk_drains [OF assms] by blast
  have "saveToDisk_loop i n w' = Some w'" if "i + n \<le> partNum w'" for i n
    using that
  proof (induction n arbitrary: i)
    case (Suc n)
    then have "saveToDisk_one (of_nat i) w' = Some w'"
      using w'(2,3,6) of_nat_index [OF w'(2), of i]
      by (simp add: saveToDisk_one_valid same_setup_def)
    then show ?case using Suc by simp
  qed simp
  then show ?thesis using w' by (simp add: saveToDisk_def)
qed

theorem saveToDisk_attempts_once_witness:
  "\<exists>w'. saveToDisk (demo_world\<lparr>disk := demo_fs\<lparr>room := (\<lambda>_. 0)\<rparr>\<rparr>) = Some w' \<and> saveToDisk w' = Some w'"
proof -
  have "nv_ok (demo_world\<lparr>disk := demo_fs\<lparr>room := (\<lambda>_. 0)\<rparr>\<rparr>)"
    using demo_ok by (simp add: nv_ok_def)
  from saveToDisk_attempts_once [OF this] show ?thesis by blast
qed

text \<open>
  C24.  The buffers never fail their own checksum.  With partition sizes in whole sectors,
  \<open>initBuf\<close> completes with every channel buffer equal to its committed copy, and however the
  operations on the buffers are interleaved afterwards, the checksum tests of \<open>ChkNVBufEcc\<close>
  never request a kernel panic.
\<close>

theorem initBuf_never_panics:
  assumes "length (part w) = RAMNV_NUM" "\<not> sysrq w" "\<forall>n. length (junk n) = n"
    and "ramDisk_Init g (cfgs w) = Some config" "length config \<le> RAMNV_NUM + 1"
    and "\<exists>c \<in> set config. cfg_partId c = 0"
    and "\<forall>c \<in> set config. cfg_partId c \<noteq> 0 \<longrightarrow> size_ok c"
  shows "\<exists>w0. initBuf coin junk g w = Some w0 \<and> nv_ok w0
    \<and> (\<forall>i. valid_id w0 i \<longrightarrow> shadow w0 i = stable w0 i)
    \<and> (\<forall>w'. nv_run w0 w' \<longrightarrow> nv_ok w' \<and> \<not> sysrq w')"
proof -
  obtain w0 n where w0: "initBuf coin junk g w = Some w0" "init_ok n w0"
    using initBuf_ok [OF assms] by blast
  then have ok: "nv_ok w0" "\<not> sysrq w0" by (simp_all add: init_ok_def)
  have "nv_ok w' \<and> \<not> sysrq w'" if "nv_run w0 w'" for w'
    using nv_run_ok [OF that ok(1)] ok(2) by (simp add: same_setup_def)
  then show ?thesis using w0 ok(1) init_ok_views by blast
qed

definition demo_args :: nv_args where
  "demo_args = \<lparr>channel_path = [], fixnv_ori_path = ''a'', fixnv_bak_path = ''b'',
     runnv_ori_path = ''c'', runnv_bak_path = ''d'', fixnv_size = 0x20000, runnv_size = 0x40000\<rparr>"

theorem initBuf_never_panics_witness:
  "\<exists>w0. initBuf (\<lambda>_. True) (\<lambda>n. replicate n 0xCC) demo_args (demo_world\<lparr>cfgs := ramdiskCfg0\<rparr>) = Some w0
    \<and> nv_ok w0 \<and> (\<forall>w'. nv_run w0 w' \<longrightarrow> nv_ok w' \<and> \<not> sysrq w')"
proof -
  let ?config = "[\<lparr>cfg_partId = 1, image_path = ''a'', imageBak_path = ''b'', image_size = 0x20000\<rparr>,
      \<lparr>cfg_partId = 2, image_path = ''c'', imageBak_path = ''d'', image_size = 0x40000\<rparr>]
      @ replicate 14 blank_config"
  have "ramDisk_Init demo_args ramdiskCfg0 = Some ?config"
    by (simp add: ramDisk_Init_def demo_args_def strcpy_path_def NV_PATH_MAX_LEN_def ramdiskCfg0_def RAMNV_NUM_def)
  moreover have "\<forall>c \<in> set ?config. cfg_partId c \<noteq> 0 \<longrightarrow> size_ok c"
    by (simp add: blank_config_def size_ok_def)
  moreover have "\<exists>c \<in> set ?config. cfg_partId c = 0" "length ?config \<le> RAMNV_NUM + 1"
    by (simp_all add: blank_config_def RAMNV_NUM_def)
  moreover have "length (part (demo_world\<lparr>cfgs := ramdiskCfg0\<rparr>)) = RAMNV_NUM"
      "\<not> sysrq (demo_world\<lparr>cfgs := ramdiskCfg0\<rparr>)"
    by (simp_all add: demo_world_def RAMNV_NUM_def)
  ultimately show ?thesis
    using initBuf_never_panics [of "demo_world\<lparr>cfgs := ramdiskCfg0\<rparr>" "\<lambda>n. replicate n 0xCC" demo_args
        ?config "\<lambda>_. True"] by auto
qed

end
