(* ===== verification/NvPacket.thy ===== *)
theory NvPacket
  imports NvBuf
begin

text \<open>
  The packet layer of the NV item daemon, \<^verbatim>\<open>src/apps/nvitem/nvitem_packet.c\<close>, over the spipe
  channel of \<^verbatim>\<open>src/apps/nvitem/nvitem_channe_spipe.c\<close>.

  A \<open>read\<close> on the channel is the list of bytes it delivers (the empty list for an error or the
  end of the stream); the responses written are collected in \<open>sent\<close>, oldest first.  A pointer
  into \<open>packeBuf\<close> is its offset.
\<close>

section \<open>The channel\<close>

record packet_state =
  packeBuf :: "byte list"
  idxGrp :: u32
  idxSub :: u32
  sent :: "byte list list"

definition PACKET_HEAD_SIZE :: nat where "PACKET_HEAD_SIZE = 20"
definition PACKETSIZE :: nat where "PACKETSIZE = 1024"
definition PACKETRSP_SIZE :: nat where "PACKETRSP_SIZE = 16"
definition MAGICNUM :: u32 where "MAGICNUM = 0x524d4e56"

text \<open>\<open>channel_read\<close>: the buffer after the call, \<open>hasRead\<close>, and the result.\<close>

definition channel_read :: "byte list \<Rightarrow> byte list \<Rightarrow> byte list \<times> int \<times> bool" where
  "channel_read buf r =
     (let bs = take (length buf) r in
      (bs @ drop (length bs) buf, int (length bs), \<not> length bs < length buf))"

definition channel_write :: "'a packet_state_scheme \<Rightarrow> byte list \<Rightarrow> 'a packet_state_scheme" where
  "channel_write s buf = s\<lparr>sent := sent s @ [buf]\<rparr>"

section \<open>Packets\<close>

definition makeEcc :: u32 where "makeEcc = 0"

definition chkEcc :: bool where "chkEcc = True"

text \<open>The fields of the header at the start of \<open>packeBuf\<close>.\<close>

definition hd_MAGICNUM :: "byte list \<Rightarrow> u32" where "hd_MAGICNUM buf = get32 buf 0"
definition hd_idxGrp :: "byte list \<Rightarrow> u32" where "hd_idxGrp buf = get32 buf 8"
definition hd_idxSub :: "byte list \<Rightarrow> u32" where "hd_idxSub buf = get32 buf 12"
definition hd_sizeOfPacket :: "byte list \<Rightarrow> u32" where "hd_sizeOfPacket buf = get32 buf 16"

definition set_bytes :: "byte list \<Rightarrow> nat \<Rightarrow> byte list \<Rightarrow> byte list" where
  "set_bytes m ofs bs = take ofs m @ bs @ drop (ofs + length bs) m"

definition packetRsp :: "byte list \<Rightarrow> byte \<Rightarrow> byte list" where
  "packetRsp header rsp =
     (let m = replicate (PACKET_HEAD_SIZE + PACKETRSP_SIZE) 0;
          m = set_bytes m 0 (take PACKET_HEAD_SIZE header);
          m = set_bytes m 16 (put32 1);
          m = set_bytes m 4 (put32 makeEcc)
      in m[PACKET_HEAD_SIZE := rsp])"

definition sendPacketRsp :: "'a packet_state_scheme \<Rightarrow> byte list \<Rightarrow> byte \<Rightarrow> 'a packet_state_scheme" where
  "sendPacketRsp s header rsp = channel_write s (packetRsp header rsp)"

definition initPacket :: "'a packet_state_scheme \<Rightarrow> 'a packet_state_scheme" where
  "initPacket s = s\<lparr>idxGrp := - 1, idxSub := 0\<rparr>"

datatype packet_result = PACKET_START | PACKET_CONTINUE | PACKET_SKIP | PACKET_FAIL

text \<open>\<open>_getPacket\<close>: the new state, the result, and \<open>*buf\<close> and \<open>*size\<close>, which keep their values
  unless a packet is accepted.\<close>

definition getPacket ::
  "'a packet_state_scheme \<Rightarrow> byte list \<Rightarrow> nat \<Rightarrow> u32 \<Rightarrow> 'a packet_state_scheme \<times> packet_result \<times> nat \<times> u32" where
  "getPacket s r buf sz =
     (let (m, hasRead, ok) = channel_read (packeBuf s) r;
          s = s\<lparr>packeBuf := m\<rparr>
      in if \<not> ok then (s, PACKET_FAIL, buf, sz)
         else if hasRead < int PACKET_HEAD_SIZE then (s, PACKET_SKIP, buf, sz)
         else if MAGICNUM \<noteq> hd_MAGICNUM m then (s, PACKET_SKIP, buf, sz)
         else if \<not> chkEcc then (s, PACKET_SKIP, buf, sz)
         else if hasRead < sint (of_nat PACKET_HEAD_SIZE + hd_sizeOfPacket m) then (s, PACKET_SKIP, buf, sz)
         else if idxGrp s = hd_idxGrp m then
           (if idxSub s + 1 = hd_idxSub m
            then (s\<lparr>idxSub := idxSub s + 1\<rparr>, PACKET_CONTINUE, PACKET_HEAD_SIZE, hd_sizeOfPacket m)
            else (s, PACKET_SKIP, buf, sz))
         else
           (if 0 = hd_idxSub m
            then (s\<lparr>idxGrp := hd_idxGrp m, idxSub := 0\<rparr>, PACKET_START, PACKET_HEAD_SIZE, hd_sizeOfPacket m)
            else (s, PACKET_SKIP, buf, sz)))"

definition sendPacktRsp :: "'a packet_state_scheme \<Rightarrow> byte \<Rightarrow> 'a packet_state_scheme" where
  "sendPacktRsp s rsp = sendPacketRsp s (packeBuf s) rsp"

section \<open>Lemmas\<close>

lemma sendPacktRsp_simps [simp, keep_simps]:
  "packeBuf (sendPacktRsp s rsp) = packeBuf s" "idxGrp (sendPacktRsp s rsp) = idxGrp s"
  "idxSub (sendPacktRsp s rsp) = idxSub s"
  "sent (sendPacktRsp s rsp) = sent s @ [packetRsp (packeBuf s) rsp]"
  "packet_state.more (sendPacktRsp s rsp) = packet_state.more s"
  by (simp_all add: sendPacktRsp_def sendPacketRsp_def channel_write_def)

lemma length_packetRsp [simp]:
  "length header = PACKET_HEAD_SIZE + n \<Longrightarrow> length (packetRsp header rsp) = 36"
  by (simp add: packetRsp_def Let_def set_bytes_def PACKET_HEAD_SIZE_def PACKETRSP_SIZE_def)

lemma getPacket_more:
  assumes "getPacket s r buf sz = (s', ret, buf', sz')"
  shows "packet_state.more s' = packet_state.more s" "sent s' = sent s"
    "length (packeBuf s') = length (packeBuf s)"
  using assms by (auto simp: getPacket_def channel_read_def Let_def split: if_splits)

lemma getPacket_fail:
  "getPacket s r buf sz = (s', PACKET_FAIL, buf', sz') \<Longrightarrow> length r < length (packeBuf s)"
  by (auto simp: getPacket_def channel_read_def Let_def split: if_splits)

lemma sint_u32: "sint (x :: u32) = (int (unat x) + 2 ^ 31) mod 2 ^ 32 - 2 ^ 31"
  by (simp add: sint_uint signed_take_bit_eq_take_bit_shift take_bit_eq_mod)

text \<open>The size test of \<open>_getPacket\<close> in terms of the unsigned field.\<close>

lemma packet_size_test:
  "(1044 < sint (20 + (n :: u32))) = (1024 < unat n \<and> unat n < 2 ^ 31 - 20)"
proof -
  define k where "k = unat n"
  have k: "k < 2 ^ 32" unfolding k_def using unat_u32_less [of n] by simp
  have u: "unat (20 + n) = (20 + k) mod 2 ^ 32" by (simp add: unat_word_ariths k_def)
  consider "k < 2 ^ 31 - 20" | "2 ^ 31 - 20 \<le> k" "k < 2 ^ 32 - 20" | "2 ^ 32 - 20 \<le> k"
    by linarith
  then have "(1044 < (int ((20 + k) mod 2 ^ 32) + 2 ^ 31) mod 2 ^ 32 - 2 ^ 31)
      = (1024 < k \<and> k < 2 ^ 31 - 20)"
  proof cases
    case 1
    then have "(int (20 + k) + 2 ^ 31) mod 2 ^ 32 = int (20 + k) + 2 ^ 31"
      by (intro mod_pos_pos_trivial) auto
    then show ?thesis using 1 by auto
  next
    case 2
    have "(int (20 + k) + 2 ^ 31) mod 2 ^ 32 = (int (20 + k) - 2 ^ 31 + 2 ^ 32) mod 2 ^ 32"
      by simp
    also have "\<dots> = int (20 + k) - 2 ^ 31"
      unfolding mod_add_self2 using 2 by (intro mod_pos_pos_trivial) auto
    finally show ?thesis using 2 by auto
  next
    case 3
    then have "(20 + k) mod 2 ^ 32 = 20 + k - 2 ^ 32" using k by (simp add: mod_if)
    then have "(20 + k) mod 2 ^ 32 < 20" using k by linarith
    then show ?thesis using 3 by auto
  qed
  then show ?thesis by (simp only: sint_u32 u k_def)
qed

lemma getPacket_full:
  assumes "length (packeBuf s) = 1044" "1044 \<le> length r" and "m = take 1044 r"
  shows "getPacket s r buf sz =
    (let t = s\<lparr>packeBuf := m\<rparr> in
     if MAGICNUM \<noteq> hd_MAGICNUM m \<or> (1024 < unat (hd_sizeOfPacket m) \<and> unat (hd_sizeOfPacket m) < 2 ^ 31 - 20)
     then (t, PACKET_SKIP, buf, sz)
     else if idxGrp s = hd_idxGrp m then
       (if idxSub s + 1 = hd_idxSub m
        then (t\<lparr>idxSub := idxSub s + 1\<rparr>, PACKET_CONTINUE, 20, hd_sizeOfPacket m)
        else (t, PACKET_SKIP, buf, sz))
     else
       (if 0 = hd_idxSub m
        then (t\<lparr>idxGrp := hd_idxGrp m, idxSub := 0\<rparr>, PACKET_START, 20, hd_sizeOfPacket m)
        else (t, PACKET_SKIP, buf, sz)))"
  using assms packet_size_test [of "hd_sizeOfPacket m"]
  by (simp add: getPacket_def channel_read_def Let_def chkEcc_def PACKET_HEAD_SIZE_def min_absorb2)

text \<open>A packet as the modem sends it, padded to the size of a channel read.\<close>

definition mk_packet :: "u32 \<Rightarrow> u32 \<Rightarrow> u32 \<Rightarrow> byte list \<Rightarrow> byte list" where
  "mk_packet grp sub n body = put32 MAGICNUM @ put32 0 @ put32 grp @ put32 sub @ put32 n @ body
     @ replicate (1024 - length body) 0"

lemma mk_packet_fields:
  "hd_MAGICNUM (mk_packet grp sub n body) = MAGICNUM" "hd_idxGrp (mk_packet grp sub n body) = grp"
  "hd_idxSub (mk_packet grp sub n body) = sub" "hd_sizeOfPacket (mk_packet grp sub n body) = n"
  "length body \<le> 1024 \<Longrightarrow> length (mk_packet grp sub n body) = 1044"
  by (simp_all add: mk_packet_def hd_MAGICNUM_def hd_idxGrp_def hd_idxSub_def hd_sizeOfPacket_def le_simps)

section \<open>Properties\<close>

text \<open>
  What \<open>_getPacket\<close> accepts from a complete read: the magic number, the next packet of the
  current group or the first of another group, and a size of at most 1024 bytes.  The size test
  compares as a signed number, so sizes of \<open>2^31 - 20\<close> and more also pass, although the packet
  buffer has 1024 bytes.
\<close>

theorem getPacket_accepts_iff:
  assumes "length (packeBuf s) = PACKET_HEAD_SIZE + PACKETSIZE" "length r = PACKET_HEAD_SIZE + PACKETSIZE"
  shows "fst (snd (getPacket s r buf sz)) \<in> {PACKET_START, PACKET_CONTINUE} \<longleftrightarrow>
    hd_MAGICNUM r = MAGICNUM
    \<and> (unat (hd_sizeOfPacket r) \<le> 1024 \<or> 2 ^ 31 - 20 \<le> unat (hd_sizeOfPacket r))
    \<and> (if hd_idxGrp r = idxGrp s then hd_idxSub r = idxSub s + 1 else hd_idxSub r = 0)"
  using assms by (auto simp: getPacket_full Let_def PACKET_HEAD_SIZE_def PACKETSIZE_def)

definition demo_pkt :: packet_state where
  "demo_pkt = \<lparr>packeBuf = replicate 1044 0, idxGrp = - 1, idxSub = 0, sent = []\<rparr>"

theorem getPacket_accepts_iff_witness:
  "fst (snd (getPacket demo_pkt (mk_packet 7 0 0xFFFFFFFF []) 0 0)) \<in> {PACKET_START, PACKET_CONTINUE}
   \<and> fst (snd (getPacket demo_pkt (mk_packet 7 0 1025 []) 0 0)) \<notin> {PACKET_START, PACKET_CONTINUE}"
  using getPacket_accepts_iff [of demo_pkt "mk_packet 7 0 0xFFFFFFFF []" 0 0]
    getPacket_accepts_iff [of demo_pkt "mk_packet 7 0 1025 []" 0 0]
  by (simp add: demo_pkt_def mk_packet_fields PACKET_HEAD_SIZE_def PACKETSIZE_def)

text \<open>
  A packet is accepted once: when the modem repeats a packet that was just accepted,
  \<open>_getPacket\<close> skips it.
\<close>

theorem getPacket_replay_skipped:
  assumes "length (packeBuf s) = PACKET_HEAD_SIZE + PACKETSIZE"
    and "getPacket s r buf sz = (s', ret, buf', sz')" "ret \<in> {PACKET_START, PACKET_CONTINUE}"
  shows "\<exists>s''. getPacket s' r buf2 sz2 = (s'', PACKET_SKIP, buf2, sz2)"
proof -
  have "1044 \<le> length r"
    using assms by (auto simp: getPacket_def channel_read_def Let_def PACKET_HEAD_SIZE_def PACKETSIZE_def
        split: if_splits)
  then show ?thesis
    using assms getPacket_full [of s r _ buf sz] getPacket_full [of s' r _ buf2 sz2]
    by (auto simp: Let_def PACKET_HEAD_SIZE_def PACKETSIZE_def split: if_splits)
qed

theorem getPacket_replay_skipped_witness:
  "let s' = fst (getPacket demo_pkt (mk_packet 7 0 3 [1, 2, 3]) 0 0)
   in \<exists>s''. getPacket s' (mk_packet 7 0 3 [1, 2, 3]) 5 6 = (s'', PACKET_SKIP, 5, 6)"
proof -
  have l: "length (packeBuf demo_pkt) = PACKET_HEAD_SIZE + PACKETSIZE"
    by (simp add: demo_pkt_def PACKET_HEAD_SIZE_def PACKETSIZE_def)
  have "fst (snd (getPacket demo_pkt (mk_packet 7 0 3 [1, 2, 3]) 0 0)) \<in> {PACKET_START, PACKET_CONTINUE}"
    using l by (simp add: getPacket_full mk_packet_fields Let_def PACKET_HEAD_SIZE_def PACKETSIZE_def demo_pkt_def)
  then show ?thesis
    using getPacket_replay_skipped [OF l, of "mk_packet 7 0 3 [1, 2, 3]" 0 0]
    by (cases "getPacket demo_pkt (mk_packet 7 0 3 [1, 2, 3]) 0 0") (simp add: Let_def)
qed

end
