(* ===== verification/NvSync.thy ===== *)
theory NvSync
  imports NvPacket
begin

text \<open>
  The synchronisation protocol of the NV item daemon, \<^verbatim>\<open>src/apps/nvitem/nvitem_sync.c\<close>, and the
  server loop of \<^verbatim>\<open>src/apps/nvitem/nvitem_server.c\<close>.  A request is a head token, body tokens each
  followed by the sectors they announce, and a tail token; it may span several packets.

  The globals of the module are the fields of \<open>nv_sync\<close>, on top of those of the packet layer;
  \<open>nvw\<close> is the state of the buffers.  \<open>syncReqBuf\<close> is an array of 20 pointers (80 bytes), so
  \<open>syncReqBuf+_ofst\<close> is \<open>4 * _ofst\<close> bytes into it.
\<close>

section \<open>State\<close>

record nv_sync = packet_state +
  syncState :: u32
  syncBusy :: u32
  syncReqFrame :: u32
  syncReqBuf :: "byte list"
  ofst :: u32
  sync_id :: u32
  sync_start :: u32
  sync_len :: u32
  nvw :: nv_world

definition SYNC_REQ_HEAD :: u32 where "SYNC_REQ_HEAD = 0"
definition SYNC_REQ_BODY :: u32 where "SYNC_REQ_BODY = 1"
definition SYNC_REQ_TAIL :: u32 where "SYNC_REQ_TAIL = 2"
definition SYNC_REQ_SIZE :: u32 where "SYNC_REQ_SIZE = 20"

text \<open>The members of the union \<open>SYNC_REQ\<close> at the start of \<open>syncReqBuf\<close>.\<close>

definition req_packet_type :: "byte list \<Rightarrow> u32" where "req_packet_type m = get32 m 0"
definition req_reqIdx :: "byte list \<Rightarrow> u32" where "req_reqIdx m = get32 m 4"
definition req_partId :: "byte list \<Rightarrow> u32" where "req_partId m = get32 m 8"
definition req_start :: "byte list \<Rightarrow> u32" where "req_start m = get32 m 12"
definition req_num :: "byte list \<Rightarrow> u32" where "req_num m = get32 m 16"

section \<open>Tokens\<close>

definition syncInit :: "nv_sync \<Rightarrow> nv_sync" where
  "syncInit s = s\<lparr>syncState := 0, syncBusy := 0, syncReqFrame := 0, ofst := 0, sync_id := - 1,
     sync_start := 0, sync_len := 0\<rparr>"

definition syncReset :: "nv_sync \<Rightarrow> bool \<Rightarrow> (nv_sync \<times> bool) option" where
  "syncReset s ifSuc =
     (if ifSuc then do {
        (w, ret) \<leftarrow> backupData (nvw s) (sync_id s);
        Some (syncInit (s\<lparr>nvw := w\<rparr>), ret)}
      else if syncState s \<noteq> 0 then do {
        w \<leftarrow> restoreData (nvw s) (sync_id s);
        Some (syncInit (s\<lparr>nvw := w\<rparr>), True)}
      else Some (syncInit s, True))"

text \<open>The result is the new state, \<open>*buf\<close>, \<open>*size\<close> and the value returned.\<close>

definition getToken :: "nv_sync \<Rightarrow> nat \<Rightarrow> u32 \<Rightarrow> (nv_sync \<times> nat \<times> u32 \<times> bool) option" where
  "getToken s buf sz =
     (let need = SYNC_REQ_SIZE - ofst s in
      if need > sz then
        (if sz \<noteq> 0 then Some (s, buf, sz, False) else do {
           bs \<leftarrow> mem_read (packeBuf s) buf (unat sz);
           m \<leftarrow> mem_write (syncReqBuf s) (4 * unat (ofst s)) bs;
           Some (s\<lparr>syncReqBuf := m, ofst := ofst s + sz\<rparr>, buf + unat sz, 0, False)})
      else if need = 0 then Some (s\<lparr>ofst := 0\<rparr>, buf, sz, True)
      else do {
        bs \<leftarrow> mem_read (packeBuf s) buf (unat need);
        m \<leftarrow> mem_write (syncReqBuf s) (4 * unat (ofst s)) bs;
        Some (s\<lparr>syncReqBuf := m, ofst := 0\<rparr>, buf + unat need, sz - need, True)})"

datatype sync_result = SYNC_CONTINUE | SYNC_NEXT | SYNC_DONE | SYNC_FAIL

definition syncGetHead :: "nv_sync \<Rightarrow> nat \<Rightarrow> u32 \<Rightarrow> (nv_sync \<times> nat \<times> u32 \<times> sync_result) option" where
  "syncGetHead s buf sz = do {
     (s, buf, sz, got) \<leftarrow> getToken s buf sz;
     if \<not> got then Some (s, buf, sz, SYNC_CONTINUE)
     else if SYNC_REQ_HEAD \<noteq> req_packet_type (syncReqBuf s) then Some (s, buf, sz, SYNC_FAIL)
     else
       let s = s\<lparr>syncReqFrame := req_reqIdx (syncReqBuf s),
                 sync_id := getCtlId (nvw s) (req_partId (syncReqBuf s))\<rparr>
       in if - 1 = sync_id s then Some (s, buf, sz, SYNC_FAIL) else Some (s, buf, sz, SYNC_NEXT)}"

definition syncGetBody :: "nv_sync \<Rightarrow> nat \<Rightarrow> u32 \<Rightarrow> (nv_sync \<times> nat \<times> u32 \<times> sync_result) option" where
  "syncGetBody s buf sz = do {
     (s, buf, sz, got) \<leftarrow> getToken s buf sz;
     let req = syncReqBuf s;
     if \<not> got then Some (s, buf, sz, SYNC_CONTINUE)
     else if SYNC_REQ_BODY = req_packet_type req then
       (if syncReqFrame s + 1 \<noteq> req_reqIdx req then Some (s, buf, sz, SYNC_FAIL) else do {
          let s = s\<lparr>syncReqFrame := syncReqFrame s + 1\<rparr>;
          w \<leftarrow> markDirtyInfo (nvw s) (sync_id s) (req_start req) (req_num req);
          Some (s\<lparr>nvw := w, sync_start := req_start req * of_nat RAMNV_SECT_SIZE,
                  sync_len := req_num req * of_nat RAMNV_SECT_SIZE\<rparr>, buf, sz, SYNC_NEXT)})
     else if SYNC_REQ_TAIL = req_packet_type req then
       (if syncReqFrame s + 1 \<noteq> req_reqIdx req then Some (s, buf, sz, SYNC_FAIL)
        else Some (s\<lparr>syncReqFrame := syncReqFrame s + 1\<rparr>, buf, sz, SYNC_DONE))
     else Some (s, buf, sz, SYNC_FAIL)}"

definition syncGetData :: "nv_sync \<Rightarrow> nat \<Rightarrow> u32 \<Rightarrow> (nv_sync \<times> nat \<times> u32 \<times> sync_result) option" where
  "syncGetData s buf sz =
     (if sync_len s \<le> sz then do {
        bs \<leftarrow> mem_read (packeBuf s) buf (unat (sync_len s));
        w \<leftarrow> writeData (nvw s) (sync_id s) (sync_start s) bs;
        Some (s\<lparr>nvw := w, sync_start := sync_start s + sync_len s, sync_len := 0\<rparr>,
              buf + unat (sync_len s), sz - sync_len s, SYNC_NEXT)}
      else do {
        bs \<leftarrow> mem_read (packeBuf s) buf (unat sz);
        w \<leftarrow> writeData (nvw s) (sync_id s) (sync_start s) bs;
        Some (s\<lparr>nvw := w, sync_start := sync_start s + sz, sync_len := sync_len s - sz\<rparr>,
              buf + unat sz, 0, SYNC_CONTINUE)})"

section \<open>The analyzer\<close>

text \<open>
  The body of the inner loop of \<open>syncAnalyzer\<close>: the new state, and \<open>buf\<close> and \<open>size\<close> when the
  loop goes on (\<^term>\<open>None\<close> for \<open>break\<close>).
\<close>

definition fail_reset :: "nv_sync \<Rightarrow> (nv_sync \<times> (nat \<times> u32) option) option" where
  "fail_reset s = do { (s, ret) \<leftarrow> syncReset s False; Some (sendPacktRsp s 0, None) }"

definition analyze_step :: "nv_sync \<Rightarrow> nat \<Rightarrow> u32 \<Rightarrow> (nv_sync \<times> (nat \<times> u32) option) option" where
  "analyze_step s buf sz =
     (if syncState s = 0 then do {
        (s, buf, sz, ret) \<leftarrow> syncGetHead s buf sz;
        (case ret of
           SYNC_FAIL \<Rightarrow> fail_reset s
         | SYNC_NEXT \<Rightarrow> Some (s\<lparr>syncState := 1\<rparr>, Some (buf, sz))
         | SYNC_CONTINUE \<Rightarrow> Some (sendPacktRsp s 1, None)
         | SYNC_DONE \<Rightarrow> Some (s, Some (buf, sz)))}
      else if syncState s = 1 then do {
        (s, buf, sz, ret) \<leftarrow> syncGetBody s buf sz;
        (case ret of
           SYNC_FAIL \<Rightarrow> fail_reset s
         | SYNC_NEXT \<Rightarrow> Some (s\<lparr>syncState := 2\<rparr>, Some (buf, sz))
         | SYNC_CONTINUE \<Rightarrow> Some (sendPacktRsp s 1, None)
         | SYNC_DONE \<Rightarrow> do {
             (s, ret) \<leftarrow> syncReset s True;
             Some (sendPacktRsp s (of_bool ret), None)})}
      else do {
        (s, buf, sz, ret) \<leftarrow> syncGetData s buf sz;
        (case ret of
           SYNC_CONTINUE \<Rightarrow> Some (sendPacktRsp s 1, None)
         | SYNC_NEXT \<Rightarrow> Some (s\<lparr>syncState := 1\<rparr>, Some (buf, sz))
         | _ \<Rightarrow> Some (s, Some (buf, sz)))})"

text \<open>What decreases from one iteration to the next.\<close>

definition loop_weight :: "nv_sync \<Rightarrow> u32 \<Rightarrow> nat" where
  "loop_weight s sz = 3 * unat sz + (if ofst s = SYNC_REQ_SIZE then 2 else 0)
     + (if syncState s = 0 \<or> syncState s = 1 then 0 else 1)"

lemma getToken_decreases:
  assumes "getToken s buf sz = Some (s', buf', sz', True)"
  shows "syncState s' = syncState s"
    and "3 * unat sz' + 1 + (if ofst s' = SYNC_REQ_SIZE then 2 else 0)
      < 3 * unat sz + (if ofst s = SYNC_REQ_SIZE then 2 else 0)"
proof -
  let ?need = "SYNC_REQ_SIZE - ofst s"
  show "syncState s' = syncState s"
    using assms by (auto simp: getToken_def Let_def split: if_splits bind_splits)
  show "3 * unat sz' + 1 + (if ofst s' = SYNC_REQ_SIZE then 2 else 0)
      < 3 * unat sz + (if ofst s = SYNC_REQ_SIZE then 2 else 0)"
  proof (cases "?need = 0")
    case True
    then have "sz' = sz" "ofst s' = 0" "ofst s = SYNC_REQ_SIZE"
      using assms by (auto simp: getToken_def Let_def split: if_splits bind_splits)
    then show ?thesis by (simp add: SYNC_REQ_SIZE_def)
  next
    case False
    then have "sz' = sz - ?need" "ofst s' = 0" "?need \<le> sz"
      using assms by (auto simp: getToken_def Let_def not_less split: if_splits bind_splits)
    moreover have "0 < unat ?need" using False by (simp add: unat_gt_0)
    moreover have "unat (sz - ?need) = unat sz - unat ?need" "unat ?need \<le> unat sz"
      using \<open>?need \<le> sz\<close> by (simp_all add: unat_sub word_le_nat_alt)
    ultimately show ?thesis by (simp add: SYNC_REQ_SIZE_def)
  qed
qed

lemma syncGetHead_NEXT:
  assumes "syncGetHead s buf sz = Some (s', buf', sz', ret)" "ret \<in> {SYNC_NEXT, SYNC_DONE}"
  shows "ret = SYNC_NEXT \<and> (\<exists>t. getToken s buf sz = Some (t, buf', sz', True) \<and> ofst s' = ofst t
    \<and> s' = t\<lparr>syncReqFrame := req_reqIdx (syncReqBuf t),
             sync_id := getCtlId (nvw t) (req_partId (syncReqBuf t))\<rparr>
    \<and> sync_id s' \<noteq> - 1 \<and> req_packet_type (syncReqBuf t) = SYNC_REQ_HEAD)"
  using assms by (auto simp: syncGetHead_def Let_def split: if_splits bind_splits)

lemma syncGetBody_NEXT:
  assumes "syncGetBody s buf sz = Some (s', buf', sz', SYNC_NEXT)"
  shows "\<exists>t w. getToken s buf sz = Some (t, buf', sz', True) \<and> ofst s' = ofst t
    \<and> req_packet_type (syncReqBuf t) = SYNC_REQ_BODY \<and> syncReqFrame t + 1 = req_reqIdx (syncReqBuf t)
    \<and> markDirtyInfo (nvw t) (sync_id t) (req_start (syncReqBuf t)) (req_num (syncReqBuf t)) = Some w
    \<and> s' = t\<lparr>syncReqFrame := syncReqFrame t + 1, nvw := w,
             sync_start := req_start (syncReqBuf t) * of_nat RAMNV_SECT_SIZE,
             sync_len := req_num (syncReqBuf t) * of_nat RAMNV_SECT_SIZE\<rparr>"
  using assms by (auto simp: syncGetBody_def Let_def split: if_splits bind_splits)

lemma syncGetBody_DONE:
  assumes "syncGetBody s buf sz = Some (s', buf', sz', SYNC_DONE)"
  shows "\<exists>t. getToken s buf sz = Some (t, buf', sz', True)
    \<and> req_packet_type (syncReqBuf t) = SYNC_REQ_TAIL \<and> syncReqFrame t + 1 = req_reqIdx (syncReqBuf t)
    \<and> s' = t\<lparr>syncReqFrame := syncReqFrame t + 1\<rparr>"
  using assms by (auto simp: syncGetBody_def Let_def split: if_splits bind_splits)

lemma syncGetData_cases:
  assumes "syncGetData s buf sz = Some (s', buf', sz', ret)"
  shows "\<exists>n bs w. n = (if sync_len s \<le> sz then sync_len s else sz) \<and> sz' = sz - n
    \<and> mem_read (packeBuf s) buf (unat n) = Some bs
    \<and> writeData (nvw s) (sync_id s) (sync_start s) bs = Some w
    \<and> s' = s\<lparr>nvw := w, sync_start := sync_start s + n, sync_len := sync_len s - n\<rparr>
    \<and> ret = (if sync_len s \<le> sz then SYNC_NEXT else SYNC_CONTINUE) \<and> buf' = buf + unat n"
  using assms by (auto simp: syncGetData_def split: if_splits bind_splits)

lemma analyze_step_decreases:
  assumes "analyze_step s buf sz = Some (s', Some (buf', sz'))"
  shows "loop_weight s' sz' < loop_weight s sz"
proof -
  consider (head) "syncState s = 0" | (body) "syncState s = 1"
    | (data) "syncState s \<noteq> 0" "syncState s \<noteq> 1" by blast
  then show ?thesis
  proof cases
    case head
    then obtain t ret where t: "syncGetHead s buf sz = Some (t, buf', sz', ret)" "ret \<in> {SYNC_NEXT, SYNC_DONE}"
      "ret = SYNC_NEXT \<longrightarrow> s' = t\<lparr>syncState := 1\<rparr>"
      using assms by (auto simp: analyze_step_def fail_reset_def split: bind_splits sync_result.splits)
    obtain u where "getToken s buf sz = Some (u, buf', sz', True)" "ofst t = ofst u" "ret = SYNC_NEXT"
      using syncGetHead_NEXT [OF t(1,2)] by blast
    then show ?thesis
      using head t(3) getToken_decreases [of s buf sz u buf' sz'] by (simp add: loop_weight_def)
  next
    case body
    then obtain t where t: "syncGetBody s buf sz = Some (t, buf', sz', SYNC_NEXT)"
      "s' = t\<lparr>syncState := 2\<rparr>"
      using assms by (auto simp: analyze_step_def fail_reset_def split: bind_splits sync_result.splits)
    obtain u where "getToken s buf sz = Some (u, buf', sz', True)" "ofst t = ofst u"
      using syncGetBody_NEXT [OF t(1)] by blast
    then show ?thesis
      using body t(2) getToken_decreases [of s buf sz u buf' sz'] by (simp add: loop_weight_def)
  next
    case data
    then obtain t ret where t: "syncGetData s buf sz = Some (t, buf', sz', ret)"
      "ret = SYNC_NEXT \<longrightarrow> s' = t\<lparr>syncState := 1\<rparr>" "ret \<noteq> SYNC_CONTINUE"
      using assms by (auto simp: analyze_step_def split: bind_splits sync_result.splits)
    then have "sync_len s \<le> sz" "sz' = sz - sync_len s" "ofst t = ofst s" "ret = SYNC_NEXT"
      using syncGetData_cases [OF t(1)] by (auto split: if_splits)
    moreover from this have "unat sz' \<le> unat sz" by (simp add: unat_sub word_le_nat_alt)
    ultimately show ?thesis using data t(2) by (simp add: loop_weight_def)
  qed
qed

text \<open>\<open>while(0 != size)\<close>.\<close>

function analyze_loop :: "nv_sync \<Rightarrow> nat \<Rightarrow> u32 \<Rightarrow> nv_sync option" where
  "analyze_loop s buf sz =
     (if 0 = sz then Some s else
      (case analyze_step s buf sz of
         None \<Rightarrow> None
       | Some (s', None) \<Rightarrow> Some s'
       | Some (s', Some (buf', sz')) \<Rightarrow> analyze_loop s' buf' sz'))"
  by pat_completeness auto
termination
  by (relation "measure (\<lambda>(s, buf, sz). loop_weight s sz)") (auto dest: analyze_step_decreases)

declare analyze_loop.simps [simp del]

text \<open>One iteration of the outer loop, on what the channel delivers; the flag says whether the
  loop goes on.\<close>

definition syncPacket :: "nv_sync \<Rightarrow> byte list \<Rightarrow> (nv_sync \<times> bool) option" where
  "syncPacket s r =
     (let (s, packetState, buf, sz) = getPacket s r 0 0 in
      if packetState = PACKET_FAIL then do {
        (s, ret) \<leftarrow> syncReset s False;
        Some (s, False)}
      else if packetState = PACKET_START \<and> syncBusy s \<noteq> 0 then do {
        (s, ret) \<leftarrow> syncReset s False;
        s \<leftarrow> analyze_loop (s\<lparr>syncBusy := 1\<rparr>) buf sz;
        Some (s, True)}
      else if packetState = PACKET_CONTINUE \<and> syncBusy s = 0 then Some (sendPacktRsp s 0, True)
      else if packetState = PACKET_SKIP then Some (s, True)
      else do {
        s \<leftarrow> analyze_loop (s\<lparr>syncBusy := 1\<rparr>) buf sz;
        Some (s, True)})"



section \<open>The invariant\<close>

text \<open>
  Only the partition of the request in progress may differ from its committed contents, and
  outside a request none does.
\<close>

definition settled :: "nv_sync \<Rightarrow> bool" where
  "settled s = (\<forall>j. valid_id (nvw s) j \<longrightarrow> (syncState s = 0 \<or> j \<noteq> sync_id s) \<longrightarrow>
     shadow (nvw s) j = stable (nvw s) j)"

definition sync_ok :: "nv_sync \<Rightarrow> bool" where
  "sync_ok s = (nv_ok (nvw s) \<and> length (packeBuf s) = PACKET_HEAD_SIZE + PACKETSIZE
     \<and> length (syncReqBuf s) = 80 \<and> ofst s = 0 \<and> syncState s \<in> {0, 1, 2}
     \<and> (syncState s \<noteq> 0 \<longrightarrow> valid_id (nvw s) (sync_id s) \<and> syncBusy s \<noteq> 0) \<and> settled s)"

lemma getCtlId_loop_found:
  assumes "getCtlId_loop ps i pid = j" "j \<noteq> - 1" "unat i + length ps < 2 ^ 32"
  shows "unat i \<le> unat j \<and> unat j < unat i + length ps \<and> partId (ps ! (unat j - unat i)) = pid"
  using assms
proof (induction ps arbitrary: i)
  case (Cons p ps)
  show ?case
  proof (cases "pid = partId p")
    case True
    then show ?thesis using Cons.prems by auto
  next
    case False
    have s: "unat (i + 1) = Suc (unat i)"
      using Cons.prems(3) by (simp add: unat_word_ariths)
    have "unat (i + 1) \<le> unat j \<and> unat j < unat (i + 1) + length ps
        \<and> partId (ps ! (unat j - unat (i + 1))) = pid"
      using Cons.prems False s by (intro Cons.IH) auto
    then show ?thesis
      unfolding s by (auto simp: nth_Cons' Suc_diff_Suc)
  qed
qed simp

lemma getCtlId_found:
  assumes "nv_ok w" "getCtlId w pid \<noteq> - 1"
  shows "valid_id w (getCtlId w pid)" "partId (part w ! unat (getCtlId w pid)) = pid"
proof -
  have l: "length (take (partNum w) (part w)) = partNum w" "partNum w < 2 ^ 32"
    using assms(1) by (simp_all add: nv_ok_def RAMNV_NUM_def)
  have "unat (getCtlId w pid) < partNum w
      \<and> partId (take (partNum w) (part w) ! unat (getCtlId w pid)) = pid"
    using getCtlId_loop_found [of "take (partNum w) (part w)" 0 pid "getCtlId w pid"] assms(2) l
    by (auto simp: getCtlId_def)
  then show "valid_id w (getCtlId w pid)" "partId (part w ! unat (getCtlId w pid)) = pid"
    by (auto simp: valid_id_def)
qed

lemma set_same_fields:
  "ofst s = 0 \<Longrightarrow> s\<lparr>syncReqBuf := m, ofst := 0\<rparr> = s\<lparr>syncReqBuf := m\<rparr>"
  "s\<lparr>syncReqBuf := syncReqBuf s\<rparr> = s"
  by (cases s; simp)+

lemma getToken_eq:
  assumes "ofst s = 0"
  shows "getToken s buf sz =
    (if sz < 20 then
       (if sz \<noteq> 0 then Some (s, buf, sz, False) else do {
          bs \<leftarrow> mem_read (packeBuf s) buf 0;
          m \<leftarrow> mem_write (syncReqBuf s) 0 bs;
          Some (s\<lparr>syncReqBuf := m\<rparr>, buf, 0, False)})
     else do {
       bs \<leftarrow> mem_read (packeBuf s) buf 20;
       m \<leftarrow> mem_write (syncReqBuf s) 0 bs;
       Some (s\<lparr>syncReqBuf := m\<rparr>, buf + 20, sz - 20, True)})"
  using assms by (simp add: getToken_def Let_def SYNC_REQ_SIZE_def set_same_fields(1))

lemma getToken_frame:
  assumes "ofst s = 0" "getToken s buf sz = Some (s', buf', sz', got)"
  obtains m where "s' = s\<lparr>syncReqBuf := m\<rparr>" "length m = length (syncReqBuf s)" "got = (20 \<le> sz)"
proof (cases "sz < 20 \<and> sz \<noteq> 0")
  case True
  then have "s' = s" "\<not> got" using assms(2) by (simp_all add: getToken_eq [OF assms(1)])
  then show thesis using that [of "syncReqBuf s"] True by (simp add: set_same_fields(2) not_le)
next
  case False
  then obtain bs m where "mem_write (syncReqBuf s) 0 bs = Some m" "s' = s\<lparr>syncReqBuf := m\<rparr>" "got = (20 \<le> sz)"
    using assms(2) by (auto simp: getToken_eq [OF assms(1)] simp del: nv_sync.update_convs split: if_splits bind_splits)
  then show thesis using that mem_write_length by blast
qed

lemma syncInit_simps [simp, keep_simps]:
  "nvw (syncInit s) = nvw s" "packeBuf (syncInit s) = packeBuf s" "syncReqBuf (syncInit s) = syncReqBuf s"
  "syncState (syncInit s) = 0" "syncBusy (syncInit s) = 0" "ofst (syncInit s) = 0" "sent (syncInit s) = sent s"
  by (simp_all add: syncInit_def)

lemma sendPacktRsp_sync [simp, keep_simps]:
  "nvw (sendPacktRsp s r) = nvw s" "syncReqBuf (sendPacktRsp s r) = syncReqBuf s"
  "syncState (sendPacktRsp s r) = syncState s" "syncBusy (sendPacktRsp s r) = syncBusy s"
  "ofst (sendPacktRsp s r) = ofst s" "sync_id (sendPacktRsp s r) = sync_id s"
  "syncReqFrame (sendPacktRsp s r) = syncReqFrame s" "sync_start (sendPacktRsp s r) = sync_start s"
  "sync_len (sendPacktRsp s r) = sync_len s"
  by (simp_all add: sendPacktRsp_def sendPacketRsp_def channel_write_def)

lemma sync_ok_send [simp]: "sync_ok (sendPacktRsp s r) = sync_ok s"
  by (simp add: sync_ok_def settled_def)

lemma sync_ok_D:
  assumes "sync_ok s"
  shows "nv_ok (nvw s)" "ofst s = 0" "length (syncReqBuf s) = 80" "length (packeBuf s) = 1044"
    "syncState s \<noteq> 0 \<Longrightarrow> valid_id (nvw s) (sync_id s)"
    "\<lbrakk>valid_id (nvw s) j; syncState s = 0 \<or> j \<noteq> sync_id s\<rbrakk> \<Longrightarrow> shadow (nvw s) j = stable (nvw s) j"
  using assms by (auto simp: sync_ok_def settled_def PACKET_HEAD_SIZE_def PACKETSIZE_def)

lemma sync_ok_init:
  assumes "sync_ok s" "nv_ok w" "\<And>j. valid_id w j \<Longrightarrow> shadow w j = stable w j"
  shows "sync_ok (syncInit (s\<lparr>nvw := w\<rparr>))"
  using assms by (simp add: sync_ok_def settled_def)

text \<open>A failed request is undone.\<close>

lemma syncReset_fail:
  assumes "sync_ok s"
  shows "\<exists>s'. syncReset s False = Some (s', True) \<and> sync_ok s' \<and> syncState s' = 0
    \<and> stable (nvw s') = stable (nvw s) \<and> same_setup (nvw s) (nvw s') \<and> packeBuf s' = packeBuf s
    \<and> sent s' = sent s"
proof (cases "syncState s = 0")
  case True
  then show ?thesis
    using assms sync_ok_init [OF assms sync_ok_D(1) [OF assms]] sync_ok_D(6) [OF assms]
    by (simp add: syncReset_def)
next
  case False
  note d = sync_ok_D(1,5) [OF assms]
  obtain w where w: "restoreData (nvw s) (sync_id s) = Some w" "nv_ok w" "same_setup (nvw s) w" "stable w = stable (nvw s)"
    using restoreData_rolls_back [OF d(1) d(2) [OF False]] by blast
  have "shadow w j = stable w j" if "valid_id w j" for j
    using ramnv.rollback_settles [OF d(1) d(2) [OF False] _ w(1) that] sync_ok_D(6) [OF assms] by blast
  then have "sync_ok (syncInit (s\<lparr>nvw := w\<rparr>))"
    by (rule sync_ok_init [OF assms w(2)])
  then show ?thesis using False w by (simp add: syncReset_def)
qed

text \<open>A complete request is committed.\<close>

lemma syncReset_done:
  assumes "sync_ok s" "syncState s \<noteq> 0"
  shows "\<exists>s'. syncReset s True = Some (s', True) \<and> sync_ok s' \<and> syncState s' = 0
    \<and> stable (nvw s') = (stable (nvw s))(sync_id s := shadow (nvw s) (sync_id s))
    \<and> same_setup (nvw s) (nvw s') \<and> packeBuf s' = packeBuf s \<and> sent s' = sent s"
proof -
  note d = sync_ok_D(1,5) [OF assms(1)]
  obtain w where w: "backupData (nvw s) (sync_id s) = Some (w, True)" "nv_ok w" "same_setup (nvw s) w"
    "stable w = (stable (nvw s))(sync_id s := shadow (nvw s) (sync_id s))"
    using backupData_commits [OF d(1) d(2) [OF assms(2)]] by blast
  then have c: "map_option fst (backupData (nvw s) (sync_id s)) = Some w" by simp
  have "shadow w j = stable w j" if "valid_id w j" for j
    using ramnv.commit_settles [OF d(1) d(2) [OF assms(2)] _ c that] sync_ok_D(6) [OF assms(1)] by blast
  then have "sync_ok (syncInit (s\<lparr>nvw := w\<rparr>))"
    by (rule sync_ok_init [OF assms(1) w(2)])
  then show ?thesis using w by (simp add: syncReset_def)
qed

text \<open>What the three token readers keep.\<close>

definition same_request :: "nv_sync \<Rightarrow> nv_sync \<Rightarrow> bool" where
  "same_request s t = (syncState t = syncState s \<and> syncBusy t = syncBusy s \<and> packeBuf t = packeBuf s
     \<and> sent t = sent s \<and> same_setup (nvw s) (nvw t) \<and> stable (nvw t) = stable (nvw s)
     \<and> (syncState s \<noteq> 0 \<longrightarrow> sync_id t = sync_id s))"

lemma getToken_ok:
  assumes "sync_ok s" "getToken s buf sz = Some (t, buf', sz', got)"
  shows "sync_ok t \<and> same_request s t \<and> nvw t = nvw s"
proof -
  obtain m where "t = s\<lparr>syncReqBuf := m\<rparr>" "length m = length (syncReqBuf s)"
    using getToken_frame [OF sync_ok_D(2) [OF assms(1)] assms(2)] by blast
  then show ?thesis using assms(1) by (simp add: same_request_def sync_ok_def settled_def)
qed

lemma syncGetHead_ok:
  assumes "sync_ok s" "syncState s = 0" "syncGetHead s buf sz = Some (t, buf', sz', ret)"
  shows "sync_ok t \<and> same_request s t \<and> (ret = SYNC_NEXT \<longrightarrow> valid_id (nvw t) (sync_id t)) \<and> ret \<noteq> SYNC_DONE"
proof -
  obtain u buf1 sz1 got where u: "getToken s buf sz = Some (u, buf1, sz1, got)"
    using assms(3) by (auto simp: syncGetHead_def split: bind_splits)
  have ok: "sync_ok u" "same_request s u" using getToken_ok [OF assms(1) u] by simp_all
  define v where "v = u\<lparr>syncReqFrame := req_reqIdx (syncReqBuf u), sync_id := getCtlId (nvw u) (req_partId (syncReqBuf u))\<rparr>"
  have st: "syncState u = 0" using ok(2) assms(2) by (simp add: same_request_def)
  have v: "sync_ok v" "same_request s v"
    using ok st by (simp_all add: v_def sync_ok_def settled_def same_request_def assms(2))
  have "t = u \<and> ret \<noteq> SYNC_NEXT \<and> ret \<noteq> SYNC_DONE \<or> t = v \<and> ret \<noteq> SYNC_DONE \<and> (ret = SYNC_NEXT \<longrightarrow> sync_id v \<noteq> - 1)"
    using assms(3) u unfolding v_def by (auto simp: syncGetHead_def Let_def split: if_splits)
  moreover have "valid_id (nvw v) (sync_id v)" if "sync_id v \<noteq> - 1"
    using that getCtlId_found(1) [OF sync_ok_D(1) [OF ok(1)]] by (simp add: v_def)
  ultimately show ?thesis using ok v by blast
qed

lemma syncGetBody_ok:
  assumes "sync_ok s" "syncState s = 1" "syncGetBody s buf sz = Some (t, buf', sz', ret)"
  shows "sync_ok t \<and> same_request s t \<and> shadow (nvw t) = shadow (nvw s)"
proof -
  obtain u buf1 sz1 got where u: "getToken s buf sz = Some (u, buf1, sz1, got)"
    using assms(3) by (auto simp: syncGetBody_def split: bind_splits)
  have ok: "sync_ok u" "same_request s u" "nvw u = nvw s" using getToken_ok [OF assms(1) u] by simp_all
  have st: "syncState u = 1" using ok(2) assms(2) by (simp add: same_request_def)
  have frame: "sync_ok (u\<lparr>syncReqFrame := n\<rparr>)" "same_request s (u\<lparr>syncReqFrame := n\<rparr>)" for n
    using ok by (simp_all add: sync_ok_def settled_def same_request_def)
  show ?thesis
  proof (cases "ret = SYNC_NEXT")
    case False
    then have "\<exists>n. t = u \<or> t = u\<lparr>syncReqFrame := n\<rparr>"
      using assms(3) u by (auto simp: syncGetBody_def Let_def split: if_splits bind_splits)
    then show ?thesis using ok frame by auto
  next
    case True
    then obtain w where w: "markDirtyInfo (nvw s) (sync_id u) (req_start (syncReqBuf u)) (req_num (syncReqBuf u)) = Some w"
      "t = u\<lparr>syncReqFrame := syncReqFrame u + 1, nvw := w, sync_start := req_start (syncReqBuf u) * of_nat RAMNV_SECT_SIZE,
             sync_len := req_num (syncReqBuf u) * of_nat RAMNV_SECT_SIZE\<rparr>"
      using assms(3) u ok(3) by (auto simp: syncGetBody_def Let_def split: if_splits bind_splits)
    have "nv_ok w" "same_setup (nvw s) w" "shadow w = shadow (nvw s)" "stable w = stable (nvw s)" "valid_id w = valid_id (nvw s)"
      using markDirtyInfo_step [OF _ _ w(1)] sync_ok_D(1,5) [OF ok(1)] st ok(3) same_setup_valid by simp_all
    then show ?thesis
      using ok st unfolding w(2) by (simp add: sync_ok_def settled_def same_request_def)
  qed
qed

lemma syncGetData_ok:
  assumes "sync_ok s" "syncState s = 2" "syncGetData s buf sz = Some (t, buf', sz', ret)"
  shows "sync_ok t \<and> same_request s t \<and> ret \<in> {SYNC_NEXT, SYNC_CONTINUE}"
proof -
  obtain n bs w where w: "writeData (nvw s) (sync_id s) (sync_start s) bs = Some w"
    "t = s\<lparr>nvw := w, sync_start := sync_start s + n, sync_len := sync_len s - n\<rparr>"
    "ret = (if sync_len s \<le> sz then SYNC_NEXT else SYNC_CONTINUE)"
    using syncGetData_cases [OF assms(3)] by blast
  note d = sync_ok_D [OF assms(1)]
  have v: "valid_id (nvw s) (sync_id s)" using d(5) assms(2) by simp
  have "nv_ok w \<and> same_setup (nvw s) w \<and> stable w = stable (nvw s) \<and> (\<forall>j. j \<noteq> sync_id s \<longrightarrow> shadow w j = shadow (nvw s) j)"
    using writeData_step [OF d(1) v w(1)] .
  moreover from this have "valid_id w = valid_id (nvw s)" using same_setup_valid by blast
  ultimately show ?thesis
    using w(2,3) assms(1,2) by (auto simp: sync_ok_def settled_def same_request_def)
qed

text \<open>
  One iteration of the analyzer: the invariant stays, and the committed contents change only
  where the tail of a request ends it, to the current contents of its partition.
\<close>

definition step_ok :: "nv_sync \<Rightarrow> nv_sync \<Rightarrow> bool" where
  "step_ok s s' = (sync_ok s' \<and> same_setup (nvw s) (nvw s') \<and> packeBuf s' = packeBuf s
     \<and> (stable (nvw s') = stable (nvw s) \<or> syncState s = 1 \<and> syncState s' = 0
          \<and> stable (nvw s') = (stable (nvw s))(sync_id s := shadow (nvw s) (sync_id s))))"

lemma fail_reset_ok:
  assumes "sync_ok t" "same_request s t" "fail_reset t = Some (s', k)"
  shows "step_ok s s' \<and> k = None"
proof -
  obtain t' where "syncReset t False = Some (t', True)" "sync_ok t'" "stable (nvw t') = stable (nvw t)"
    "same_setup (nvw t) (nvw t')" "packeBuf t' = packeBuf t"
    using syncReset_fail [OF assms(1)] by blast
  then show ?thesis
    using assms(2,3) same_setup_trans [of "nvw s" "nvw t" "nvw t'"]
    by (auto simp: fail_reset_def step_ok_def same_request_def)
qed

lemma same_request_step:
  assumes "sync_ok s'" "same_request s s'"
  shows "step_ok s s'"
  using assms by (simp add: step_ok_def same_request_def)

lemma same_request_next:
  assumes "sync_ok t" "same_request s t" "syncBusy s \<noteq> 0" "n \<in> {1, 2}" "valid_id (nvw t) (sync_id t)"
  shows "step_ok s (t\<lparr>syncState := n\<rparr>)" "syncBusy (t\<lparr>syncState := n\<rparr>) \<noteq> 0"
  using assms by (auto simp: step_ok_def same_request_def sync_ok_def settled_def)

lemma step_ok_send [simp]: "step_ok s (sendPacktRsp t r) = step_ok s t"
  by (simp add: step_ok_def)

lemma done_step:
  assumes "sync_ok t" "same_request s t" "shadow (nvw t) = shadow (nvw s)" "syncState s = 1"
    "syncReset t True = Some (s', r)"
  shows "step_ok s s'"
proof -
  have st: "syncState t \<noteq> 0" "sync_id t = sync_id s" using assms(2,4) by (simp_all add: same_request_def)
  obtain t' where t': "syncReset t True = Some (t', True)" "sync_ok t'" "syncState t' = 0"
    "stable (nvw t') = (stable (nvw t))(sync_id t := shadow (nvw t) (sync_id t))"
    "same_setup (nvw t) (nvw t')" "packeBuf t' = packeBuf t"
    using syncReset_done [OF assms(1) st(1)] by blast
  have "same_setup (nvw s) (nvw t')"
    using assms(2) t'(5) same_setup_trans by (auto simp: same_request_def)
  moreover have "s' = t'" using t'(1) assms(5) by simp
  ultimately show ?thesis
    using t' assms(2-4) st(2) by (simp add: step_ok_def same_request_def)
qed

lemma analyze_step_ok:
  assumes "sync_ok s" "syncBusy s \<noteq> 0" "analyze_step s buf sz = Some (s', k)"
  shows "step_ok s s' \<and> (k \<noteq> None \<longrightarrow> syncBusy s' \<noteq> 0)"
proof -
  consider (head) "syncState s = 0" | (body) "syncState s = 1" | (data) "syncState s = 2"
    using assms(1) by (auto simp: sync_ok_def)
  then show ?thesis
  proof cases
    case head
    then obtain t b z ret where t: "syncGetHead s buf sz = Some (t, b, z, ret)"
      using assms(3) by (auto simp: analyze_step_def split: bind_splits)
    note ok = syncGetHead_ok [OF assms(1) head t]
    show ?thesis
      using assms(3) head t ok fail_reset_ok [of t s s' k] same_request_next [of t s 1]
        same_request_step [of t s] assms(2)
      by (cases ret) (auto simp: analyze_step_def)
  next
    case body
    then obtain t b z ret where t: "syncGetBody s buf sz = Some (t, b, z, ret)"
      using assms(3) by (auto simp: analyze_step_def split: bind_splits)
    have ok: "sync_ok t" "same_request s t" "shadow (nvw t) = shadow (nvw s)"
      using syncGetBody_ok [OF assms(1) body t] by simp_all
    have v: "valid_id (nvw t) (sync_id t)"
      using sync_ok_D(5) [OF ok(1)] ok(2) body by (simp add: same_request_def)
    show ?thesis
      using assms(3) body t ok v fail_reset_ok [of t s s' k] same_request_next [of t s 2]
        same_request_step [of t s] assms(2) done_step [OF ok body]
      by (cases ret) (auto simp: analyze_step_def split: bind_splits)
  next
    case data
    then obtain t b z ret where t: "syncGetData s buf sz = Some (t, b, z, ret)"
      using assms(3) by (auto simp: analyze_step_def split: bind_splits)
    have ok: "sync_ok t" "same_request s t" "ret \<in> {SYNC_NEXT, SYNC_CONTINUE}"
      using syncGetData_ok [OF assms(1) data t] by simp_all
    have v: "valid_id (nvw t) (sync_id t)"
      using sync_ok_D(5) [OF ok(1)] ok(2) data by (simp add: same_request_def)
    show ?thesis
      using assms(3) data t ok v same_request_next [of t s 1] same_request_step [of t s] assms(2)
      by (cases ret) (auto simp: analyze_step_def)
  qed
qed




lemma analyze_loop_rules:
  "analyze_loop s buf 0 = Some s"
  "sz \<noteq> 0 \<Longrightarrow> analyze_step s buf sz = None \<Longrightarrow> analyze_loop s buf sz = None"
  "sz \<noteq> 0 \<Longrightarrow> analyze_step s buf sz = Some (t, None) \<Longrightarrow> analyze_loop s buf sz = Some t"
  "sz \<noteq> 0 \<Longrightarrow> analyze_step s buf sz = Some (t, Some (b, z)) \<Longrightarrow> analyze_loop s buf sz = analyze_loop t b z"
  by (subst analyze_loop.simps, simp)+








section \<open>Requests\<close>

text \<open>The tokens of a request as the modem encodes them (20 bytes each).\<close>

definition req_token :: "u32 \<Rightarrow> u32 \<Rightarrow> u32 \<Rightarrow> u32 \<Rightarrow> u32 \<Rightarrow> byte list" where
  "req_token ty idx pid x y = put32 ty @ put32 idx @ put32 pid @ put32 x @ put32 y"

lemma length_req_token [simp]: "length (req_token ty idx pid x y) = 20"
  by (simp add: req_token_def)

lemma req_token_fields [simp]:
  "req_packet_type (req_token ty idx pid x y @ bs) = ty" "req_reqIdx (req_token ty idx pid x y @ bs) = idx"
  "req_partId (req_token ty idx pid x y @ bs) = pid" "req_start (req_token ty idx pid x y @ bs) = x"
  "req_num (req_token ty idx pid x y @ bs) = y"
  by (simp_all add: req_token_def req_packet_type_def req_reqIdx_def req_partId_def req_start_def
      req_num_def le_simps)

lemma mem_read_at:
  assumes "drop buf m = bs @ post" "buf \<le> length m"
  shows "mem_read m buf (length bs) = Some bs"
proof -
  have "length m - buf = length bs + length post" using arg_cong [OF assms(1), of length] by simp
  then show ?thesis using assms by (simp add: mem_read_def)
qed

lemma drop_token:
  assumes "drop buf m = bs @ post"
  shows "drop (buf + length bs) m = post"
  using assms by (metis append_eq_conv_conj drop_drop add.commute)

lemma token_step:
  assumes "sync_ok s" "drop buf (packeBuf s) = tok @ post" "length tok = 20" "20 \<le> unat sz"
  shows "getToken s buf sz = Some (s\<lparr>syncReqBuf := tok @ drop 20 (syncReqBuf s)\<rparr>, buf + 20, sz - 20, True)"
proof -
  note d = sync_ok_D [OF assms(1)]
  have "buf \<le> length (packeBuf s)"
    using assms(2,3) by (metis append_Nil2 append_eq_append_conv2 drop_all length_greater_0_conv
        linorder_le_cases list.size(3) append_is_Nil_conv zero_neq_numeral)
  then have "mem_read (packeBuf s) buf 20 = Some tok"
    using mem_read_at [OF assms(2)] assms(3) by simp
  moreover have "mem_write (syncReqBuf s) 0 tok = Some (tok @ drop 20 (syncReqBuf s))"
    using assms(3) d(3) by (simp add: mem_write_def)
  moreover have "\<not> sz < 20" using assms(4) by (simp add: word_less_nat_alt)
  ultimately show ?thesis by (simp add: getToken_eq [OF d(2)])
qed

lemma head_step:
  assumes "sync_ok s" "syncState s = 0" "drop buf (packeBuf s) = req_token 0 f pid x y @ post" "20 \<le> unat sz"
    and "getCtlId (nvw s) pid = i" "i \<noteq> - 1"
  shows "analyze_step s buf sz = Some (s\<lparr>syncReqBuf := req_token 0 f pid x y @ drop 20 (syncReqBuf s),
    syncReqFrame := f, sync_id := i, syncState := 1\<rparr>, Some (buf + 20, sz - 20))"
  using token_step [OF assms(1,3) _ assms(4)] assms(2,5,6)
  by (simp add: analyze_step_def syncGetHead_def SYNC_REQ_HEAD_def Let_def)

lemma body_step:
  assumes "sync_ok s" "syncState s = 1" "drop buf (packeBuf s) = req_token 1 f pid st num @ post" "20 \<le> unat sz"
    and "f = syncReqFrame s + 1" "markDirtyInfo (nvw s) (sync_id s) st num = Some w"
  shows "analyze_step s buf sz = Some (s\<lparr>syncReqBuf := req_token 1 f pid st num @ drop 20 (syncReqBuf s),
    syncReqFrame := f, nvw := w, sync_start := st * 512, sync_len := num * 512, syncState := 2\<rparr>,
    Some (buf + 20, sz - 20))"
  using token_step [OF assms(1,3) _ assms(4)] assms(2,5,6)
  by (simp add: analyze_step_def syncGetBody_def SYNC_REQ_BODY_def Let_def RAMNV_SECT_SIZE_def)

lemma tail_step:
  assumes "sync_ok s" "syncState s = 1" "drop buf (packeBuf s) = req_token 2 f pid x y @ post" "20 \<le> unat sz"
    and "f = syncReqFrame s + 1"
  shows "\<exists>s'. analyze_step s buf sz = Some (s', None) \<and> sync_ok s' \<and> syncState s' = 0
    \<and> stable (nvw s') = (stable (nvw s))(sync_id s := shadow (nvw s) (sync_id s))
    \<and> sent s' = sent s @ [packetRsp (packeBuf s) 1]"
proof -
  let ?m = "req_token 2 f pid x y @ drop 20 (syncReqBuf s)"
  have body: "syncGetBody s buf sz = Some (s\<lparr>syncReqBuf := ?m, syncReqFrame := f\<rparr>, buf + 20, sz - 20, SYNC_DONE)"
    using token_step [OF assms(1,3) _ assms(4)] assms(5)
    by (simp add: syncGetBody_def SYNC_REQ_BODY_def SYNC_REQ_TAIL_def Let_def)
  let ?t = "s\<lparr>syncReqBuf := ?m, syncReqFrame := f\<rparr>"
  have "sync_ok ?t" using syncGetBody_ok [OF assms(1,2) body] by blast
  then obtain t' where "syncReset ?t True = Some (t', True)" "sync_ok t'" "syncState t' = 0"
    "stable (nvw t') = (stable (nvw ?t))(sync_id ?t := shadow (nvw ?t) (sync_id ?t))"
    "packeBuf t' = packeBuf ?t" "sent t' = sent ?t"
    using syncReset_done [of ?t] assms(2) by auto
  then show ?thesis using assms(2) body by (simp add: analyze_step_def)
qed

text \<open>The state while the sectors of a body token arrive: \<open>L\<close> bytes are missing, the next one goes
  to offset \<open>ofs\<close> of partition \<open>i\<close>.\<close>

definition receiving :: "nv_sync \<Rightarrow> u32 \<Rightarrow> u32 \<Rightarrow> nat \<Rightarrow> nat \<Rightarrow> bool" where
  "receiving s i f ofs L = (sync_ok s \<and> syncState s = 2 \<and> syncBusy s \<noteq> 0 \<and> sync_id s = i
     \<and> syncReqFrame s = f \<and> unat (sync_start s) = ofs \<and> unat (sync_len s) = L)"






lemma drop_mk_packet: "drop 20 (mk_packet grp sub n d) = d @ replicate (1024 - length d) 0"
  by (simp add: mk_packet_def)









lemma unat_sector_bytes:
  "unat (n :: u32) \<le> 1536 \<Longrightarrow> unat (n * 512) = 512 * unat n"
  by (simp add: unat_word_ariths)

text \<open>The head and the body token of a request, at the start of its first packet.\<close>

lemma request_opened:
  assumes "sync_ok s" "syncState s = 0" "syncBusy s \<noteq> 0" "getCtlId (nvw s) pid = i" "i \<noteq> - 1"
    and "0 < unat num" "unat st + unat num \<le> 1536"
    and "drop buf (packeBuf s) = req_token 0 f pid x y @ (req_token 1 (f + 1) pid' st num @ post)"
    and "40 \<le> unat sz"
  shows "\<exists>q. analyze_loop s buf sz = analyze_loop q (buf + 40) (sz - 40)
    \<and> receiving q i (f + 1) (512 * unat st) (512 * unat num) \<and> stable (nvw q) = stable (nvw s)
    \<and> shadow (nvw q) = shadow (nvw s) \<and> idxGrp q = idxGrp s \<and> idxSub q = idxSub s \<and> packeBuf q = packeBuf s"
proof -
  define u where "u = s\<lparr>syncReqBuf := req_token 0 f pid x y @ drop 20 (syncReqBuf s),
    syncReqFrame := f, sync_id := i, syncState := 1\<rparr>"
  have su: "analyze_step s buf sz = Some (u, Some (buf + 20, sz - 20))"
    unfolding u_def using assms(9) by (intro head_step [OF assms(1,2,8) _ assms(4,5)]) simp
  have uok: "sync_ok u" "syncBusy u \<noteq> 0" "syncState u = 1"
    using analyze_step_ok [OF assms(1,3) su] by (simp_all add: step_ok_def u_def)
  have dru: "drop (buf + 20) (packeBuf u) = req_token 1 (f + 1) pid' st num @ post"
    using drop_token [OF assms(8)] by (simp add: u_def)
  have v: "valid_id (nvw s) i" using sync_ok_D(5) [OF uok(1)] uok(3) by (simp add: u_def)
  obtain w where w: "markDirtyInfo (nvw s) i st num = Some w"
    using markDirtyInfo_defined [OF sync_ok_D(1) [OF assms(1)] v assms(6,7)] by blast
  then have ww: "shadow w = shadow (nvw s)" "stable w = stable (nvw s)"
    using markDirtyInfo_step [OF sync_ok_D(1) [OF assms(1)] v] by auto
  define q where "q = u\<lparr>syncReqBuf := req_token 1 (f + 1) pid' st num @ drop 20 (syncReqBuf u),
    syncReqFrame := f + 1, nvw := w, sync_start := st * 512, sync_len := num * 512, syncState := 2\<rparr>"
  have sz: "unat (sz - 20) = unat sz - 20" "20 \<le> unat (sz - 20)" "sz \<noteq> 0" "sz - 20 \<noteq> 0"
    using assms(9) by (auto simp: unat_sub word_le_nat_alt)
  have sq: "analyze_step u (buf + 20) (sz - 20) = Some (q, Some (buf + 40, sz - 40))"
    using body_step [OF uok(1,3) dru sz(2), of w] w by (simp add: q_def u_def add.assoc)
  have "sync_ok q" "syncBusy q \<noteq> 0"
    using analyze_step_ok [OF uok(1,2) sq] by (simp_all add: step_ok_def)
  then have "receiving q i (f + 1) (512 * unat st) (512 * unat num)"
    using assms(7) unat_sector_bytes by (simp add: receiving_def q_def u_def)
  moreover have "analyze_loop s buf sz = analyze_loop q (buf + 40) (sz - 40)"
    using analyze_loop_rules(4) [OF sz(3) su] analyze_loop_rules(4) [OF sz(4) sq] by simp
  ultimately show ?thesis using ww by (intro exI [of _ q]) (simp add: q_def u_def)
qed


text \<open>The packets of a request with one body token; its sectors are cut into the parts \<open>d\<close> (in the
  first packet), \<open>ds\<close> (a packet each) and \<open>dl\<close> (before the tail token).\<close>

definition first_payload :: "u32 \<Rightarrow> u32 \<Rightarrow> u32 \<Rightarrow> u32 \<Rightarrow> byte list \<Rightarrow> byte list" where
  "first_payload f pid st num d = req_token SYNC_REQ_HEAD f pid 512 0 @ req_token SYNC_REQ_BODY (f + 1) pid st num @ d"





section \<open>Properties\<close>


definition demo_sync :: nv_sync where
  "demo_sync = \<lparr>packeBuf = replicate 1044 0, idxGrp = - 1, idxSub = 0, sent = [], syncState = 0,
     syncBusy = 0, syncReqFrame = 0, syncReqBuf = replicate 80 0, ofst = 0, sync_id = - 1,
     sync_start = 0, sync_len = 0, nvw = demo_world\<rparr>"

lemma demo_sync_ok: "sync_ok demo_sync"
  using demo_ok demo_views
  by (simp add: sync_ok_def settled_def demo_sync_def PACKET_HEAD_SIZE_def PACKETSIZE_def demo_valid(2))

lemma demo_getCtlId: "getCtlId (nvw demo_sync) 1 = 0"
proof -
  have "take 1 (replicate 15 demo_part) = [demo_part]" by (simp add: numeral_eq_Suc)
  then show ?thesis by (simp add: demo_sync_def demo_world_def getCtlId_def demo_part_def)
qed






text \<open>
  C20.  Only a tail token commits.  If an iteration of the analyzer changes the committed contents
  of any partition, a request was open, the token at the read position is a tail with the next
  request index, and what changed is the partition of the request, to its current contents.
\<close>

theorem commit_only_at_tail:
  assumes "sync_ok s" "syncBusy s \<noteq> 0" "analyze_step s buf sz = Some (s', k)"
    and "stable (nvw s') \<noteq> stable (nvw s)"
  shows "syncState s = 1 \<and> k = None
    \<and> (\<exists>tok. mem_read (packeBuf s) buf 20 = Some tok \<and> req_packet_type tok = SYNC_REQ_TAIL
         \<and> req_reqIdx tok = syncReqFrame s + 1)
    \<and> stable (nvw s') = (stable (nvw s))(sync_id s := shadow (nvw s) (sync_id s))"
proof -
  have st: "syncState s = 1"
    "stable (nvw s') = (stable (nvw s))(sync_id s := shadow (nvw s) (sync_id s))"
    using analyze_step_ok [OF assms(1-3)] assms(4) by (auto simp: step_ok_def)
  obtain t b z ret where t: "syncGetBody s buf sz = Some (t, b, z, ret)"
    using assms(3) st(1) by (auto simp: analyze_step_def split: bind_splits)
  have ok: "sync_ok t" "same_request s t" using syncGetBody_ok [OF assms(1) st(1) t] by simp_all
  have ret: "ret = SYNC_DONE"
  proof (cases ret)
    case SYNC_FAIL
    then have "fail_reset t = Some (s', k)" using assms(3) st(1) t by (simp add: analyze_step_def)
    moreover obtain t' where "syncReset t False = Some (t', True)" "stable (nvw t') = stable (nvw t)"
      using syncReset_fail [OF ok(1)] by blast
    ultimately show ?thesis using assms(4) ok(2) by (auto simp: fail_reset_def same_request_def)
  qed (use assms(3,4) st(1) t ok(2) in \<open>auto simp: analyze_step_def same_request_def\<close>)
  obtain u where u: "getToken s buf sz = Some (u, b, z, True)" "req_packet_type (syncReqBuf u) = SYNC_REQ_TAIL"
    "syncReqFrame u + 1 = req_reqIdx (syncReqBuf u)"
    using syncGetBody_DONE t ret by blast
  then obtain bs where bs: "mem_read (packeBuf s) buf 20 = Some bs" "mem_write (syncReqBuf s) 0 bs = Some (syncReqBuf u)"
    "syncReqFrame u = syncReqFrame s"
    by (auto simp: getToken_eq [OF sync_ok_D(2) [OF assms(1)]] split: if_splits bind_splits)
  then have "length bs = 20" by (auto simp: mem_read_def split: if_splits)
  then have "syncReqBuf u = bs @ drop 20 (syncReqBuf s)"
    using bs(2) by (auto simp: mem_write_def split: if_splits)
  then have "req_packet_type bs = SYNC_REQ_TAIL" "req_reqIdx bs = syncReqFrame s + 1"
    using u(2,3) bs(3) \<open>length bs = 20\<close>
    by (simp_all add: req_packet_type_def req_reqIdx_def get32_def nth_append)
  moreover have "k = None"
    using assms(3) st(1) t ret by (auto simp: analyze_step_def split: bind_splits)
  ultimately show ?thesis using st bs(1) by blast
qed

lemma demo_tail:
  obtains s s' where "sync_ok s" "syncBusy s \<noteq> 0" "packeBuf s = mk_packet 3 1 20 (req_token 2 9 1 0 0)"
    "analyze_step s 20 20 = Some (s', None)" "stable (nvw s') \<noteq> stable (nvw s)"
proof -
  have m: "mem_write (shadow demo_world 0) (unat (0 :: u32)) [7] = Some (7 # replicate 511 0)"
    by (simp add: demo_views mem_write_def)
  obtain w where w: "nv_ok w" "valid_id w = valid_id demo_world" "stable w = stable demo_world"
    "shadow w = (shadow demo_world)(0 := 7 # replicate 511 0)"
    using ramnv.write_exact [OF demo_ok demo_valid(1) m] by blast
  define s where "s = demo_sync\<lparr>syncState := 1, syncBusy := 1, sync_id := 0, syncReqFrame := 8,
    packeBuf := mk_packet 3 1 20 (req_token 2 9 1 0 0), nvw := w\<rparr>"
  have s: "sync_ok s" "syncState s = 1" "drop 20 (packeBuf s) = req_token 2 9 1 0 0 @ replicate 1004 0"
    using demo_valid w(1,2)
    by (simp_all add: s_def demo_sync_def sync_ok_def settled_def mk_packet_fields drop_mk_packet
        PACKET_HEAD_SIZE_def PACKETSIZE_def)
  obtain s' where s': "analyze_step s 20 20 = Some (s', None)"
    "stable (nvw s') = (stable (nvw s))(sync_id s := shadow (nvw s) (sync_id s))"
    using tail_step [OF s, of 20] by (auto simp: s_def)
  have "hd (shadow w 0) \<noteq> hd (stable w 0)"
    by (simp add: w demo_views)
  then have "stable (nvw s') 0 \<noteq> stable (nvw s) 0" using s'(2) by (auto simp: s_def)
  then have "stable (nvw s') \<noteq> stable (nvw s)" by metis
  then show thesis using that [OF s(1) _ _ s'(1)] by (simp add: s_def)
qed

theorem commit_only_at_tail_witness:
  "\<exists>s s' tok. analyze_step s 20 20 = Some (s', None) \<and> stable (nvw s') \<noteq> stable (nvw s)
     \<and> mem_read (packeBuf s) 20 20 = Some tok \<and> req_packet_type tok = SYNC_REQ_TAIL"
proof -
  obtain s s' where s: "sync_ok s" "syncBusy s \<noteq> 0" "analyze_step s 20 20 = Some (s', None)"
    "stable (nvw s') \<noteq> stable (nvw s)"
    using demo_tail by blast
  then show ?thesis using commit_only_at_tail [OF s] by blast
qed

text \<open>
  A token cut by the end of a packet is lost.  While a head or a body token is expected and
  fewer than 20 bytes of the packet are left, the analyzer answers success (1), changes nothing
  else and drops those bytes; the next packet is read from its own start.
\<close>

theorem partial_token_dropped:
  assumes "sync_ok s" "syncState s \<noteq> 2" "0 < sz" "sz < 20"
  shows "analyze_step s buf sz = Some (sendPacktRsp s 1, None)
    \<and> analyze_loop s buf sz = Some (sendPacktRsp s 1)"
proof -
  have "getToken s buf sz = Some (s, buf, sz, False)"
    using assms(3,4) by (auto simp: getToken_eq [OF sync_ok_D(2) [OF assms(1)]])
  moreover have "syncState s = 0 \<or> syncState s = 1"
    using assms(1,2) by (auto simp: sync_ok_def)
  ultimately have step: "analyze_step s buf sz = Some (sendPacktRsp s 1, None)"
    by (auto simp: analyze_step_def syncGetHead_def syncGetBody_def Let_def)
  have "sz \<noteq> 0" using assms(3) by auto
  then show ?thesis using step analyze_loop_rules(3) by blast
qed

theorem partial_token_dropped_witness:
  "analyze_step demo_sync 20 19 = Some (sendPacktRsp demo_sync 1, None)"
  using partial_token_dropped [OF demo_sync_ok, of 19 20] by (simp add: demo_sync_def)

text \<open>
  C25.  The analyzer can be made to read outside the packet buffer.  A first packet whose size
  field is \<open>2^32 - 1\<close> passes the signed size test of \<open>_getPacket\<close>; with a head for a known
  partition and a body announcing two sectors, \<open>_syncGetData\<close> then copies 1024 bytes from
  offset 60 of the 1044-byte buffer.
\<close>

theorem oversized_packet_overruns:
  assumes "sync_ok s" "syncBusy s = 0" "grp \<noteq> idxGrp s" "getCtlId (nvw s) pid \<noteq> - 1"
  shows "syncPacket s (mk_packet grp 0 0xFFFFFFFF (first_payload f pid 0 2 [])) = None"
proof -
  let ?p = "first_payload f pid 0 2 []" and ?n = "0xFFFFFFFF :: u32"
  let ?r = "mk_packet grp 0 ?n ?p"
  let ?t = "s\<lparr>packeBuf := ?r, idxGrp := grp, idxSub := 0, syncBusy := 1\<rparr>"
  have len: "length ?p = 40" by (simp add: first_payload_def)
  have "getPacket s ?r 0 0 = (s\<lparr>packeBuf := ?r, idxGrp := grp, idxSub := 0\<rparr>, PACKET_START, 20, ?n)"
    using sync_ok_D(4) [OF assms(1)] assms(3) len by (simp add: getPacket_full mk_packet_fields Let_def)
  then have pkt: "syncPacket s ?r = map_option (\<lambda>s. (s, True)) (analyze_loop ?t 20 ?n)"
    using assms(2) by (simp add: syncPacket_def map_conv_bind_option comp_def)
  have t: "sync_ok ?t" "syncState ?t = 0" "syncBusy ?t \<noteq> 0"
    using assms(1,2) len by (auto simp: sync_ok_def settled_def mk_packet_fields PACKET_HEAD_SIZE_def PACKETSIZE_def)
  have dr: "drop 20 (packeBuf ?t) = req_token 0 f pid 512 0 @ (req_token 1 (f + 1) pid 0 2 @ replicate 984 0)"
    by (simp add: drop_mk_packet len) (simp add: first_payload_def SYNC_REQ_HEAD_def SYNC_REQ_BODY_def)
  obtain q where q: "analyze_loop ?t 20 ?n = analyze_loop q (20 + 40) (?n - 40)"
    "receiving q (getCtlId (nvw s) pid) (f + 1) (512 * unat (0 :: u32)) (512 * unat (2 :: u32))"
    using request_opened [OF t _ assms(4) _ _ dr, of ?n] by auto
  have "unat (sync_len q) = 1024" "sync_ok q" "syncState q = 2" using q(2) by (simp_all add: receiving_def)
  then have "analyze_step q 60 (?n - 40) = None"
    using sync_ok_D(4) [of q]
    by (simp add: analyze_step_def syncGetData_def word_le_nat_alt mem_read_def)
  then show ?thesis using pkt q(1) analyze_loop_rules(2) [of "?n - 40" q 60] by simp
qed

theorem oversized_packet_overruns_witness:
  "syncPacket demo_sync (mk_packet 3 0 0xFFFFFFFF (first_payload 9 1 0 2 [])) = None"
  using oversized_packet_overruns [OF demo_sync_ok, of 3 1 9] demo_getCtlId by (simp add: demo_sync_def)

end
