(* ===== verification/NvServer.thy ===== *)
theory NvServer
  imports NvSync
begin

text \<open>
  The start-up of the NV item daemon, \<open>main\<close> of \<^verbatim>\<open>src/apps/nvitem/nvitem_server.c\<close>, up to its
  endless loop, whose steps are \<open>server_step\<close> of \<open>NvSync\<close>.
\<close>







section \<open>Properties\<close>



end
