(* ===== verification/FdlCrc.thy ===== *)
theory FdlCrc
  imports NvCommon
begin

text \<open>
  The checksums of the modem download protocol, \<^verbatim>\<open>src/apps/modem_control/crc16.c\<close>: the bitwise
  CRC of UART frames (\<open>crc_16_l_calc\<close>), the two Internet-style sums (\<open>frm_chk\<close>,
  \<open>boot_checksum\<close>) and the table-driven CRC-16 (\<open>calculate_crc\<close>).  \<open>char\<close> is unsigned and
  \<open>unsigned long\<close> has 32 bits; a length is the length of the byte list, so the 16-bit loads are
  little endian.
\<close>

section \<open>The bitwise CRC\<close>

definition CRC_16_POLYNOMIAL :: u16 where "CRC_16_POLYNOMIAL = 0x1021"
definition CRC_16_L_POLYNOMIAL :: u16 where "CRC_16_L_POLYNOMIAL = 0x8000"
definition CRC_16_L_SEED :: byte where "CRC_16_L_SEED = 0x80"

text \<open>The inner loop, \<open>for (i = CRC_16_L_SEED; i != 0; i = i >> 1)\<close>, on one byte.\<close>

function crc_16_l_bits :: "u16 \<Rightarrow> byte \<Rightarrow> byte \<Rightarrow> u16" where
  "crc_16_l_bits crc b i =
     (if i = 0 then crc else
      let crc = (if crc AND CRC_16_L_POLYNOMIAL \<noteq> 0
                 then push_bit 1 crc XOR CRC_16_POLYNOMIAL
                 else push_bit 1 crc);
          crc = (if b AND i \<noteq> 0 then crc XOR CRC_16_POLYNOMIAL else crc)
      in crc_16_l_bits crc b (drop_bit 1 i))"
  by pat_completeness auto
termination
proof (relation "measure (\<lambda>(crc, b, i). unat i)", goal_cases)
  case (2 crc b i x xa)
  have "unat (drop_bit 1 i) = unat i div 2"
    unfolding unsigned_drop_bit_eq by (simp add: drop_bit_eq_div take_bit_nat_eq_self)
  moreover have "0 < unat i" using 2 by (simp add: unat_gt_0)
  ultimately show ?case by simp
qed simp

declare crc_16_l_bits.simps [simp del]

fun crc_16_l_loop :: "u16 \<Rightarrow> byte list \<Rightarrow> u16" where
  "crc_16_l_loop crc [] = crc"
| "crc_16_l_loop crc (b # bs) = crc_16_l_loop (crc_16_l_bits crc b CRC_16_L_SEED) bs"

definition crc_16_l_calc :: "byte list \<Rightarrow> u16" where
  "crc_16_l_calc bs = crc_16_l_loop 0 bs"

section \<open>The sums\<close>

definition load16 :: "byte \<Rightarrow> byte \<Rightarrow> u32" where
  "load16 a b = ucast (ucast a OR push_bit 8 (ucast b) :: u16)"

fun frm_chk_loop :: "byte list \<Rightarrow> u32 \<Rightarrow> u32" where
  "frm_chk_loop (a # b # c # d # bs) sm = frm_chk_loop bs (sm + load16 a b + load16 c d)"
| "frm_chk_loop [a, b, c] sm = sm + load16 a b + ucast c"
| "frm_chk_loop [a, b] sm = sm + load16 a b"
| "frm_chk_loop [a] sm = sm + ucast a"
| "frm_chk_loop [] sm = sm"

definition frm_chk :: "byte list \<Rightarrow> u16" where
  "frm_chk bs =
     (let sm = frm_chk_loop bs 0;
          sm = drop_bit 16 sm + (sm AND 0x0FFFF);
          sm = sm + drop_bit 16 sm
      in ucast (NOT sm))"

fun boot_checksum_loop :: "nat \<Rightarrow> byte list \<Rightarrow> u32 \<Rightarrow> u32" where
  "boot_checksum_loop (Suc size1) (a # b # bs) sm = boot_checksum_loop size1 bs (sm + load16 a b)"
| "boot_checksum_loop size1 bs sm = sm"

definition boot_checksum :: "byte list \<Rightarrow> u16" where
  "boot_checksum src =
     (let len = length src;
          sm = (if len \<noteq> 0 then
                  let sm = boot_checksum_loop (len div 2) src 0
                  in if odd len then sm + ucast (src ! (len - 1)) else sm
                else 0);
          sm = drop_bit 16 sm + (sm AND 0xFFFF);
          sm = sm + drop_bit 16 sm
      in ucast (NOT sm))"

section \<open>The table-driven CRC-16\<close>

definition crc16_table :: "u16 list" where
  "crc16_table = [
    0x0000, 0xC0C1, 0xC181, 0x0140, 0xC301, 0x03C0, 0x0280, 0xC241,
    0xC601, 0x06C0, 0x0780, 0xC741, 0x0500, 0xC5C1, 0xC481, 0x0440,
    0xCC01, 0x0CC0, 0x0D80, 0xCD41, 0x0F00, 0xCFC1, 0xCE81, 0x0E40,
    0x0A00, 0xCAC1, 0xCB81, 0x0B40, 0xC901, 0x09C0, 0x0880, 0xC841,
    0xD801, 0x18C0, 0x1980, 0xD941, 0x1B00, 0xDBC1, 0xDA81, 0x1A40,
    0x1E00, 0xDEC1, 0xDF81, 0x1F40, 0xDD01, 0x1DC0, 0x1C80, 0xDC41,
    0x1400, 0xD4C1, 0xD581, 0x1540, 0xD701, 0x17C0, 0x1680, 0xD641,
    0xD201, 0x12C0, 0x1380, 0xD341, 0x1100, 0xD1C1, 0xD081, 0x1040,
    0xF001, 0x30C0, 0x3180, 0xF141, 0x3300, 0xF3C1, 0xF281, 0x3240,
    0x3600, 0xF6C1, 0xF781, 0x3740, 0xF501, 0x35C0, 0x3480, 0xF441,
    0x3C00, 0xFCC1, 0xFD81, 0x3D40, 0xFF01, 0x3FC0, 0x3E80, 0xFE41,
    0xFA01, 0x3AC0, 0x3B80, 0xFB41, 0x3900, 0xF9C1, 0xF881, 0x3840,
    0x2800, 0xE8C1, 0xE981, 0x2940, 0xEB01, 0x2BC0, 0x2A80, 0xEA41,
    0xEE01, 0x2EC0, 0x2F80, 0xEF41, 0x2D00, 0xEDC1, 0xEC81, 0x2C40,
    0xE401, 0x24C0, 0x2580, 0xE541, 0x2700, 0xE7C1, 0xE681, 0x2640,
    0x2200, 0xE2C1, 0xE381, 0x2340, 0xE101, 0x21C0, 0x2080, 0xE041,
    0xA001, 0x60C0, 0x6180, 0xA141, 0x6300, 0xA3C1, 0xA281, 0x6240,
    0x6600, 0xA6C1, 0xA781, 0x6740, 0xA501, 0x65C0, 0x6480, 0xA441,
    0x6C00, 0xACC1, 0xAD81, 0x6D40, 0xAF01, 0x6FC0, 0x6E80, 0xAE41,
    0xAA01, 0x6AC0, 0x6B80, 0xAB41, 0x6900, 0xA9C1, 0xA881, 0x6840,
    0x7800, 0xB8C1, 0xB981, 0x7940, 0xBB01, 0x7BC0, 0x7A80, 0xBA41,
    0xBE01, 0x7EC0, 0x7F80, 0xBF41, 0x7D00, 0xBDC1, 0xBC81, 0x7C40,
    0xB401, 0x74C0, 0x7580, 0xB541, 0x7700, 0xB7C1, 0xB681, 0x7640,
    0x7200, 0xB2C1, 0xB381, 0x7340, 0xB101, 0x71C0, 0x7080, 0xB041,
    0x5000, 0x90C1, 0x9181, 0x5140, 0x9301, 0x53C0, 0x5280, 0x9241,
    0x9601, 0x56C0, 0x5780, 0x9741, 0x5500, 0x95C1, 0x9481, 0x5440,
    0x9C01, 0x5CC0, 0x5D80, 0x9D41, 0x5F00, 0x9FC1, 0x9E81, 0x5E40,
    0x5A00, 0x9AC1, 0x9B81, 0x5B40, 0x9901, 0x59C0, 0x5880, 0x9841,
    0x8801, 0x48C0, 0x4980, 0x8941, 0x4B00, 0x8BC1, 0x8A81, 0x4A40,
    0x4E00, 0x8EC1, 0x8F81, 0x4F40, 0x8D01, 0x4DC0, 0x4C80, 0x8C41,
    0x4400, 0x84C1, 0x8581, 0x4540, 0x8701, 0x47C0, 0x4680, 0x8641,
    0x8201, 0x42C0, 0x4380, 0x8341, 0x4100, 0x81C1, 0x8081, 0x4040]"

fun calculate_crc :: "u16 \<Rightarrow> byte list \<Rightarrow> u16" where
  "calculate_crc crc [] = crc"
| "calculate_crc crc (b # bs) =
     calculate_crc (drop_bit 8 crc XOR crc16_table ! unat ((crc XOR ucast b) AND 0xff)) bs"

section \<open>The bitwise CRC as a linear shift register\<close>

definition crc_shl :: "u16 \<Rightarrow> u16" where
  "crc_shl x = (if bit x 15 then push_bit 1 x XOR 0x1021 else push_bit 1 x)"

definition crc_in :: "u16 \<Rightarrow> bool \<Rightarrow> u16" where
  "crc_in s c = crc_shl (s XOR (if c then 0x8000 else 0))"

lemma bit_double16: "bit (x * 2 :: u16) n = (n < 16 \<and> 0 < n \<and> bit x (n - 1))"
proof -
  have "x * 2 = push_bit 1 x" by (simp add: push_bit_eq_mult)
  then show ?thesis by (simp only: bit_simps) auto
qed

lemma bit_double8: "bit (x * 2 :: byte) n = (n < 8 \<and> 0 < n \<and> bit x (n - 1))"
proof -
  have "x * 2 = push_bit 1 x" by (simp add: push_bit_eq_mult)
  then show ?thesis by (simp only: bit_simps) auto
qed

lemma push_bit_xor_16: "push_bit n (x XOR y) = push_bit n x XOR (push_bit n y :: u16)"
  by (rule bit_word_eqI) (auto simp: bit_simps)

lemma crc_shl_xor: "crc_shl (x XOR y) = crc_shl x XOR crc_shl y"
  unfolding crc_shl_def push_bit_xor_16 bit_xor_iff
  by (auto simp: xor.assoc xor.left_commute xor.commute)

lemma crc_shl_consts: "crc_shl 0x8000 = 0x1021" "crc_shl 0 = 0"
  by (simp_all add: crc_shl_def bit_numeral_rec push_bit_eq_mult)

lemma crc_in_xor: "crc_in s c = crc_shl s XOR (if c then 0x1021 else 0)"
  by (simp add: crc_in_def crc_shl_xor crc_shl_consts)

lemma crc_shl_eq_0:
  assumes "crc_shl x = 0"
  shows "x = 0"
proof -
  have "\<not> bit x 15"
  proof
    assume "bit x 15"
    then have "push_bit 1 x XOR 0x1021 = 0" using assms by (simp only: crc_shl_def if_True)
    then have "bit (push_bit 1 x XOR 0x1021) 0 = False" by simp
    then show False by (simp add: bit_xor_iff bit_double16)
  qed
  moreover from this have "push_bit 1 x = 0" using assms by (simp only: crc_shl_def if_False)
  then have "bit (push_bit 1 x) (Suc n) = False" for n by simp
  then have "bit x n = False" if "n < 15" for n
    using that by (simp add: bit_double16)
  ultimately have "bit x n = False" if "n < 16" for n
    using that by (cases "n = 15") auto
  then show ?thesis by (intro bit_word_eqI) simp
qed

lemma xor_eq_0_16: "x XOR y = 0 \<Longrightarrow> x = (y :: u16)"
proof (rule bit_word_eqI)
  fix n
  assume "x XOR y = 0"
  then have "bit (x XOR y) n = False" by simp
  then show "bit x n = bit y n" by (simp only: bit_xor_iff) blast
qed

lemma crc_shl_inj:
  assumes "crc_shl x = crc_shl y"
  shows "x = y"
proof -
  have "crc_shl (x XOR y) = 0" using assms by (simp add: crc_shl_xor)
  then show ?thesis by (rule xor_eq_0_16 [OF crc_shl_eq_0])
qed

lemma push_byte:
  "push_bit 1 (push_bit 8 (ucast (b :: byte)) :: u16) = push_bit 8 (ucast (push_bit 1 b))"
  "bit (push_bit 8 (ucast (b :: byte)) :: u16) 15 = bit b 7"
proof -
  show "bit (push_bit 8 (ucast b) :: u16) 15 = bit b 7" by (simp add: bit_simps)
  show "push_bit 1 (push_bit 8 (ucast b) :: u16) = push_bit 8 (ucast (push_bit 1 b))"
  proof (rule bit_word_eqI)
    fix n
    assume "n < LENGTH(16)"
    then have "n < 16" by simp
    then show "bit (push_bit 1 (push_bit 8 (ucast b) :: u16)) n = bit (push_bit 8 (ucast (push_bit 1 b)) :: u16) n"
      by (simp only: bit_push_bit_iff bit_unsigned_iff possible_bit_word) (auto simp: diff_diff_eq)
  qed
qed

lemma crc_shl_byte:
  "crc_shl (s XOR push_bit 8 (ucast (b :: byte))) = crc_in s (bit b 7) XOR push_bit 8 (ucast (push_bit 1 b))"
proof -
  have "crc_shl (push_bit 8 (ucast b)) = (if bit b 7 then 0x1021 else 0) XOR push_bit 8 (ucast (push_bit 1 b))"
    unfolding crc_shl_def push_byte by (simp add: xor.commute)
  then show ?thesis unfolding crc_shl_xor crc_in_xor by (simp add: xor.assoc)
qed

lemma crc_bits_step:
  assumes "k < 8"
  shows "crc_16_l_bits s b (2 ^ k) = crc_16_l_bits (crc_in s (bit b k)) b (drop_bit 1 (2 ^ k))"
proof -
  have "(2 :: byte) ^ k \<noteq> 0" using assms by (simp add: exp_eq_zero_iff)
  moreover have "(s AND CRC_16_L_POLYNOMIAL \<noteq> 0) = bit s 15"
    using and_exp_eq_0_iff_not_bit [of s 15] by (simp add: CRC_16_L_POLYNOMIAL_def)
  moreover have "(b AND 2 ^ k \<noteq> 0) = bit b k"
    using and_exp_eq_0_iff_not_bit [of b k] by simp
  ultimately show ?thesis
    by (subst crc_16_l_bits.simps) (simp only: Let_def crc_in_xor crc_shl_def CRC_16_POLYNOMIAL_def
        if_False simp_thms if_True xor.right_neutral split: if_split, blast)
qed

lemma crc_bits_fold:
  assumes "k < 8"
  shows "crc_16_l_bits s b (2 ^ k) = foldl crc_in s (map (bit b) (rev [0..<Suc k]))"
  using assms
proof (induction k arbitrary: s)
  case 0
  have "crc_16_l_bits t b 0 = t" for t by (subst crc_16_l_bits.simps) simp
  then show ?case using crc_bits_step [of 0 s b] by simp
next
  case (Suc k)
  have "drop_bit 1 (2 ^ Suc k :: byte) = 2 ^ k"
    by (rule bit_word_eqI) (use Suc.prems in \<open>auto simp: bit_drop_bit_eq bit_exp_iff simp del: power_Suc\<close>)
  then show ?case using crc_bits_step [of "Suc k" s b] Suc by simp
qed

lemma crc_shl_iterate:
  assumes "k \<le> 8"
  shows "(crc_shl ^^ k) (s XOR push_bit 8 (ucast (b :: byte))) =
    foldl crc_in s (map (\<lambda>j. bit b (7 - j)) [0..<k]) XOR push_bit 8 (ucast (push_bit k b))"
  using assms
proof (induction k)
  case (Suc k)
  have "bit (push_bit k b) 7 = bit b (7 - k)"
    using Suc.prems by (simp only: bit_push_bit_iff possible_bit_word) simp
  moreover have "push_bit 1 (push_bit k b) = push_bit (Suc k) b" by (simp only: push_bit_push_bit) simp
  moreover have "(crc_shl ^^ Suc k) x = crc_shl ((crc_shl ^^ k) x)" for x by simp
  ultimately show ?case
    using Suc crc_shl_byte [of _ "push_bit k b"] by (simp only: upt_Suc_append map_append foldl_append) simp
qed simp

text \<open>One byte enters the upper half of the register, which is then shifted eight times.\<close>

lemma crc_byte: "crc_16_l_bits s b CRC_16_L_SEED = (crc_shl ^^ 8) (s XOR push_bit 8 (ucast b))"
proof -
  have "push_bit 8 b = 0" by (rule bit_word_eqI) (simp only: bit_push_bit_iff possible_bit_word bit_0_eq, simp)
  moreover have "CRC_16_L_SEED = 2 ^ 7" by (simp add: CRC_16_L_SEED_def)
  moreover have "map (\<lambda>j. bit b (7 - j)) [0..<8] = map (bit b) (rev [0..<Suc 7])"
    by (simp add: upt_rec numeral_eq_Suc)
  ultimately show ?thesis
    using crc_bits_fold [of 7 s b] crc_shl_iterate [of 8 s b] by simp
qed

lemma crc_shl8_inj: "(crc_shl ^^ n) x = (crc_shl ^^ n) y \<Longrightarrow> x = y"
proof (induction n)
  case (Suc n)
  then show ?case using crc_shl_inj [of "(crc_shl ^^ n) x" "(crc_shl ^^ n) y"] by simp
qed simp

lemma crc_shl8_low: "(crc_shl ^^ 8) (ucast (b :: byte)) = push_bit 8 (ucast b)"
proof -
  have "(crc_shl ^^ k) (ucast b) = push_bit k (ucast b)" if "k \<le> 8" for k
    using that
  proof (induction k)
    case (Suc k)
    have "\<not> bit (push_bit k (ucast b :: u16)) 15"
      using Suc.prems by (simp only: bit_push_bit_iff bit_unsigned_iff possible_bit_word)
        (auto dest: bit_imp_le_length)
    then have "crc_shl (push_bit k (ucast b)) = push_bit 1 (push_bit k (ucast b))"
      by (simp only: crc_shl_def if_False)
    then show ?case using Suc by (simp only: funpow.simps comp_def push_bit_push_bit) simp
  qed simp
  then show ?thesis by blast
qed

lemma crc_shl8_xor: "(crc_shl ^^ n) (x XOR y) = (crc_shl ^^ n) x XOR (crc_shl ^^ n) y"
  by (induction n) (simp_all add: crc_shl_xor)

lemma crc_two_bytes:
  "crc_16_l_loop s [a, b] = (crc_shl ^^ 8) ((crc_shl ^^ 8) (s XOR (push_bit 8 (ucast a) XOR ucast b)))"
  by (simp only: crc_16_l_loop.simps crc_byte crc_shl8_xor crc_shl8_low xor.assoc)

lemma two_bytes_inj:
  assumes "push_bit 8 (ucast (a :: byte)) XOR ucast (b :: byte) = (push_bit 8 (ucast a') XOR ucast b' :: u16)"
  shows "a = a'" "b = b'"
proof -
  have bits: "bit (push_bit 8 (ucast a) XOR ucast b :: u16) n = (if n < 8 then bit b n else n < 16 \<and> bit a (n - 8))"
    for a b :: byte and n
    by (simp only: bit_xor_iff bit_push_bit_iff bit_unsigned_iff possible_bit_word)
      (auto dest: bit_imp_le_length)
  have eq: "(if n < 8 then bit b n else n < 16 \<and> bit a (n - 8)) = (if n < 8 then bit b' n else n < 16 \<and> bit a' (n - 8))"
    for n
    using arg_cong [OF assms, of "\<lambda>w. bit w n"] unfolding bits .
  have "bit a n = bit a' n" "bit b n = bit b' n" if "n < 8" for n
    using that eq [of "n + 8"] eq [of n] by simp_all
  then show "a = a'" "b = b'" by (auto intro: bit_word_eqI)
qed

lemma crc_loop_inj: "crc_16_l_loop s bs = crc_16_l_loop t bs \<Longrightarrow> s = t"
proof (induction bs arbitrary: s t)
  case (Cons b bs)
  then have "crc_16_l_bits s b CRC_16_L_SEED = crc_16_l_bits t b CRC_16_L_SEED" by simp
  then have "s XOR push_bit 8 (ucast b) = t XOR push_bit 8 (ucast b)"
    using crc_shl8_inj by (simp only: crc_byte)
  then have "(s XOR push_bit 8 (ucast b)) XOR push_bit 8 (ucast b) = (t XOR push_bit 8 (ucast b)) XOR push_bit 8 (ucast b)"
    by (simp only:)
  then show ?case by (simp only: xor.assoc xor_self_eq xor.right_neutral)
qed simp

lemma crc_loop_append: "crc_16_l_loop s (as @ bs) = crc_16_l_loop (crc_16_l_loop s as) bs"
  by (induction as arbitrary: s) simp_all

lemma crc_pair_differs:
  assumes "(a, b) \<noteq> (a', b')"
  shows "crc_16_l_loop s (p @ [a, b] @ q) \<noteq> crc_16_l_loop s (p @ [a', b'] @ q)"
proof
  assume "crc_16_l_loop s (p @ [a, b] @ q) = crc_16_l_loop s (p @ [a', b'] @ q)"
  then have "crc_16_l_loop (crc_16_l_loop s p) [a, b] = crc_16_l_loop (crc_16_l_loop s p) [a', b']"
    using crc_loop_inj by (simp only: crc_loop_append)
  then have "crc_16_l_loop s p XOR (push_bit 8 (ucast a) XOR ucast b)
      = crc_16_l_loop s p XOR (push_bit 8 (ucast a') XOR ucast b')"
    unfolding crc_two_bytes using crc_shl8_inj by blast
  then have "crc_16_l_loop s p XOR (crc_16_l_loop s p XOR (push_bit 8 (ucast a) XOR ucast b))
      = crc_16_l_loop s p XOR (crc_16_l_loop s p XOR (push_bit 8 (ucast a') XOR ucast b'))"
    by (simp only:)
  then have "push_bit 8 (ucast a) XOR ucast b = (push_bit 8 (ucast a') XOR ucast b' :: u16)"
    by (simp only: xor.assoc [symmetric] xor_self_eq xor.left_neutral)
  then show False using two_bytes_inj assms by blast
qed

section \<open>The sums agree\<close>

lemma checksum_loop_step: "checksum_loop (a # b # bs) s = checksum_loop bs (s + load16 a b)"
  by (simp add: load16_def Let_def)

lemma frm_chk_loop_eq: "frm_chk_loop bs s = checksum_loop bs s"
  by (induction bs s rule: frm_chk_loop.induct) (simp_all only: frm_chk_loop.simps checksum_loop_step checksum_loop.simps)

lemma boot_checksum_loop_eq:
  "(if odd (length bs) then boot_checksum_loop (length bs div 2) bs s + ucast (bs ! (length bs - 1))
    else boot_checksum_loop (length bs div 2) bs s) = checksum_loop bs s"
proof (induction bs s rule: checksum_loop.induct)
  case (1 a b bs s)
  have "(a # b # bs) ! (length (a # b # bs) - 1) = bs ! (length bs - 1)" if "odd (length bs)"
    using that by (cases bs) simp_all
  then show ?case using 1 [OF refl refl] by (auto simp: load16_def Let_def split: if_splits)
qed simp_all

section \<open>The table\<close>

text \<open>The CRC-16 as its comment defines it: polynomial 0x8005, bits reflected.\<close>

definition crc16_shr :: "u16 \<Rightarrow> u16" where
  "crc16_shr x = (if bit x 0 then drop_bit 1 x XOR 0xA001 else drop_bit 1 x)"

fun crc16_ref :: "u16 \<Rightarrow> byte list \<Rightarrow> u16" where
  "crc16_ref crc [] = crc"
| "crc16_ref crc (b # bs) = crc16_ref ((crc16_shr ^^ 8) (crc XOR ucast b)) bs"

lemma crc16_shr_xor: "crc16_shr (x XOR y) = crc16_shr x XOR crc16_shr y"
proof -
  have "drop_bit 1 (x XOR y) = drop_bit 1 x XOR drop_bit 1 y"
    by (rule bit_word_eqI) (simp only: bit_drop_bit_eq bit_xor_iff comp_def)
  then show ?thesis unfolding crc16_shr_def bit_xor_iff
    by (auto simp: xor.assoc xor.left_commute xor.commute)
qed

lemma crc16_shr8:
  "(crc16_shr ^^ 8) x = crc16_shr (crc16_shr (crc16_shr (crc16_shr (crc16_shr (crc16_shr (crc16_shr (crc16_shr x)))))))"
  by (simp add: numeral_eq_Suc)

fun xor_table :: "u16 list \<Rightarrow> u16 list" where
  "xor_table [] = [0]"
| "xor_table (a # as) = xor_table as @ map (\<lambda>x. a XOR x) (xor_table as)"

lemma length_xor_table [simp]: "length (xor_table as) = 2 ^ length as"
  by (induction as) simp_all

lemma exp_plus_xor:
  assumes "j < 2 ^ n" "n < 16"
  shows "of_nat (2 ^ n + j) = (2 ^ n XOR of_nat j :: u16)"
proof -
  have "\<not> bit j n" using assms(1) by (simp add: bit_iff_odd)
  then have "of_nat j AND 2 ^ n = (0 :: u16)"
    unfolding and_exp_eq_0_iff_not_bit by (simp add: bit_simps)
  then have "2 ^ n + of_nat j = (2 ^ n XOR of_nat j :: u16)"
    by (intro disjunctive_add_eq_xor) (simp add: and.commute)
  then show ?thesis by simp
qed

text \<open>A linear function is determined by its values on the powers of two.\<close>

lemma xor_table_linear:
  fixes F :: "u16 \<Rightarrow> u16"
  assumes "\<And>x y. F (x XOR y) = F x XOR F y" "n \<le> 16" "i < 2 ^ n"
  shows "xor_table (map (\<lambda>k. F (2 ^ k)) (rev [0..<n])) ! i = F (of_nat i)"
  using assms(2,3)
proof (induction n arbitrary: i)
  case 0
  have "F 0 = F 0 XOR F 0" using assms(1) [of 0 0] by simp
  then have "F 0 = 0" by simp
  then show ?case using 0 by simp
next
  case (Suc n)
  let ?t = "xor_table (map (\<lambda>k. F (2 ^ k)) (rev [0..<n]))"
  have t: "xor_table (map (\<lambda>k. F (2 ^ k)) (rev [0..<Suc n])) = ?t @ map (\<lambda>x. F (2 ^ n) XOR x) ?t"
    by simp
  show ?case
  proof (cases "i < 2 ^ n")
    case True
    then show ?thesis unfolding t using Suc by (simp add: nth_append)
  next
    case False
    then obtain j where j: "i = 2 ^ n + j" "j < 2 ^ n"
      using Suc.prems(2) by (metis add_less_cancel_left le_Suc_ex mult_2 not_le power_Suc)
    have "F (of_nat i) = F (2 ^ n) XOR F (of_nat j)"
      unfolding j(1) using exp_plus_xor [OF j(2)] Suc.prems(1) assms(1) by simp
    then show ?thesis unfolding t using j Suc by (simp add: nth_append)
  qed
qed

lemma crc16_table_xor:
  "crc16_table = xor_table [0xA001, 0xF001, 0xD801, 0xCC01, 0xC601, 0xC301, 0xC181, 0xC0C1]"
  by (simp add: crc16_table_def)

lemma crc16_shr8_xor: "(crc16_shr ^^ n) (x XOR y) = (crc16_shr ^^ n) x XOR (crc16_shr ^^ n) y"
  by (induction n) (simp_all add: crc16_shr_xor)

lemma crc16_table_powers:
  "map (\<lambda>k. (crc16_shr ^^ 8) (2 ^ k)) (rev [0..<8])
    = [0xA001, 0xF001, 0xD801, 0xCC01, 0xC601, 0xC301, 0xC181, 0xC0C1]"
proof -
  have "rev [0..<8] = [7, 6, 5, 4, 3, 2, 1, 0 :: nat]" by (simp add: upt_rec)
  then show ?thesis by (simp add: crc16_shr8 crc16_shr_def)
qed

lemma crc16_table_nth: "i < 256 \<Longrightarrow> crc16_table ! i = (crc16_shr ^^ 8) (of_nat i)"
  using xor_table_linear [of "crc16_shr ^^ 8" 8 i, OF crc16_shr8_xor]
  unfolding crc16_table_powers crc16_table_xor by simp

lemma crc16_shr8_high: "(crc16_shr ^^ 8) (x AND 0xFF00) = drop_bit 8 x"
proof -
  have hi: "bit (0xFF00 :: u16) n = (8 \<le> n \<and> n < 16)" for n
  proof -
    have "(0xFF00 :: u16) = push_bit 8 (mask 8)" by (simp add: push_bit_eq_mult mask_eq_exp_minus_1)
    then show ?thesis by (simp only: bit_push_bit_iff bit_mask_iff possible_bit_word) auto
  qed
  have "(crc16_shr ^^ k) (x AND 0xFF00) = drop_bit k (x AND 0xFF00)" if "k \<le> 8" for k
    using that
  proof (induction k)
    case (Suc k)
    have "\<not> bit (drop_bit k (x AND 0xFF00)) 0"
      using Suc.prems by (simp only: bit_drop_bit_eq bit_and_iff comp_def hi) simp
    then have "crc16_shr (drop_bit k (x AND 0xFF00)) = drop_bit 1 (drop_bit k (x AND 0xFF00))"
      by (simp only: crc16_shr_def if_False)
    then show ?case using Suc by (simp only: funpow.simps comp_def drop_bit_drop_bit) simp
  qed simp
  moreover have "drop_bit 8 (x AND 0xFF00) = drop_bit 8 x"
    by (rule bit_word_eqI) (simp only: bit_drop_bit_eq bit_and_iff comp_def hi, auto dest: bit_imp_le_length)
  ultimately show ?thesis by simp
qed

lemma crc16_shr8_split: "(crc16_shr ^^ 8) x = drop_bit 8 x XOR (crc16_shr ^^ 8) (x AND 0xFF)"
proof -
  have "(x AND 0xFF00) XOR (x AND 0xFF) = (x AND (0xFF00 XOR 0xFF))"
    by (rule bit_word_eqI) (simp only: bit_xor_iff bit_and_iff, blast)
  also have "0xFF00 XOR 0xFF = (- 1 :: u16)" by code_simp
  also have "x AND - 1 = x" by (simp only: and.right_neutral)
  finally show ?thesis using crc16_shr8_xor [of 8 "x AND 0xFF00" "x AND 0xFF"] by (simp only: crc16_shr8_high)
qed

lemma drop_bit_low_byte: "drop_bit 8 (crc XOR ucast (b :: byte)) = drop_bit 8 (crc :: u16)"
  by (rule bit_word_eqI)
    (simp only: bit_drop_bit_eq bit_xor_iff comp_def bit_unsigned_iff, auto dest: bit_imp_le_length)

lemma table_index: "unat (x AND 0xff :: u16) < 256"
proof -
  have "x AND 0xff = take_bit 8 x" by (simp add: take_bit_eq_mask mask_eq_exp_minus_1)
  then have "unat (x AND 0xff) = take_bit 8 (unat x)" by (simp only: unsigned_take_bit_eq)
  then show ?thesis by (simp add: take_bit_eq_mod)
qed

lemma calculate_crc_step:
  "drop_bit 8 crc XOR crc16_table ! unat ((crc XOR ucast (b :: byte)) AND 0xff) = (crc16_shr ^^ 8) (crc XOR ucast b)"
  unfolding crc16_shr8_split [of "crc XOR ucast b"] drop_bit_low_byte
  by (simp only: crc16_table_nth [OF table_index] of_nat_unat ucast_id)

lemma boot_checksum_sum: "boot_checksum bs = ones_fold (checksum_loop bs 0)"
proof (cases "bs = []")
  case False
  have "boot_checksum bs = ones_fold (if odd (length bs)
      then boot_checksum_loop (length bs div 2) bs 0 + ucast (bs ! (length bs - 1))
      else boot_checksum_loop (length bs div 2) bs 0)"
    using False unfolding boot_checksum_def ones_fold_def Let_def by simp
  then show ?thesis by (simp only: boot_checksum_loop_eq)
qed (simp add: boot_checksum_def ones_fold_def)

lemma frm_chk_sum: "frm_chk bs = ones_fold (checksum_loop bs 0)"
  by (simp add: frm_chk_def frm_chk_loop_eq ones_fold_def Let_def)

section \<open>The checksums of the download protocol\<close>

text \<open>C26. The table-driven \<open>calculate_crc\<close> computes the reflected CRC-16 of polynomial 0x8005
  that the comment above \<open>crc16_table\<close> names, bit by bit, for every previous value and every
  buffer: all 256 entries of the table are the right ones.\<close>

theorem calculate_crc_reference: "calculate_crc crc bs = crc16_ref crc bs"
  by (induction bs arbitrary: crc) (simp_all only: calculate_crc.simps crc16_ref.simps calculate_crc_step)

text \<open>The three one's complement sums of the repository are the same function: the unrolled
  \<open>frm_chk\<close>, the \<open>boot_checksum\<close> of the modem boot protocol and the \<open>calc_Checksum\<close> of the NV
  daemon, on buffers of every length, odd ones included.\<close>

theorem checksums_agree: "frm_chk bs = calc_Checksum bs \<and> boot_checksum bs = calc_Checksum bs"
  by (simp only: frm_chk_sum boot_checksum_sum calc_Checksum_def simp_thms)

text \<open>C27. The frame CRC \<open>crc_16_l_calc\<close> detects every corruption confined to two neighbouring
  bytes, wherever they are in the buffer: the CRC of the corrupted buffer differs.\<close>

theorem crc_16_l_calc_detects_burst:
  assumes "(a, b) \<noteq> (a', b')"
  shows "crc_16_l_calc (p @ [a, b] @ q) \<noteq> crc_16_l_calc (p @ [a', b'] @ q)"
  unfolding crc_16_l_calc_def using crc_pair_differs [OF assms] .

theorem crc_16_l_calc_detects_burst_witness:
  "crc_16_l_calc ([1] @ [2, 3] @ [4]) \<noteq> crc_16_l_calc ([1] @ [0x12, 0xF3] @ [4])"
  by (rule crc_16_l_calc_detects_burst) simp

end
