(* ===== verification/FdlPacket.thy ===== *)
theory FdlPacket
  imports FdlCrc
begin

text \<open>
  The frames of the modem download protocol: the packet types of
  \<^verbatim>\<open>src/apps/modem_control/cmd_def.h\<close> and the framing half of
  \<^verbatim>\<open>src/apps/modem_control/packet.c\<close> (\<open>translate_packet\<close>, \<open>untranslate_packet\<close>,
  \<open>setup_packet\<close>).  A C buffer is its byte list, a store outside it gives \<^term>\<open>None\<close>; the
  source block of a translation is the list of its \<open>size\<close> bytes.
\<close>

section \<open>Packet types\<close>

datatype CMD_TYPE =
    BSL_CMD_CONNECT | BSL_CMD_START_DATA | BSL_CMD_MIDST_DATA | BSL_CMD_END_DATA
  | BSL_CMD_EXEC_DATA | BSL_CMD_NORMAL_RESET | BSL_CMD_READ_FLASH | BSL_CMD_READ_CHIP_TYPE
  | BSL_CMD_LOOKUP_NVITEM | BSL_SET_BAUDRATE | BSL_ERASE_FLASH | BSL_REPARTITION
  | BSL_CMD_SWITCH_MODE | BSL_CMD_TYPE_MAX
  | BSL_REP_ACK | BSL_REP_VER | BSL_REP_INVALID_CMD | BSL_REP_UNKNOW_CMD
  | BSL_REP_OPERATION_FAILED | BSL_REP_NOT_SUPPORT_BAUDRATE
  | BSL_REP_DOWN_NOT_START | BSL_REP_DOWN_MULTI_START | BSL_REP_DOWN_EARLY_END
  | BSL_REP_DOWN_DEST_ERROR | BSL_REP_DOWN_SIZE_ERROR | BSL_REP_VERIFY_ERROR
  | BSL_REP_NOT_VERIFY | BSL_PHONE_NOT_ENOUGH_MEMORY | BSL_PHONE_WAIT_INPUT_TIMEOUT
  | BSL_PHONE_SUCCEED | BSL_PHONE_VALID_BAUDRATE | BSL_PHONE_REPEAT_CONTINUE
  | BSL_PHONE_REPEAT_BREAK | BSL_REP_READ_FLASH | BSL_REP_READ_CHIP_TYPE
  | BSL_REP_LOOKUP_NVITEM | BSL_INCOMPATIBLE_PARTITION | BSL_UNKNOWN_DEVICE
  | BSL_INVALID_DEVICE_SIZE | BSL_ILLEGAL_SDRAM | BSL_WRONG_SDRAM_PARAMETER
  | BSL_EEROR_CHECKSUM | BSL_CHECKSUM_DIFF | BSL_WRITE_ERROR | BSL_PKT_TYPE_MAX

text \<open>The value the compiler gives each enumerator.\<close>

fun cmd_code :: "CMD_TYPE \<Rightarrow> u16" where
  "cmd_code BSL_CMD_CONNECT = 0x00"
| "cmd_code BSL_CMD_START_DATA = 0x01"
| "cmd_code BSL_CMD_MIDST_DATA = 0x02"
| "cmd_code BSL_CMD_END_DATA = 0x03"
| "cmd_code BSL_CMD_EXEC_DATA = 0x04"
| "cmd_code BSL_CMD_NORMAL_RESET = 0x05"
| "cmd_code BSL_CMD_READ_FLASH = 0x06"
| "cmd_code BSL_CMD_READ_CHIP_TYPE = 0x07"
| "cmd_code BSL_CMD_LOOKUP_NVITEM = 0x08"
| "cmd_code BSL_SET_BAUDRATE = 0x09"
| "cmd_code BSL_ERASE_FLASH = 0x0A"
| "cmd_code BSL_REPARTITION = 0x0B"
| "cmd_code BSL_CMD_SWITCH_MODE = 0x0D"
| "cmd_code BSL_CMD_TYPE_MAX = 0x0E"
| "cmd_code BSL_REP_ACK = 0x80"
| "cmd_code BSL_REP_VER = 0x81"
| "cmd_code BSL_REP_INVALID_CMD = 0x82"
| "cmd_code BSL_REP_UNKNOW_CMD = 0x83"
| "cmd_code BSL_REP_OPERATION_FAILED = 0x84"
| "cmd_code BSL_REP_NOT_SUPPORT_BAUDRATE = 0x85"
| "cmd_code BSL_REP_DOWN_NOT_START = 0x86"
| "cmd_code BSL_REP_DOWN_MULTI_START = 0x87"
| "cmd_code BSL_REP_DOWN_EARLY_END = 0x88"
| "cmd_code BSL_REP_DOWN_DEST_ERROR = 0x89"
| "cmd_code BSL_REP_DOWN_SIZE_ERROR = 0x8A"
| "cmd_code BSL_REP_VERIFY_ERROR = 0x8B"
| "cmd_code BSL_REP_NOT_VERIFY = 0x8C"
| "cmd_code BSL_PHONE_NOT_ENOUGH_MEMORY = 0x8D"
| "cmd_code BSL_PHONE_WAIT_INPUT_TIMEOUT = 0x8E"
| "cmd_code BSL_PHONE_SUCCEED = 0x8F"
| "cmd_code BSL_PHONE_VALID_BAUDRATE = 0x90"
| "cmd_code BSL_PHONE_REPEAT_CONTINUE = 0x91"
| "cmd_code BSL_PHONE_REPEAT_BREAK = 0x92"
| "cmd_code BSL_REP_READ_FLASH = 0x93"
| "cmd_code BSL_REP_READ_CHIP_TYPE = 0x94"
| "cmd_code BSL_REP_LOOKUP_NVITEM = 0x95"
| "cmd_code BSL_INCOMPATIBLE_PARTITION = 0x96"
| "cmd_code BSL_UNKNOWN_DEVICE = 0x97"
| "cmd_code BSL_INVALID_DEVICE_SIZE = 0x98"
| "cmd_code BSL_ILLEGAL_SDRAM = 0x99"
| "cmd_code BSL_WRONG_SDRAM_PARAMETER = 0x9A"
| "cmd_code BSL_EEROR_CHECKSUM = 0xA0"
| "cmd_code BSL_CHECKSUM_DIFF = 0xA1"
| "cmd_code BSL_WRITE_ERROR = 0xA2"
| "cmd_code BSL_PKT_TYPE_MAX = 0xA3"

section \<open>Byte order\<close>

definition cpu2be16 :: "u16 \<Rightarrow> u16" where
  "cpu2be16 wValue = push_bit 8 (wValue AND 0xFF) OR (drop_bit 8 wValue AND 0xFF)"

definition cpu2be32 :: "u32 \<Rightarrow> u32" where
  "cpu2be32 dwValue = push_bit 24 (dwValue AND 0xFF) OR push_bit 16 (drop_bit 8 dwValue AND 0xFF)
     OR push_bit 8 (drop_bit 16 dwValue AND 0xFF) OR drop_bit 24 dwValue"

text \<open>The same macro on an \<open>int\<close> operand: its last shift is arithmetic.\<close>

definition cpu2be32_int :: "u32 \<Rightarrow> u32" where
  "cpu2be32_int dwValue = push_bit 24 (dwValue AND 0xFF)
     OR push_bit 16 (signed_drop_bit 8 dwValue AND 0xFF)
     OR push_bit 8 (signed_drop_bit 16 dwValue AND 0xFF) OR signed_drop_bit 24 dwValue"

section \<open>Escaping\<close>

definition HDLC_FLAG :: byte where "HDLC_FLAG = 0x7E"
definition HDLC_ESCAPE :: byte where "HDLC_ESCAPE = 0x7D"
definition CRC_16_L_OK :: u16 where "CRC_16_L_OK = 0x00"

definition put_byte :: "byte list \<Rightarrow> nat \<Rightarrow> byte \<Rightarrow> byte list option" where
  "put_byte dest i b = (if i < length dest then Some (dest[i := b]) else None)"

fun translate_loop :: "byte list \<Rightarrow> nat \<Rightarrow> byte list \<Rightarrow> (byte list \<times> nat) option" where
  "translate_loop dest translated_size [] = Some (dest, translated_size)"
| "translate_loop dest translated_size (b # src) =
     (if b = 0x7E then do {
        dest \<leftarrow> put_byte dest translated_size 0x7D;
        dest \<leftarrow> put_byte dest (translated_size + 1) 0x5E;
        translate_loop dest (translated_size + 2) src }
      else if b = 0x7D then do {
        dest \<leftarrow> put_byte dest translated_size 0x7D;
        dest \<leftarrow> put_byte dest (translated_size + 1) 0x5D;
        translate_loop dest (translated_size + 2) src }
      else do {
        dest \<leftarrow> put_byte dest translated_size b;
        translate_loop dest (translated_size + 1) src })"

definition translate_packet :: "byte list \<Rightarrow> byte list \<Rightarrow> (byte list \<times> nat) option" where
  "translate_packet dest src = do {
     dest \<leftarrow> put_byte dest 0 0x7E;
     (dest, translated_size) \<leftarrow> translate_loop dest 1 src;
     dest \<leftarrow> put_byte dest translated_size 0x7E;
     Some (dest, translated_size + 1) }"

text \<open>
  The scanner.  On the closing flag the code also computes the CRC of the first
  \<open>translated_size - 2\<close> bytes and ignores it; for a single byte that length wraps around to
  4294967295 and the read leaves every object.
\<close>

fun untranslate_loop :: "byte list \<Rightarrow> nat \<Rightarrow> nat \<Rightarrow> byte list \<Rightarrow> (byte list \<times> nat) option" where
  "untranslate_loop dest translated_size status [] = Some (dest, translated_size)"
| "untranslate_loop dest translated_size status (b # src) =
     (if status = 0 then untranslate_loop dest translated_size (if b = 0x7E then 1 else 0) src
      else if status = 1 then
        (if b \<noteq> 0x7E then do {
           dest \<leftarrow> put_byte dest translated_size b;
           untranslate_loop dest (translated_size + 1) 2 src }
         else untranslate_loop dest translated_size status src)
      else if b = 0x7E then
        (if translated_size < 2 then None else Some (dest, translated_size))
      else if dest ! (translated_size - 1) = 0x7D then
        (if b = 0x5E then do {
           dest \<leftarrow> put_byte dest (translated_size - 1) 0x7E;
           untranslate_loop dest translated_size status src }
         else if b = 0x5D then do {
           dest \<leftarrow> put_byte dest (translated_size - 1) 0x7D;
           untranslate_loop dest translated_size status src }
         else untranslate_loop dest translated_size status src)
      else do {
        dest \<leftarrow> put_byte dest translated_size b;
        untranslate_loop dest (translated_size + 1) status src })"

definition untranslate_packet :: "byte list \<Rightarrow> byte list \<Rightarrow> (byte list \<times> nat) option" where
  "untranslate_packet dest src = untranslate_loop dest 0 0 src"

section \<open>Packets\<close>

definition BSL_UART_PACKET :: int where "BSL_UART_PACKET = 0"
definition BSL_SPI_PACKET :: int where "BSL_SPI_PACKET = 1"

definition store16 :: "byte list \<Rightarrow> nat \<Rightarrow> u16 \<Rightarrow> byte list option" where
  "store16 buffer i w = mem_write buffer i (put16 w)"

definition store32 :: "byte list \<Rightarrow> nat \<Rightarrow> u32 \<Rightarrow> byte list option" where
  "store32 buffer i w = mem_write buffer i (put32 w)"

text \<open>\<open>head->type\<close> and \<open>head->length\<close> of the header at \<open>buffer[4]\<close>.\<close>

definition set_head :: "byte list \<Rightarrow> CMD_TYPE \<Rightarrow> nat \<Rightarrow> byte list option" where
  "set_head buffer msg data_size = do {
     buffer \<leftarrow> store16 buffer 4 (cpu2be16 (cmd_code msg));
     store16 buffer 6 (cpu2be16 (of_nat data_size)) }"

text \<open>The serial packet with a CRC, the same four statements for four commands.\<close>

definition crc_packet :: "byte list \<Rightarrow> CMD_TYPE \<Rightarrow> nat \<Rightarrow> (byte list \<times> nat) option" where
  "crc_packet buffer msg data_size = do {
     let len = 4 + data_size;
     buffer \<leftarrow> set_head buffer msg data_size;
     head \<leftarrow> mem_read buffer 4 len;
     let crc16 = crc_16_l_calc head;
     buffer \<leftarrow> store16 buffer (len + 4) (cpu2be16 crc16);
     Some (buffer, len + 2) }"

definition store_checksum :: "byte list \<Rightarrow> nat \<Rightarrow> nat \<Rightarrow> nat \<Rightarrow> byte list option" where
  "store_checksum buffer i offset n = do {
     src \<leftarrow> mem_read buffer offset n;
     store16 buffer i (boot_checksum src) }"

definition setup_packet ::
  "CMD_TYPE \<Rightarrow> byte list \<Rightarrow> nat \<Rightarrow> nat \<Rightarrow> int \<Rightarrow> u32 \<Rightarrow> (byte list \<times> nat) option" where
  "setup_packet msg buffer offset data_size flag image_size =
     (let len = 4 + data_size in
      case msg of
        BSL_CMD_CONNECT \<Rightarrow>
          if flag = BSL_UART_PACKET then do {
            buffer \<leftarrow> set_head buffer msg data_size;
            buffer \<leftarrow> store16 buffer (len + 4) 0;
            Some (buffer, len + 2) }
          else do {
            buffer \<leftarrow> store16 buffer 0 (of_nat data_size);
            buffer \<leftarrow> store16 buffer 2 (cmd_code msg);
            buffer \<leftarrow> store16 buffer 8 0;
            buffer \<leftarrow> store_checksum buffer 4 offset data_size;
            buffer \<leftarrow> store_checksum buffer 6 0 6;
            Some (buffer, 12) }
      | BSL_CMD_START_DATA \<Rightarrow>
          if flag = BSL_UART_PACKET then crc_packet buffer msg data_size
          else do {
            buffer \<leftarrow> store16 buffer 0 (of_nat data_size);
            buffer \<leftarrow> store16 buffer 2 (cmd_code msg);
            buffer \<leftarrow> store_checksum buffer 4 offset data_size;
            buffer \<leftarrow> store_checksum buffer 6 0 6;
            Some (buffer, data_size + 8) }
      | BSL_CMD_MIDST_DATA \<Rightarrow>
          if flag = BSL_UART_PACKET then crc_packet buffer msg data_size
          else do {
            buffer \<leftarrow> store16 buffer 0 (if data_size = 0 then 4 else ucast (image_size AND 0xffff));
            buffer \<leftarrow> store16 buffer 2 (ucast (ucast (cmd_code msg) OR drop_bit 8 (image_size AND 0xff0000)));
            buffer \<leftarrow> store16 buffer 4 0;
            buffer \<leftarrow> store_checksum buffer 6 0 6;
            Some (buffer, data_size + 8) }
      | BSL_CMD_END_DATA \<Rightarrow>
          if flag = BSL_UART_PACKET then crc_packet buffer msg data_size
          else do {
            buffer \<leftarrow> store16 buffer 0 4;
            buffer \<leftarrow> store16 buffer 2 (cmd_code msg);
            buffer \<leftarrow> store_checksum buffer 4 offset data_size;
            buffer \<leftarrow> store_checksum buffer 6 0 6;
            buffer \<leftarrow> store32 buffer 8 0;
            Some (buffer, 12) }
      | BSL_CMD_EXEC_DATA \<Rightarrow>
          if flag = BSL_UART_PACKET then crc_packet buffer msg data_size
          else do {
            buffer \<leftarrow> store16 buffer 0 (of_nat data_size);
            buffer \<leftarrow> store16 buffer 2 (cmd_code msg);
            buffer \<leftarrow> store_checksum buffer 4 offset data_size;
            buffer \<leftarrow> store_checksum buffer 6 0 6;
            Some (buffer, data_size + 8) }
      | BSL_CMD_SWITCH_MODE \<Rightarrow>
          if flag = BSL_UART_PACKET then do {
            buffer \<leftarrow> set_head buffer msg data_size;
            head \<leftarrow> mem_read buffer 4 len;
            buffer \<leftarrow> store16 buffer (len + 4) (frm_chk head);
            Some (buffer, len + 2) }
          else do {
            buffer \<leftarrow> store16 buffer 0 4;
            buffer \<leftarrow> store16 buffer 2 (cmd_code msg);
            buffer \<leftarrow> store_checksum buffer 4 offset data_size;
            buffer \<leftarrow> store_checksum buffer 6 0 6;
            buffer \<leftarrow> store32 buffer 8 0;
            Some (buffer, 12) }
      | _ \<Rightarrow> Some (buffer, 0))"

section \<open>Framing\<close>

text \<open>The format: a flag on both sides, flags and escapes inside replaced by pairs.\<close>

fun escape :: "byte list \<Rightarrow> byte list" where
  "escape [] = []"
| "escape (b # bs) =
     (if b = 0x7E then [0x7D, 0x5E] else if b = 0x7D then [0x7D, 0x5D] else [b]) @ escape bs"

definition frame :: "byte list \<Rightarrow> byte list" where
  "frame bs = 0x7E # escape bs @ [0x7E]"

text \<open>A receiver that undoes the pairs.\<close>

fun unescape :: "byte list \<Rightarrow> byte list" where
  "unescape [] = []"
| "unescape [b] = [b]"
| "unescape (a # b # bs) =
     (if a = 0x7D then (if b = 0x5E then 0x7E else 0x7D) # unescape bs else a # unescape (b # bs))"

lemma put_byte_here: "put_byte (pre @ rest) (length pre) b = (case rest of [] \<Rightarrow> None | _ # rest \<Rightarrow> Some (pre @ b # rest))"
  by (cases rest) (simp_all add: put_byte_def)

lemma put_byte_Suc:
  "put_byte (pre @ a # rest) (Suc (length pre)) b = (case rest of [] \<Rightarrow> None | _ # rest \<Rightarrow> Some (pre @ a # b # rest))"
  using put_byte_here [of "pre @ [a]" rest b] by (cases rest) simp_all

lemma put_byte_outside [simp]: "length dest \<le> i \<Longrightarrow> put_byte dest i b = None"
  by (simp add: put_byte_def)

lemma length_escape: "length bs \<le> length (escape bs)" "length (escape bs) \<le> 2 * length bs"
  by (induction bs) auto

lemma flag_not_escape: "0x7E \<notin> set (escape bs)"
  by (induction bs) auto

lemma translate_loop_escape:
  "translate_loop (pre @ rest) (length pre) src =
     (if length (escape src) \<le> length rest
      then Some (pre @ escape src @ drop (length (escape src)) rest, length pre + length (escape src))
      else None)"
proof (induction src arbitrary: pre rest)
  case (Cons b src)
  show ?case
  proof (cases "b = 0x7E \<or> b = 0x7D")
    case True
    define c :: byte where "c = (if b = 0x7E then 0x5E else 0x5D)"
    have step: "translate_loop (pre @ rest) (length pre) (b # src) = do {
        dest \<leftarrow> put_byte (pre @ rest) (length pre) 0x7D;
        dest \<leftarrow> put_byte dest (length pre + 1) c;
        translate_loop dest (length pre + 2) src }"
      using True by (auto simp: c_def)
    have esc: "escape (b # src) = 0x7D # c # escape src"
      using True by (auto simp: c_def)
    consider "rest = []" | r where "rest = [r]" | r r' rest' where "rest = r # r' # rest'"
      by (metis neq_Nil_conv)
    then show ?thesis
    proof cases
      case 1
      then show ?thesis unfolding step esc by simp
    next
      case (2 r)
      then show ?thesis unfolding step esc by (simp add: put_byte_here)
    next
      case (3 r r' rest')
      then show ?thesis unfolding step esc
        using Cons [of "pre @ [0x7D, c]" rest'] by (simp add: put_byte_here put_byte_Suc)
    qed
  next
    case False
    then show ?thesis
      using Cons [of "pre @ [b]" "tl rest"] by (cases rest) (auto simp: put_byte_here)
  qed
qed simp

lemma translate_packet_frame:
  "translate_packet dest src =
     (if length (frame src) \<le> length dest
      then Some (frame src @ drop (length (frame src)) dest, length (frame src)) else None)"
proof (cases dest)
  case (Cons d dest')
  have "translate_loop (0x7E # dest') 1 src =
      (if length (escape src) \<le> length dest'
       then Some (0x7E # escape src @ drop (length (escape src)) dest', 1 + length (escape src)) else None)"
    using translate_loop_escape [of "[0x7E]" dest' src] by simp
  moreover have "put_byte (0x7E # escape src @ drop n dest') (Suc (length (escape src))) 0x7E
     = (if n < length dest' then Some (0x7E # escape src @ 0x7E # drop (Suc n) dest') else None)" for n
    using put_byte_here [of "0x7E # escape src" "drop n dest'" "0x7E"]
    by (cases "n < length dest'") (simp_all add: Cons_nth_drop_Suc [symmetric])
  moreover have "put_byte dest 0 0x7E = Some (0x7E # dest')"
    by (simp add: Cons put_byte_def)
  ultimately show ?thesis
    by (auto simp: Cons translate_packet_def frame_def)
qed (simp add: translate_packet_def put_byte_def frame_def)

text \<open>One step of \<open>untranslate_packet\<close> inside a frame, on the bytes collected so far.\<close>

definition absorb :: "byte list \<Rightarrow> byte \<Rightarrow> byte list" where
  "absorb acc b =
     (if acc \<noteq> [] \<and> last acc = 0x7D then (if b = 0x5E then butlast acc @ [0x7E] else acc)
      else acc @ [b])"

lemma absorb_simps:
  "last acc \<noteq> 0x7D \<Longrightarrow> absorb acc b = acc @ [b]"
  "absorb [] b = [b]"
  "absorb (acc @ [0x7D]) b = (if b = 0x5E then acc @ [0x7E] else acc @ [0x7D])"
  by (auto simp: absorb_def)

lemma absorb_length: "length acc \<le> length (absorb acc b)" "length (absorb acc b) \<le> Suc (length acc)"
  by (auto simp: absorb_def)

lemma foldl_absorb_length:
  "length acc \<le> length (foldl absorb acc bs)" "length (foldl absorb acc bs) \<le> length acc + length bs"
proof (induction bs arbitrary: acc)
  case (Cons b bs)
  { case 1 show ?case using Cons(1) [of "absorb acc b"] absorb_length(1) [of acc b] by simp
  next
    case 2 show ?case using Cons(2) [of "absorb acc b"] absorb_length(2) [of acc b] by simp }
qed simp_all

lemma untranslate_step:
  assumes "acc \<noteq> []" "b \<noteq> 0x7E" "rest \<noteq> []"
  shows "untranslate_loop (acc @ rest) (length acc) 2 (b # src) =
    untranslate_loop (absorb acc b @ drop (length (absorb acc b) - length acc) rest) (length (absorb acc b)) 2 src"
proof (cases "last acc = 0x7D")
  case True
  then obtain a where a: "acc = a @ [0x7D]" using assms(1) by (metis append_butlast_last_id)
  have "put_byte (a @ 0x7D # rest) (length a) c = Some (a @ c # rest)" for c
    using put_byte_here [of a "0x7D # rest" c] by simp
  then show ?thesis unfolding a absorb_simps using assms(2) by simp
next
  case False
  obtain r rest' where r: "rest = r # rest'" using assms(3) by (cases rest) auto
  have "(acc @ rest) ! (length acc - 1) \<noteq> 0x7D"
    using False assms(1) by (simp add: nth_append last_conv_nth)
  then show ?thesis
    using False assms put_byte_here [of acc rest b] by (simp add: absorb_simps r)
qed

lemma untranslate_scan:
  assumes "acc \<noteq> []" "0x7E \<notin> set bs" "length bs \<le> length rest"
  shows "untranslate_loop (acc @ rest) (length acc) 2 (bs @ src) =
    (let r = foldl absorb acc bs in
     untranslate_loop (r @ drop (length r - length acc) rest) (length r) 2 src)"
  using assms
proof (induction bs arbitrary: acc rest)
  case (Cons b bs)
  let ?a = "absorb acc b"
  let ?rest = "drop (length ?a - length acc) rest"
  have "?a \<noteq> []" using Cons.prems(1) by (auto simp: absorb_def)
  moreover have "length bs \<le> length ?rest" using Cons.prems(3) absorb_length(2) [of acc b] by simp
  ultimately have "untranslate_loop (?a @ ?rest) (length ?a) 2 (bs @ src) =
    (let r = foldl absorb ?a bs in
     untranslate_loop (r @ drop (length r - length ?a) ?rest) (length r) 2 src)"
    using Cons by simp
  moreover have "length (foldl absorb ?a bs) - length ?a + (length ?a - length acc) = length (foldl absorb ?a bs) - length acc"
    using foldl_absorb_length(1) [of ?a bs] absorb_length(1) [of acc b] by simp
  moreover have "rest \<noteq> []" "b \<noteq> 0x7E" using Cons.prems by auto
  ultimately show ?case
    using untranslate_step [of acc b rest "bs @ src"] Cons.prems(1) by (simp add: Let_def)
qed simp

lemma absorb_fresh:
  assumes "acc = [] \<or> last acc \<noteq> 0x7D"
  shows "foldl absorb acc (escape [b]) = acc @ [b]"
proof -
  have "absorb acc c = acc @ [c]" for c using assms by (auto simp: absorb_def)
  then show ?thesis by (simp add: absorb_simps)
qed

lemma absorb_stuck:
  assumes "acc \<noteq> []" "last acc = 0x7D"
  shows "length (foldl absorb acc (escape [b])) = length acc"
proof -
  obtain a where a: "acc = a @ [0x7D]" using assms by (metis append_butlast_last_id)
  show ?thesis unfolding a by (simp add: absorb_simps)
qed

lemma escape_Cons: "escape (b # bs) = escape [b] @ escape bs"
  by simp

lemma foldl_escape_length: "length (foldl absorb acc (escape ys)) \<le> length acc + length ys"
proof (induction ys arbitrary: acc)
  case (Cons b ys)
  have "length (foldl absorb acc (escape [b])) \<le> Suc (length acc)"
    using absorb_fresh [of acc b] absorb_stuck [of acc b] by (cases "acc = [] \<or> last acc \<noteq> 0x7D") auto
  then show ?case
    using Cons [of "foldl absorb acc (escape [b])"] unfolding escape_Cons [of b ys] foldl_append by simp
qed simp

lemma foldl_escape_stuck:
  assumes "acc \<noteq> []" "last acc = 0x7D" "ys \<noteq> []"
  shows "length (foldl absorb acc (escape ys)) < length acc + length ys"
proof -
  obtain b zs where ys: "ys = b # zs" using assms(3) by (cases ys) auto
  show ?thesis
    using foldl_escape_length [of "foldl absorb acc (escape [b])" zs] absorb_stuck [OF assms(1,2), of b]
    unfolding ys escape_Cons [of b zs] foldl_append by simp
qed

lemma foldl_escape_exact:
  "acc = [] \<or> last acc \<noteq> 0x7D \<Longrightarrow> 0x7D \<notin> set (butlast ys) \<Longrightarrow> foldl absorb acc (escape ys) = acc @ ys"
proof (induction ys arbitrary: acc)
  case (Cons b ys)
  show ?case
  proof (cases "ys = []")
    case True
    then show ?thesis using absorb_fresh [OF Cons.prems(1), of b] by (simp only:)
  next
    case False
    then have "b \<noteq> 0x7D" "0x7D \<notin> set (butlast ys)" using Cons.prems(2) by auto
    then show ?thesis
      using Cons.IH [of "acc @ [b]"] unfolding escape_Cons [of b ys] foldl_append absorb_fresh [OF Cons.prems(1)]
      by simp
  qed
qed simp

lemma foldl_escape_short:
  "acc = [] \<or> last acc \<noteq> 0x7D \<Longrightarrow> 0x7D \<in> set (butlast ys) \<Longrightarrow>
    length (foldl absorb acc (escape ys)) < length acc + length ys"
proof (induction ys arbitrary: acc)
  case (Cons b ys)
  then have ys: "ys \<noteq> []" and b: "b = 0x7D \<or> 0x7D \<in> set (butlast ys)"
    by (auto split: if_splits)
  show ?case
  proof (cases "b = 0x7D")
    case True
    then show ?thesis
      using foldl_escape_stuck [of "acc @ [b]" ys] ys
      unfolding escape_Cons [of b ys] foldl_append absorb_fresh [OF Cons.prems(1)] by simp
  next
    case False
    then show ?thesis
      using Cons.IH [of "acc @ [b]"] b
      unfolding escape_Cons [of b ys] foldl_append absorb_fresh [OF Cons.prems(1)] by simp
  qed
qed simp

lemma untranslate_frame:
  assumes "xs \<noteq> []" "length (escape xs) \<le> length dest"
  shows "untranslate_packet dest (frame xs) =
    (let r = foldl absorb [] (escape xs) in
     if length r < 2 then None else Some (r @ drop (length r) dest, length r))"
proof -
  obtain e es where e: "escape xs = e # es"
    using length_escape(1) [of xs] assms(1) by (cases "escape xs") auto
  obtain d rest where d: "dest = d # rest" using assms(2) e by (cases dest) auto
  have ne: "e \<noteq> 0x7E" "0x7E \<notin> set es" using flag_not_escape [of xs] by (auto simp: e)
  define r where "r = foldl absorb [e] es"
  have len: "1 \<le> length r" using foldl_absorb_length(1) [of "[e]" es] by (simp add: r_def)
  have "untranslate_packet dest (frame xs) = untranslate_loop ([e] @ rest) (length [e]) 2 (es @ [0x7E])"
    using ne(1) put_byte_here [of "[]" dest e]
    by (simp add: untranslate_packet_def frame_def e d)
  also have "\<dots> = untranslate_loop (r @ drop (length r - 1) rest) (length r) 2 [0x7E]"
    using untranslate_scan [of "[e]" es rest "[0x7E]"] ne(2) assms(2) by (simp add: r_def e d Let_def)
  also have "\<dots> = (if length r < 2 then None else Some (r @ drop (length r) dest, length r))"
    using len by (cases "length r") (simp_all add: d)
  finally show ?thesis by (simp add: e r_def absorb_simps(2) Let_def)
qed

lemma translated: "translate_packet buf xs = Some (buf', n) \<Longrightarrow> take n buf' = frame xs \<and> n = length (frame xs)"
  by (auto simp: translate_packet_frame split: if_splits)


section \<open>Packets on the wire\<close>

lemma put16_be: "put16 (cpu2be16 w) = [ucast (drop_bit 8 w), ucast w]"
proof -
  have ff: "(0xFF :: u16) = mask 8" by (simp add: mask_eq_exp_minus_1)
  have "ucast (cpu2be16 w) = (ucast (drop_bit 8 w) :: byte)"
    unfolding cpu2be16_def ff by (rule bit_word_eqI) (auto simp: bit_simps)
  moreover have "ucast (drop_bit 8 (cpu2be16 w)) = (ucast w :: byte)"
    unfolding cpu2be16_def ff by (rule bit_word_eqI) (auto simp: bit_simps)
  ultimately show ?thesis by (simp add: put16_def)
qed

lemma crc_residue: "crc_16_l_calc (bs @ put16 (cpu2be16 (crc_16_l_calc bs))) = CRC_16_L_OK"
proof -
  define c where "c = crc_16_l_loop 0 bs"
  have "push_bit 8 (ucast (ucast (drop_bit 8 c) :: byte)) XOR ucast (ucast c :: byte) = c"
    by (rule bit_word_eqI) (auto simp: bit_simps)
  then have "crc_16_l_loop c (put16 (cpu2be16 c)) = (crc_shl ^^ 8) ((crc_shl ^^ 8) 0)"
    unfolding put16_be crc_two_bytes by simp
  also have "\<dots> = 0"
    using crc_shl8_low [of 0] by simp
  finally show ?thesis
    by (simp add: crc_16_l_calc_def crc_loop_append CRC_16_L_OK_def flip: c_def)
qed

definition body :: "CMD_TYPE \<Rightarrow> byte list \<Rightarrow> byte list" where
  "body msg dat = put16 (cpu2be16 (cmd_code msg)) @ put16 (cpu2be16 (of_nat (length dat))) @ dat"

definition sealed :: "CMD_TYPE \<Rightarrow> byte list \<Rightarrow> byte list" where
  "sealed msg dat = body msg dat @ put16 (cpu2be16 (crc_16_l_calc (body msg dat)))"

lemma store16_at:
  "store16 (pre @ rest) (length pre) w = (if 2 \<le> length rest then Some (pre @ put16 w @ drop 2 rest) else None)"
  by (auto simp: store16_def mem_write_def)

lemma length_body [simp]: "length (body msg dat) = length dat + 4"
  by (simp add: body_def)

lemma length_sealed [simp]: "length (sealed msg dat) = length dat + 6"
  by (simp add: sealed_def)

lemma set_head_body:
  assumes "length pre = 4" "length hdr = 4"
  shows "set_head (pre @ hdr @ dat @ rest) msg (length dat) = Some (pre @ body msg dat @ rest)"
proof -
  have "store16 (pre @ hdr @ dat @ rest) 4 w = Some (pre @ put16 w @ drop 2 hdr @ dat @ rest)" for w
    using store16_at [of pre "hdr @ dat @ rest" w] assms by simp
  moreover have "store16 (pre @ put16 w @ drop 2 hdr @ dat @ rest) 6 v = Some (pre @ put16 w @ put16 v @ dat @ rest)" for w v
    using store16_at [of "pre @ put16 w" "drop 2 hdr @ dat @ rest" v] assms by simp
  ultimately show ?thesis by (simp add: set_head_def body_def)
qed

lemma crc_packet_sealed:
  assumes "length pre = 4" "length hdr = 4" "length crc = 2"
  shows "crc_packet (pre @ hdr @ dat @ crc @ rest) msg (length dat) = Some (pre @ sealed msg dat @ rest, length dat + 6)"
proof -
  have h: "set_head (pre @ hdr @ dat @ crc @ rest) msg (length dat) = Some (pre @ body msg dat @ crc @ rest)"
    using set_head_body [OF assms(1,2), of dat "crc @ rest" msg] by simp
  have r: "mem_read (pre @ body msg dat @ crc @ rest) 4 (4 + length dat) = Some (body msg dat)"
    using assms by (simp add: mem_read_def)
  have "store16 (pre @ body msg dat @ crc @ rest) (4 + length dat + 4) w = Some (pre @ body msg dat @ put16 w @ rest)" for w
    using store16_at [of "pre @ body msg dat" "crc @ rest" w] assms by (simp add: add.commute)
  then show ?thesis by (simp add: crc_packet_def h r sealed_def)
qed

lemma drop_split: "drop a xs = take b (drop a xs) @ drop (b + a) xs"
  by (metis append_take_drop_id drop_drop)

lemma cut_buffer:
  assumes "n + 10 \<le> length buffer"
  obtains pre hdr crc rest where "buffer = pre @ hdr @ take n (drop 8 buffer) @ crc @ rest"
    "length pre = 4" "length hdr = 4" "length crc = 2"
proof
  show "buffer = take 4 buffer @ take 4 (drop 4 buffer) @ take n (drop 8 buffer)
      @ take 2 (drop (n + 8) buffer) @ drop (2 + (n + 8)) buffer"
    using drop_split [of 0 buffer 4] drop_split [of 4 buffer 4] drop_split [of 8 buffer n]
      drop_split [of "n + 8" buffer 2] by simp
qed (use assms in simp_all)

lemma setup_crc_packet:
  assumes "msg \<in> {BSL_CMD_START_DATA, BSL_CMD_MIDST_DATA, BSL_CMD_END_DATA, BSL_CMD_EXEC_DATA}"
  shows "setup_packet msg buffer offset n BSL_UART_PACKET image_size = crc_packet buffer msg n"
  using assms by (auto simp: setup_packet_def)

lemma crc_packet_defined:
  "crc_packet buffer msg n =
     (if n + 10 \<le> length buffer
      then Some (take 4 buffer @ sealed msg (take n (drop 8 buffer)) @ drop (n + 10) buffer, n + 6) else None)"
proof (cases "n + 10 \<le> length buffer")
  case True
  obtain pre hdr crc rest where b: "buffer = pre @ hdr @ take n (drop 8 buffer) @ crc @ rest"
    and l: "length pre = 4" "length hdr = 4" "length crc = 2"
    using cut_buffer [OF True] .
  have n: "length (take n (drop 8 buffer)) = n" using True by simp
  have c: "crc_packet buffer msg n = Some (pre @ sealed msg (take n (drop 8 buffer)) @ rest, n + 6)"
    using crc_packet_sealed [OF l, of "take n (drop 8 buffer)" rest msg] unfolding b [symmetric] n .
  have "take 4 buffer = pre" "drop (n + 10) buffer = rest"
    using l n by (subst b, simp)+
  then show ?thesis using True c by simp
next
  case False
  have "length b' = length buffer" if "set_head buffer msg n = Some b'" for b'
    using that by (auto simp: set_head_def store16_def mem_write_Some_iff bind_eq_Some_conv)
  then show ?thesis
    using False by (cases "set_head buffer msg n") (auto simp: crc_packet_def store16_def mem_write_def bind_eq_None_conv Let_def)
qed

lemma store_checksum_header:
  assumes "store_checksum b 6 0 6 = Some b'"
  shows "8 \<le> length b'" "get16 b' 6 = boot_checksum (take 6 b')"
proof -
  from assms have b': "b' = take 6 b @ put16 (boot_checksum (take 6 b)) @ drop 8 b" and l: "8 \<le> length b"
    by (auto simp: store_checksum_def store16_def mem_read_def mem_write_def split: if_splits)
  show "8 \<le> length b'" using l by (simp add: b')
  have "get16 b' 6 = get16 (put16 (boot_checksum (take 6 b)) @ drop 8 b) 0"
    using l by (simp add: b' get16_def nth_append)
  then show "get16 b' 6 = boot_checksum (take 6 b')"
    using l by (simp add: b' get16_put16)
qed

lemma store32_header:
  assumes "store32 b 8 w = Some b'" "8 \<le> length b"
  shows "take 8 b' = take 8 b"
  using assms by (auto simp: store32_def mem_write_def split: if_splits)

lemma header_checksum_cong:
  assumes "take 8 b' = take 8 b" "8 \<le> length b" "get16 b 6 = boot_checksum (take 6 b)"
  shows "get16 b' 6 = boot_checksum (take 6 b')"
proof -
  have "take 6 b' = take 6 b" using arg_cong [OF assms(1), of "take 6"] by simp
  moreover have "b' ! i = b ! i" if "i < 8" for i using arg_cong [OF assms(1), of "\<lambda>xs. xs ! i"] that by simp
  ultimately show ?thesis using assms(3) by (simp add: get16_def)
qed

text \<open>C28. What \<open>translate_packet\<close> frames, \<open>untranslate_packet\<close> recovers exactly when no
  escape byte 0x7D stands before the last byte of the packet.  A decoded 0x7D is taken for a
  pending escape again, so the bytes after it are lost or merged; a decoded 0x7E is fine.\<close>

theorem untranslate_translate:
  assumes "translate_packet buf xs = Some (buf', n)" "2 \<le> length xs" "length (escape xs) \<le> length dest"
  shows "(\<exists>rest. untranslate_packet dest (take n buf') = Some (xs @ rest, length xs))
    \<longleftrightarrow> HDLC_ESCAPE \<notin> set (butlast xs)"
proof -
  have eq: "untranslate_packet dest (take n buf') =
    (let r = foldl absorb [] (escape xs) in
     if length r < 2 then None else Some (r @ drop (length r) dest, length r))"
    using untranslate_frame [of xs dest] translated [OF assms(1)] assms(2,3) by (cases xs) auto
  show ?thesis
  proof (cases "HDLC_ESCAPE \<in> set (butlast xs)")
    case True
    then show ?thesis
      using foldl_escape_short [of "[]" xs] unfolding eq by (auto simp: HDLC_ESCAPE_def Let_def)
  next
    case False
    then have "foldl absorb [] (escape xs) = xs"
      using foldl_escape_exact [of "[]" xs] by (simp add: HDLC_ESCAPE_def)
    then show ?thesis using False assms(2) unfolding eq by simp
  qed
qed

theorem untranslate_translate_witness:
  "(\<exists>rest. untranslate_packet (replicate 12 0) (take 4 [0x7E, 1, 2, 0x7E, 0]) = Some ([1, 2] @ rest, length [1 :: byte, 2]))
    \<longleftrightarrow> HDLC_ESCAPE \<notin> set (butlast [1, 2])"
  by (rule untranslate_translate [of "replicate 5 0"]) (simp_all add: translate_packet_frame frame_def)

text \<open>A serial packet built by \<open>setup_packet\<close> for the start, data, end and execute
  commands carries its type and length in network byte order, leaves the payload at offset 8
  and the bytes around the packet alone, and passes the receiver's check: the CRC over packet
  and trailer is \<open>CRC_16_L_OK\<close>.\<close>

theorem setup_packet_serial:
  assumes "msg \<in> {BSL_CMD_START_DATA, BSL_CMD_MIDST_DATA, BSL_CMD_END_DATA, BSL_CMD_EXEC_DATA}"
    and "data_size + 10 \<le> length buffer"
  shows "\<exists>packet. setup_packet msg buffer offset data_size BSL_UART_PACKET image_size
        = Some (take 4 buffer @ packet @ drop (data_size + 10) buffer, length packet)
      \<and> take 4 packet = put16 (cpu2be16 (cmd_code msg)) @ put16 (cpu2be16 (of_nat data_size))
      \<and> take data_size (drop 4 packet) = take data_size (drop 8 buffer)
      \<and> crc_16_l_calc packet = CRC_16_L_OK"
proof (intro exI conjI)
  let ?p = "sealed msg (take data_size (drop 8 buffer))"
  show "setup_packet msg buffer offset data_size BSL_UART_PACKET image_size
        = Some (take 4 buffer @ ?p @ drop (data_size + 10) buffer, length ?p)"
    using assms by (simp add: setup_crc_packet crc_packet_defined)
  show "crc_16_l_calc ?p = CRC_16_L_OK" unfolding sealed_def by (rule crc_residue)
qed (use assms(2) in \<open>simp_all add: sealed_def body_def\<close>)

theorem setup_packet_serial_witness:
  "\<exists>packet. setup_packet BSL_CMD_MIDST_DATA [0, 0, 0, 0, 0, 0, 0, 0, 0x7E, 0x11, 0, 0] 8 2 BSL_UART_PACKET 0
        = Some (take 4 [0, 0, 0, 0, 0, 0, 0, 0, 0x7E, 0x11, 0, 0] @ packet @ drop (2 + 10) [0, 0, 0, 0, 0, 0, 0, 0, 0x7E, 0x11, 0, 0], length packet)
      \<and> take 4 packet = put16 (cpu2be16 (cmd_code BSL_CMD_MIDST_DATA)) @ put16 (cpu2be16 (of_nat 2))
      \<and> take 2 (drop 4 packet) = take 2 (drop 8 [0, 0, 0, 0, 0, 0, 0, 0, 0x7E, 0x11, 0, 0])
      \<and> crc_16_l_calc packet = CRC_16_L_OK"
  by (rule setup_packet_serial) simp_all

text \<open>Whatever command an SPI packet is built for, its header checksum is the checksum of the
  first six bytes that are sent, although some commands store further fields after it.\<close>

theorem setup_packet_spi_header:
  assumes "setup_packet msg buffer offset data_size BSL_SPI_PACKET image_size = Some (buffer', total_size)"
    and "0 < total_size"
  shows "get16 buffer' 6 = boot_checksum (take 6 buffer')"
proof -
  have sum: "get16 b' 6 = boot_checksum (take 6 b')" if "store_checksum b 6 0 6 = Some b'" for b b'
    using store_checksum_header(2) [OF that] .
  have tail: "get16 b'' 6 = boot_checksum (take 6 b'')"
    if "store_checksum b 6 0 6 = Some b'" "store32 b' 8 0 = Some b''" for b b' b''
    using header_checksum_cong [OF store32_header [OF that(2)] _ sum [OF that(1)]] store_checksum_header(1) [OF that(1)]
    by blast
  show ?thesis
    using assms unfolding setup_packet_def BSL_SPI_PACKET_def BSL_UART_PACKET_def Let_def
    by (cases msg) (auto simp only: CMD_TYPE.case if_False zero_neq_one one_neq_zero bind_eq_Some_conv prod.inject option.inject intro: sum tail)
qed

theorem setup_packet_spi_header_witness:
  "get16 [0, 0, 4, 0, 0xFF, 0xFF, 0xFB, 0xFF, 0, 0, 0, 0] 6 = boot_checksum (take 6 [0, 0, 4, 0, 0xFF, 0xFF, 0xFB, 0xFF, 0, 0, 0, 0])"
proof (rule setup_packet_spi_header [of BSL_CMD_EXEC_DATA "replicate 12 0" 8 0 0 _ 8])
  show "setup_packet BSL_CMD_EXEC_DATA (replicate 12 0) 8 0 BSL_SPI_PACKET 0
      = Some ([0, 0, 4, 0, 0xFF, 0xFF, 0xFB, 0xFF, 0, 0, 0, 0], 8)"
    by code_simp
qed simp

text \<open>A frame with a single byte between its flags makes \<open>untranslate_packet\<close> compute a CRC
  over \<open>translated_size - 2\<close>, that is 4294967295 bytes: its behaviour is undefined.\<close>

theorem untranslate_single_byte:
  assumes "b \<noteq> HDLC_FLAG" "dest \<noteq> []"
  shows "untranslate_packet dest ([HDLC_FLAG, b, HDLC_FLAG] @ src) = None"
  using assms put_byte_here [of "[]" dest b]
  by (cases dest) (simp_all add: untranslate_packet_def HDLC_FLAG_def)

theorem untranslate_single_byte_witness:
  "untranslate_packet [0, 0] ([HDLC_FLAG, 0x80, HDLC_FLAG] @ [0, 0, 0, 0, 0]) = None"
  by (rule untranslate_single_byte) (simp_all add: HDLC_FLAG_def)

end
