(* ===== verification/DeviceIo.thy ===== *)
theory DeviceIo
  imports Prelude
begin

text \<open>
  Calls on device files.  What the kernel answers is given: a list with the results of the
  coming \<open>write\<close> calls and one with the bytes the coming \<open>read\<close> calls deliver (none for the end of
  the stream and for an error, which the callers do not tell apart).  A \<open>write\<close> takes at most the
  bytes offered and a \<open>read\<close> delivers at most the bytes asked for; the bytes taken are appended to
  the \<open>wire\<close>.

  A call has one of three outcomes: undefined behaviour, a result, or \<open>Waiting\<close> when the answers
  given do not suffice for it to return.  A retry loop recurses over the answers, so it returns
  if some finite prefix of what the device answers makes it return.
\<close>

section \<open>Outcomes\<close>

datatype 'a outcome = Undefined | Waiting | Returned 'a

fun and_then :: "'a outcome \<Rightarrow> ('a \<Rightarrow> 'b outcome) \<Rightarrow> 'b outcome" where
  "and_then Undefined f = Undefined"
| "and_then Waiting f = Waiting"
| "and_then (Returned x) f = f x"

definition checked :: "'a option \<Rightarrow> 'a outcome" where
  "checked r = (case r of None \<Rightarrow> Undefined | Some x \<Rightarrow> Returned x)"

lemma checked_simps [simp]: "checked None = Undefined" "checked (Some x) = Returned x"
  by (simp_all add: checked_def)

lemma and_then_Returned_iff:
  "and_then m f = Returned y \<longleftrightarrow> (\<exists>x. m = Returned x \<and> f x = Returned y)"
  by (cases m) auto

lemma checked_Returned_iff [simp]: "checked r = Returned x \<longleftrightarrow> r = Some x"
  by (cases r) auto

lemma checked_not_Waiting [simp]: "checked r \<noteq> Waiting"
  by (cases r) auto

lemma and_then_assoc: "and_then (and_then m f) g = and_then m (\<lambda>x. and_then (f x) g)"
  by (cases m) auto

lemma and_then_fundef_cong [fundef_cong]:
  "m = m' \<Longrightarrow> (\<And>x. m' = Returned x \<Longrightarrow> f x = g x) \<Longrightarrow> and_then m f = and_then m' g"
  by (cases m') auto

text \<open>A call that meets no undefined behaviour whatever the device answers, with \<open>P\<close> if it returns.\<close>

fun safely :: "('a \<Rightarrow> bool) \<Rightarrow> 'a outcome \<Rightarrow> bool" where
  "safely P Undefined = False"
| "safely P Waiting = True"
| "safely P (Returned x) = P x"

lemma safely_and_then:
  "safely P m \<Longrightarrow> (\<And>x. P x \<Longrightarrow> safely Q (f x)) \<Longrightarrow> safely Q (and_then m f)"
  by (cases m) auto

lemma safely_checked: "safely P (checked r) \<longleftrightarrow> (\<exists>x. r = Some x \<and> P x)"
  by (cases r) auto

section \<open>Retry loops\<close>

text \<open>
  \<open>do { retval = write(fd, buf, n); if (retval > 0) n -= retval; } while (n > 0)\<close>: every round
  offers the bytes from the start of \<open>buf\<close>.
\<close>

fun write_loop :: "int list \<Rightarrow> byte list \<Rightarrow> nat \<Rightarrow> byte list \<Rightarrow> (int \<times> byte list \<times> int list) outcome" where
  "write_loop [] buf n wire = Waiting"
| "write_loop (r # rs) buf n wire =
     (let retval = min r (int n);
          wire = wire @ take (nat retval) buf;
          n = (if 0 < retval then n - nat retval else n)
      in if 0 < n then write_loop rs buf n wire else Returned (retval, wire, rs))"

text \<open>
  \<open>do { retval = read(fd, &raw[offset], size); if (retval > 0) { offset += retval; size -= retval; } }
  while (size != 0)\<close>.
\<close>

fun read_loop :: "byte list list \<Rightarrow> byte list \<Rightarrow> nat \<Rightarrow> nat \<Rightarrow>
    (int \<times> byte list \<times> nat \<times> byte list list) outcome" where
  "read_loop [] raw offset sz = Waiting"
| "read_loop (r # rs) raw offset sz =
     (let bs = take sz r in
      and_then (checked (mem_write raw offset bs)) (\<lambda>raw.
        let offset = offset + length bs; sz = sz - length bs
        in if sz \<noteq> 0 then read_loop rs raw offset sz
           else Returned (int (length bs), raw, offset, rs)))"

lemma write_loop_stuck:
  assumes "\<forall>r \<in> set rs. r \<le> 0" "0 < n"
  shows "write_loop rs buf n wire = Waiting"
  using assms
proof (induction rs arbitrary: wire)
  case (Cons r rs)
  then have "\<not> 0 < min r (int n)" by auto
  then show ?case using Cons by (simp add: Let_def)
qed simp

lemma write_loop_whole:
  assumes "int n \<le> r" "0 < n"
  shows "write_loop (r # rs) buf n wire = Returned (int n, wire @ take n buf, rs)"
  using assms by (simp add: min_absorb2)

text \<open>The write returns positive once the loop ends, and the loop consumes answers.\<close>

lemma write_loop_positive:
  "write_loop rs buf n wire = Returned (retval, wire', rs') \<Longrightarrow> 0 < n \<Longrightarrow> 0 < retval"
proof (induction rs arbitrary: n wire)
  case (Cons r rs)
  show ?case
  proof (cases "0 < (if 0 < min r (int n) then n - nat (min r (int n)) else n)")
    case True
    then show ?thesis using Cons by (simp add: Let_def split: if_splits)
  next
    case False
    then show ?thesis using Cons.prems by (simp add: Let_def split: if_splits)
  qed
qed simp

lemma read_loop_chunks:
  assumes "length (concat cs @ c) = sz" "c \<noteq> []" "offset + sz \<le> length raw"
  shows "read_loop (cs @ c # rest) raw offset sz =
    Returned (int (length c), take offset raw @ (concat cs @ c) @ drop (offset + sz) raw, offset + sz, rest)"
  using assms
proof (induction cs arbitrary: raw offset sz)
  case Nil
  then show ?case by (simp add: mem_write_def)
next
  case (Cons b cs)
  let ?raw = "take offset raw @ b @ drop (offset + length b) raw"
  have w: "mem_write raw offset b = Some ?raw"
    using Cons.prems by (simp add: mem_write_def)
  have "read_loop (cs @ c # rest) ?raw (offset + length b) (sz - length b) =
    Returned (int (length c), take (offset + length b) ?raw @ (concat cs @ c) @ drop (offset + length b + (sz - length b)) ?raw,
      offset + length b + (sz - length b), rest)"
    using Cons.prems by (intro Cons.IH) auto
  moreover have "length b < sz" using Cons.prems by auto
  moreover have "take (offset + length b) ?raw = take offset raw @ b"
    using Cons.prems(1,3) by simp
  moreover have "drop (offset + sz) ?raw = drop (offset + sz) raw"
    using Cons.prems(1,3) by (simp add: add.commute)
  ultimately show ?case by (simp add: w)
qed

end
