(* ===== verification/FdlSend.thy ===== *)
theory FdlSend
  imports FdlPacket DeviceIo
begin

text \<open>
  The messages of the download protocol, the second half of
  \<^verbatim>\<open>src/apps/modem_control/packet.c\<close>: each \<open>send_..._message\<close> builds a packet, writes it to the
  serial line (\<open>flag\<close> 0, escaped and framed in \<open>send_buffer\<close>) or to the SPI device, reads the
  reply and returns 0 for an acknowledgement and -1 otherwise.

  The state holds the two static variables of the file and the device \<open>fd\<close>: what was written to
  it and what it is going to answer.  The rounds of the retry loops are those of
  \<open>write_loop\<close> and \<open>read_loop\<close>; the variants of the loops in the sources differ in log messages
  only.
\<close>

section \<open>Messages\<close>

record fdl_state =
  send_buffer :: "byte list"
  max_transfer_size :: u32
  wire :: "byte list"
  writes :: "int list"
  reads :: "byte list list"

text \<open>The translation of a packet at \<open>raw_buffer[4]\<close> into \<open>send_buffer\<close> and the write loop.\<close>

definition uart_write :: "byte list \<Rightarrow> nat \<Rightarrow> 'a fdl_state_scheme \<Rightarrow> (int \<times> 'a fdl_state_scheme) outcome" where
  "uart_write raw_buffer n s =
     and_then (checked (mem_read raw_buffer 4 n)) (\<lambda>src.
     and_then (checked (translate_packet (send_buffer s) src)) (\<lambda>(buf, translated_size).
     and_then (write_loop (writes s) buf translated_size (wire s)) (\<lambda>(retval, w, rs).
       Returned (retval, s\<lparr>send_buffer := buf, wire := w, writes := rs\<rparr>))))"

text \<open>\<open>retval = write(fd, buf, n)\<close>.\<close>

definition fd_write :: "byte list \<Rightarrow> nat \<Rightarrow> 'a fdl_state_scheme \<Rightarrow> (int \<times> 'a fdl_state_scheme) outcome" where
  "fd_write buf n s =
     and_then (checked (mem_read buf 0 n)) (\<lambda>bs.
     case writes s of [] \<Rightarrow> Waiting | r # rs \<Rightarrow>
       let retval = min r (int n)
       in Returned (retval, s\<lparr>wire := wire s @ take (nat retval) bs, writes := rs\<rparr>))"

definition write_packet :: "int \<Rightarrow> byte list \<Rightarrow> nat \<Rightarrow> 'a fdl_state_scheme \<Rightarrow> (int \<times> 'a fdl_state_scheme) outcome" where
  "write_packet flag raw_buffer n s =
     (if flag = 0 then uart_write raw_buffer n s else fd_write raw_buffer n s)"

text \<open>\<open>head.type = (data[0]<<8)|data[1]\<close>.\<close>

definition head_type :: "byte list \<Rightarrow> u16 option" where
  "head_type dat = do {
     h \<leftarrow> mem_read dat 0 2;
     Some (push_bit 8 (ucast (h ! 0)) OR ucast (h ! 1)) }"

text \<open>
  From \<open>if (retval > 0)\<close> to the assignment of \<open>head.type\<close>: read the reply (8 bytes on the serial
  line, 6 from SPI) over the start of \<open>raw_buffer\<close> and decode its type; no type when a call
  failed.
\<close>

definition read_reply :: "int \<Rightarrow> int \<Rightarrow> byte list \<Rightarrow> 'a fdl_state_scheme \<Rightarrow> (u16 option \<times> 'a fdl_state_scheme) outcome" where
  "read_reply flag retval raw_buffer s =
     (if 0 < retval then
        and_then (read_loop (reads s) raw_buffer 0 (if flag = 0 then 8 else 6)) (\<lambda>(retval, raw_buffer, offset, rs).
        let s = s\<lparr>reads := rs\<rparr> in
        if 0 < retval then
          (if flag = 0 then
             and_then (checked (untranslate_packet (send_buffer s) (take offset raw_buffer))) (\<lambda>(buf, n).
             and_then (checked (head_type buf)) (\<lambda>t.
               Returned (Some t, s\<lparr>send_buffer := buf\<rparr>)))
           else
             and_then (checked (head_type raw_buffer)) (\<lambda>t. Returned (Some t, s)))
        else Returned (None, s))
      else Returned (None, s))"

definition raw_zero :: "byte list" where "raw_zero = replicate 32 0"

definition send_connect_message :: "int \<Rightarrow> 'a fdl_state_scheme \<Rightarrow> (int \<times> 'a fdl_state_scheme) outcome" where
  "send_connect_message flag s =
     and_then (checked (setup_packet BSL_CMD_CONNECT raw_zero 8 0 flag 0)) (\<lambda>(raw_buffer, n).
     and_then (write_packet flag raw_buffer n s) (\<lambda>(retval, s).
     and_then (read_reply flag retval raw_buffer s) (\<lambda>(head, s).
       Returned (if head = Some (cmd_code BSL_REP_ACK) then 0 else -1, s))))"

text \<open>The acceptance test of the other messages but the mode change.\<close>

definition acked :: "u16 option \<Rightarrow> bool" where
  "acked head = (head = Some (cmd_code BSL_REP_ACK) \<or> head = Some 0)"

definition send_start_message :: "u32 \<Rightarrow> u32 \<Rightarrow> int \<Rightarrow> 'a fdl_state_scheme \<Rightarrow> (int \<times> 'a fdl_state_scheme) outcome" where
  "send_start_message sz addr flag s =
     and_then (checked (do {
       raw_buffer \<leftarrow> store32 raw_zero 8 (cpu2be32 addr);
       raw_buffer \<leftarrow> store32 raw_buffer 12 (cpu2be32_int sz);
       setup_packet BSL_CMD_START_DATA raw_buffer 8 8 flag 0 })) (\<lambda>(raw_buffer, n).
     and_then (write_packet flag raw_buffer n s) (\<lambda>(retval, s).
     and_then (read_reply flag retval raw_buffer s) (\<lambda>(head, s).
       Returned (if acked head then 0 else -1, s))))"

definition send_end_message :: "int \<Rightarrow> 'a fdl_state_scheme \<Rightarrow> (int \<times> 'a fdl_state_scheme) outcome" where
  "send_end_message flag s =
     and_then (checked (setup_packet BSL_CMD_END_DATA raw_zero 8 0 flag 0)) (\<lambda>(raw_buffer, n).
     and_then (write_packet flag raw_buffer n s) (\<lambda>(retval, s).
     and_then (read_reply flag retval raw_buffer s) (\<lambda>(head, s).
       Returned (if acked head then 0 else -1, s))))"

text \<open>
  The SPI loop of \<open>send_data_message\<close>, which moves \<open>count - 1\<close> further blocks from the image file
  (\<open>img\<close>, the bytes it has left) through \<open>buffer\<close>.
\<close>

fun more_blocks :: "nat \<Rightarrow> nat \<Rightarrow> byte list \<Rightarrow> byte list \<Rightarrow> int \<Rightarrow> 'a fdl_state_scheme \<Rightarrow>
    (int \<times> byte list \<times> byte list \<times> 'a fdl_state_scheme) outcome" where
  "more_blocks 0 data_size buffer img retval s = Returned (retval, buffer, img, s)"
| "more_blocks (Suc k) data_size buffer img retval s =
     and_then (checked (mem_write buffer 0 (take data_size img))) (\<lambda>buffer.
     and_then (fd_write buffer data_size s) (\<lambda>(retval, s).
       more_blocks k data_size buffer (drop data_size img) retval s))"

definition send_data_message :: "byte list \<Rightarrow> nat \<Rightarrow> int \<Rightarrow> nat \<Rightarrow> byte list \<Rightarrow> 'a fdl_state_scheme \<Rightarrow>
    (int \<times> byte list \<times> byte list \<times> 'a fdl_state_scheme) outcome" where
  "send_data_message buffer data_size flag image_size img s =
     and_then
       (if flag = 0 then
          and_then (checked (do {
            bs \<leftarrow> mem_read buffer 0 data_size;
            uart_buffer \<leftarrow> mem_write (replicate 300 0) 8 bs;
            setup_packet BSL_CMD_MIDST_DATA uart_buffer 8 data_size flag 0 })) (\<lambda>(uart_buffer, n).
          and_then (uart_write uart_buffer n s) (\<lambda>(retval, s).
            Returned (retval, buffer, img, s)))
        else
          and_then (checked (setup_packet BSL_CMD_MIDST_DATA buffer 8 data_size flag (of_nat image_size))) (\<lambda>(buffer, n).
          and_then (fd_write buffer n s) (\<lambda>(retval, s).
          if data_size = 0 then Undefined
          else more_blocks (image_size div data_size - 1) data_size buffer img retval s)))
       (\<lambda>(retval, buffer, img, s).
     and_then (read_reply flag retval raw_zero s) (\<lambda>(head, s).
       Returned (if acked head then 0 else -1, buffer, img, s)))"

definition send_exec_message :: "u32 \<Rightarrow> int \<Rightarrow> 'a fdl_state_scheme \<Rightarrow> (int \<times> 'a fdl_state_scheme) outcome" where
  "send_exec_message addr flag s =
     and_then (checked (do {
       raw_buffer \<leftarrow> store32 raw_zero 8 (cpu2be32 addr);
       setup_packet BSL_CMD_EXEC_DATA raw_buffer 8 4 flag 0 })) (\<lambda>(raw_buffer, n).
     and_then (write_packet flag raw_buffer n s) (\<lambda>(retval, s).
     and_then (read_reply flag retval raw_buffer s) (\<lambda>(head, s).
       Returned (if acked head then 0 else -1, s))))"

definition uart_send_change_spi_mode_message :: "u32 \<Rightarrow> 'a fdl_state_scheme \<Rightarrow> (int \<times> 'a fdl_state_scheme) outcome" where
  "uart_send_change_spi_mode_message max_tran_sz s =
     (let s = s\<lparr>max_transfer_size := max_tran_sz\<rparr> in
      and_then (checked (do {
        raw_buffer \<leftarrow> store32 raw_zero 8 (cpu2be32_int max_tran_sz);
        setup_packet BSL_CMD_SWITCH_MODE raw_buffer 8 0 BSL_UART_PACKET 0 })) (\<lambda>(raw_buffer, n).
      and_then (uart_write raw_buffer n s) (\<lambda>(retval, s).
      and_then (read_reply 0 retval raw_buffer s) (\<lambda>(head, s).
        Returned (if head = Some (cmd_code BSL_REP_ACK) then 0 else -1, s)))))"

section \<open>Exchanges on the serial line\<close>

lemma unescape_escape: "unescape (escape bs) = bs"
proof (induction bs)
  case (Cons b bs)
  then show ?case by (cases "escape bs") auto
qed simp

lemma uart_write_translated:
  assumes "mem_read raw 4 n = Some src" "length (frame src) \<le> length (send_buffer s)"
  shows "uart_write raw n s =
     and_then (write_loop (writes s) (frame src @ drop (length (frame src)) (send_buffer s)) (length (frame src)) (wire s)) (\<lambda>(retval, w, rs).
       Returned (retval, s\<lparr>send_buffer := frame src @ drop (length (frame src)) (send_buffer s), wire := w, writes := rs\<rparr>))"
  using assms by (simp add: uart_write_def translate_packet_frame)

lemma length_frame: "length (frame src) \<le> 2 * length src + 2" "2 \<le> length (frame src)"
  using length_escape(2) [of src] by (simp_all add: frame_def)

lemma uart_write_whole:
  assumes "mem_read raw 4 n = Some src" "length (frame src) \<le> length (send_buffer s)"
    and "writes s = r # rs" "int (length (frame src)) \<le> r"
  shows "uart_write raw n s = Returned (int (length (frame src)),
    s\<lparr>send_buffer := frame src @ drop (length (frame src)) (send_buffer s), wire := wire s @ frame src, writes := rs\<rparr>)"
proof -
  have "0 < length (frame src)" using length_frame(2) [of src] by linarith
  then show ?thesis
    using write_loop_whole [OF assms(4)] unfolding uart_write_translated [OF assms(1,2)] assms(3)
    by (simp del: write_loop.simps)
qed

definition reply_frame :: "byte list \<Rightarrow> bool" where
  "reply_frame pkt = (length pkt = 6 \<and> HDLC_FLAG \<notin> set pkt \<and> HDLC_ESCAPE \<notin> set pkt)"

lemma escape_plain: "HDLC_FLAG \<notin> set pkt \<Longrightarrow> HDLC_ESCAPE \<notin> set pkt \<Longrightarrow> escape pkt = pkt"
  by (induction pkt) (auto simp: HDLC_FLAG_def HDLC_ESCAPE_def)

lemma untranslate_reply:
  assumes "reply_frame pkt" "6 \<le> length dest"
  shows "untranslate_packet dest (HDLC_FLAG # pkt @ [HDLC_FLAG]) = Some (pkt @ drop 6 dest, 6)"
proof -
  have e: "escape pkt = pkt" using assms(1) escape_plain by (auto simp: reply_frame_def)
  have l: "length pkt = 6" using assms(1) by (simp add: reply_frame_def)
  have "foldl absorb [] (escape pkt) = [] @ pkt"
    using assms(1) by (intro foldl_escape_exact) (auto simp: reply_frame_def HDLC_ESCAPE_def dest: in_set_butlastD)
  moreover have "pkt \<noteq> []" using l by auto
  ultimately show ?thesis
    using untranslate_frame [of pkt dest] l assms(2) by (simp add: e frame_def HDLC_FLAG_def Let_def)
qed

lemma read_reply_serial:
  assumes "reply_frame pkt" "0 < retval" "6 \<le> length (send_buffer s)" "8 \<le> length raw"
    and "reads s = cs @ c # rest" "c \<noteq> []" "concat cs @ c = HDLC_FLAG # pkt @ [HDLC_FLAG]"
  shows "read_reply 0 retval raw s =
    Returned (Some (push_bit 8 (ucast (pkt ! 0)) OR ucast (pkt ! 1)), s\<lparr>reads := rest, send_buffer := pkt @ drop 6 (send_buffer s)\<rparr>)"
proof -
  have l: "length pkt = 6" using assms(1) by (simp add: reply_frame_def)
  have "read_loop (reads s) raw 0 8 = Returned (int (length c), (concat cs @ c) @ drop 8 raw, 8, rest)"
    using read_loop_chunks [of cs c 8 0 raw rest] assms(4-7) l by simp
  moreover have "head_type (pkt @ bs) = Some (push_bit 8 (ucast (pkt ! 0)) OR ucast (pkt ! 1))" for bs
    using l by (simp add: head_type_def mem_read_def)
  moreover have "take 8 ((concat cs @ c) @ drop 8 raw) = HDLC_FLAG # pkt @ [HDLC_FLAG]"
    unfolding assms(7) using l by simp
  ultimately show ?thesis
    using assms(2,6) untranslate_reply [OF assms(1,3)] by (simp add: read_reply_def)
qed

lemma head_type_bytes:
  "push_bit 8 (ucast a) OR ucast b = (push_bit 8 (ucast c) OR ucast d :: u16) \<longleftrightarrow> a = (c :: byte) \<and> b = (d :: byte)"
proof
  assume eq: "push_bit 8 (ucast a) OR ucast b = (push_bit 8 (ucast c) OR ucast d :: u16)"
  have lo: "ucast (push_bit 8 (ucast x) OR ucast y :: u16) = y" for x y :: byte
    by (rule bit_word_eqI) (auto simp: bit_simps)
  have hi: "ucast (drop_bit 8 (push_bit 8 (ucast x) OR ucast y :: u16)) = x" for x y :: byte
    by (rule bit_word_eqI) (auto simp: bit_simps dest: bit_imp_le_length)
  show "a = c \<and> b = d"
    using arg_cong [OF eq, of "\<lambda>w. ucast w :: byte"] arg_cong [OF eq, of "\<lambda>w. ucast (drop_bit 8 w) :: byte"]
    by (simp only: lo hi simp_thms)
qed simp

lemma acked_bytes:
  fixes pkt :: "byte list"
  assumes "length pkt = 6"
  shows "acked (Some (push_bit 8 (ucast (pkt ! 0)) OR ucast (pkt ! 1))) \<longleftrightarrow> take 2 pkt = [0, 0x80] \<or> take 2 pkt = [0, 0]"
    and "push_bit 8 (ucast (pkt ! 0)) OR ucast (pkt ! 1) = cmd_code BSL_REP_ACK \<longleftrightarrow> take 2 pkt = [0, 0x80]"
proof -
  have t: "take 2 pkt = [pkt ! 0, pkt ! 1]"
    using assms by (simp add: list_eq_iff_nth_eq nth_Cons' less_Suc_eq numeral_2_eq_2)
  have ack: "0x80 = (push_bit 8 (ucast (0 :: byte)) OR ucast (0x80 :: byte) :: u16)" by simp
  have zero: "0 = (push_bit 8 (ucast (0 :: byte)) OR ucast (0 :: byte) :: u16)" by simp
  show 2: "push_bit 8 (ucast (pkt ! 0)) OR ucast (pkt ! 1) = cmd_code BSL_REP_ACK \<longleftrightarrow> take 2 pkt = [0, 0x80]"
    unfolding t cmd_code.simps by (subst ack) (simp only: head_type_bytes list.inject simp_thms)
  have "push_bit 8 (ucast (pkt ! 0)) OR ucast (pkt ! 1) = (0 :: u16) \<longleftrightarrow> take 2 pkt = [0, 0]"
    unfolding t by (subst zero) (simp only: head_type_bytes list.inject simp_thms)
  then show "acked (Some (push_bit 8 (ucast (pkt ! 0)) OR ucast (pkt ! 1))) \<longleftrightarrow> take 2 pkt = [0, 0x80] \<or> take 2 pkt = [0, 0]"
    using 2 by (simp only: acked_def option.inject)
qed

lemma setup_data_serial:
  assumes "data_size \<le> 290" "data_size \<le> length buffer"
  shows "(do {
      bs \<leftarrow> mem_read buffer 0 data_size;
      uart_buffer \<leftarrow> mem_write (replicate 300 0) 8 bs;
      setup_packet BSL_CMD_MIDST_DATA uart_buffer 8 data_size 0 0 })
    = Some (replicate 4 0 @ sealed BSL_CMD_MIDST_DATA (take data_size buffer) @ replicate (290 - data_size) 0, data_size + 6)"
proof -
  have "mem_write (replicate 300 (0 :: byte)) 8 (take data_size buffer)
      = Some (replicate 8 0 @ take data_size buffer @ replicate (292 - data_size) 0)"
    using assms by (simp add: mem_write_def)
  moreover have "setup_packet BSL_CMD_MIDST_DATA b 8 data_size 0 0 = crc_packet b BSL_CMD_MIDST_DATA data_size" for b
    using setup_crc_packet [of BSL_CMD_MIDST_DATA b 8 data_size 0] by (simp add: BSL_UART_PACKET_def)
  ultimately show ?thesis
    using assms by (simp add: mem_read_def crc_packet_defined)
qed

lemma sealed_read:
  assumes "length pre = 4"
  shows "mem_read (pre @ sealed msg dat @ rest) 4 (length dat + 6) = Some (sealed msg dat)"
  using assms by (simp add: mem_read_def)

lemma sealed_parts:
  "sealed msg dat = put16 (cpu2be16 (cmd_code msg)) @ put16 (cpu2be16 (of_nat (length dat))) @ dat
     @ drop (length dat + 4) (sealed msg dat)"
proof -
  have "drop (length dat + 4) (sealed msg dat) = put16 (cpu2be16 (crc_16_l_calc (body msg dat)))"
    by (simp add: sealed_def)
  then show ?thesis by (simp add: sealed_def body_def)
qed

text \<open>C29. A data message of up to 290 bytes on a serial line that takes the frame in one
  \<open>write\<close> puts exactly one frame on the wire; a receiver that undoes the escapes gets the packet
  with type 2, the length, the payload and a correct CRC.  The 8-byte reply may arrive in any
  chunks; the call returns 0 exactly for an acknowledgement (type 0x80 or 0) and -1 for every
  other reply.\<close>

theorem send_data_message_serial:
  assumes "data_size \<le> 290" "data_size \<le> length buffer" "length (send_buffer s) = 4000"
    and "writes s = r # ws" "594 \<le> r"
    and "reads s = cs @ c # rs" "c \<noteq> []" "concat cs @ c = HDLC_FLAG # pkt @ [HDLC_FLAG]" "reply_frame pkt"
  shows "\<exists>line packet s'. send_data_message buffer data_size 0 image_size img s
        = Returned (if take 2 pkt = [0, 0x80] \<or> take 2 pkt = [0, 0] then 0 else -1, buffer, img, s')
      \<and> wire s' = wire s @ HDLC_FLAG # line @ [HDLC_FLAG] \<and> writes s' = ws \<and> reads s' = rs
      \<and> HDLC_FLAG \<notin> set line \<and> unescape line = packet
      \<and> packet = [0, 2] @ put16 (cpu2be16 (of_nat data_size)) @ take data_size buffer @ drop (data_size + 4) packet
      \<and> crc_16_l_calc packet = CRC_16_L_OK"
proof -
  let ?p = "sealed BSL_CMD_MIDST_DATA (take data_size buffer)"
  let ?u = "replicate 4 0 @ ?p @ replicate (290 - data_size) 0"
  let ?s = "s\<lparr>send_buffer := frame ?p @ drop (length (frame ?p)) (send_buffer s), wire := wire s @ frame ?p, writes := ws\<rparr>"
  have n: "length (take data_size buffer) = data_size" using assms(2) by simp
  have f: "length (frame ?p) \<le> 594" using length_frame(1) [of ?p] n assms(1) by simp
  have rd: "mem_read ?u 4 (data_size + 6) = Some ?p"
    using sealed_read [of "replicate 4 0" BSL_CMD_MIDST_DATA "take data_size buffer" "replicate (290 - data_size) 0"] n by simp
  have uw: "uart_write ?u (data_size + 6) s = Returned (int (length (frame ?p)), ?s)"
    using uart_write_whole [OF rd _ assms(4)] f assms(3,5) by simp
  let ?s' = "?s\<lparr>reads := rs, send_buffer := pkt @ drop 6 (send_buffer ?s)\<rparr>"
  have rr: "read_reply 0 (int (length (frame ?p))) raw_zero ?s
      = Returned (Some (push_bit 8 (ucast (pkt ! 0)) OR ucast (pkt ! 1)), ?s')"
  proof (rule read_reply_serial [OF assms(9) _ _ _ _ assms(7,8)])
    show "0 < int (length (frame ?p))" using length_frame(2) [of ?p] by linarith
  qed (use assms(3,6) f in \<open>simp_all add: raw_zero_def\<close>)
  have l: "length pkt = 6" using assms(9) by (simp add: reply_frame_def)
  have "send_data_message buffer data_size 0 image_size img s
        = Returned (if take 2 pkt = [0, 0x80] \<or> take 2 pkt = [0, 0] then 0 else -1, buffer, img, ?s')"
    unfolding send_data_message_def setup_data_serial [OF assms(1,2)]
    by (simp add: uw rr acked_bytes(1) [OF l, simplified] del: cmd_code.simps)
  moreover have "?p = [0, 2] @ put16 (cpu2be16 (of_nat data_size)) @ take data_size buffer @ drop (data_size + 4) ?p"
    using sealed_parts [of BSL_CMD_MIDST_DATA "take data_size buffer"] n unfolding put16_be by simp
  moreover have "crc_16_l_calc ?p = CRC_16_L_OK" unfolding sealed_def by (rule crc_residue)
  ultimately show ?thesis
    using flag_not_escape [of ?p] unescape_escape [of ?p]
    by (intro exI [of _ "escape ?p"] exI [of _ ?p] exI [of _ ?s']) (simp add: frame_def HDLC_FLAG_def)
qed

definition demo_fdl :: "byte list list \<Rightarrow> int list \<Rightarrow> fdl_state" where
  "demo_fdl rds wrs = \<lparr>send_buffer = replicate 4000 0, max_transfer_size = 0, wire = [], writes = wrs, reads = rds\<rparr>"

theorem send_data_message_serial_witness:
  "\<exists>line packet s'. send_data_message [0x7E, 0x11] 2 0 0 [] (demo_fdl [[0x7E, 0], [], [0x80, 0, 0, 1, 2, 0x7E]] [600])
        = Returned (if take 2 [0 :: byte, 0x80, 0, 0, 1, 2] = [0, 0x80] \<or> take 2 [0 :: byte, 0x80, 0, 0, 1, 2] = [0, 0] then 0 else -1,
            [0x7E, 0x11], [], s')
      \<and> wire s' = wire (demo_fdl [[0x7E, 0], [], [0x80, 0, 0, 1, 2, 0x7E]] [600]) @ HDLC_FLAG # line @ [HDLC_FLAG]
      \<and> writes s' = [] \<and> reads s' = []
      \<and> HDLC_FLAG \<notin> set line \<and> unescape line = packet
      \<and> packet = [0, 2] @ put16 (cpu2be16 (of_nat 2)) @ take 2 [0x7E, 0x11] @ drop (2 + 4) packet
      \<and> crc_16_l_calc packet = CRC_16_L_OK"
  by (rule send_data_message_serial [where r = 600 and cs = "[[0x7E, 0], []]" and c = "[0x80, 0, 0, 1, 2, 0x7E]"])
    (simp_all add: demo_fdl_def reply_frame_def HDLC_FLAG_def HDLC_ESCAPE_def)

text \<open>On the serial line \<open>send_data_message\<close> stays within its 300-byte \<open>uart_buffer\<close> and the
  4000-byte \<open>send_buffer\<close> exactly for payloads of at most 290 bytes that the caller's buffer holds:
  before the device answers anything, every other size is undefined behaviour.\<close>

theorem send_data_message_serial_bound:
  "send_data_message buffer data_size 0 image_size img (s\<lparr>writes := [], send_buffer := replicate 4000 0\<rparr>)
    = (if data_size \<le> 290 \<and> data_size \<le> length buffer then Waiting else Undefined)"
proof (cases "data_size \<le> 290 \<and> data_size \<le> length buffer")
  case True
  let ?p = "sealed BSL_CMD_MIDST_DATA (take data_size buffer)"
  let ?s = "s\<lparr>writes := [], send_buffer := replicate 4000 0\<rparr>"
  have f: "length (frame ?p) \<le> 594" using length_frame(1) [of ?p] True by simp
  have "mem_read (replicate 4 0 @ ?p @ replicate (290 - data_size) 0) 4 (data_size + 6) = Some ?p"
    using sealed_read [of "replicate 4 0" BSL_CMD_MIDST_DATA "take data_size buffer" "replicate (290 - data_size) 0"] True by simp
  then have "uart_write (replicate 4 0 @ ?p @ replicate (290 - data_size) 0) (data_size + 6) ?s = Waiting"
    using uart_write_translated [of _ _ ?p ?s] f by simp
  then show ?thesis
    using True unfolding send_data_message_def
    by (simp only: setup_data_serial checked_simps and_then.simps if_True simp_thms prod.case)
next
  case False
  have "setup_packet BSL_CMD_MIDST_DATA b 8 data_size 0 0 = crc_packet b BSL_CMD_MIDST_DATA data_size" for b
    using setup_crc_packet [of BSL_CMD_MIDST_DATA b 8 data_size 0] by (simp add: BSL_UART_PACKET_def)
  then have "(do {
      bs \<leftarrow> mem_read buffer 0 data_size;
      uart_buffer \<leftarrow> mem_write (replicate 300 0) 8 bs;
      setup_packet BSL_CMD_MIDST_DATA uart_buffer 8 data_size 0 0 }) = None"
    using False by (auto simp: mem_read_def mem_write_def crc_packet_defined)
  then show ?thesis using False unfolding send_data_message_def by (simp only: checked_simps and_then.simps if_False simp_thms if_True)
qed

text \<open>The write loop restarts from the beginning of \<open>send_buffer\<close> after a short write: when
  the line takes first \<open>k\<close> bytes of a frame and then the rest of the count, the bytes on the wire
  are the frame only if just its last byte was missing.\<close>

theorem uart_short_write:
  assumes "mem_read raw 4 n = Some src" "length (frame src) \<le> length (send_buffer s)"
    and "writes s = [int k, int (length (frame src))]" "0 < k" "k < length (frame src)"
  shows "\<exists>retval s'. uart_write raw n s = Returned (retval, s')
    \<and> (wire s' = wire s @ frame src \<longleftrightarrow> k = length (frame src) - 1)"
proof -
  let ?f = "frame src"
  let ?s' = "s\<lparr>send_buffer := ?f @ drop (length ?f) (send_buffer s), wire := wire s @ take k ?f @ take (length ?f - k) ?f, writes := []\<rparr>"
  have "write_loop (writes s) (?f @ drop (length ?f) (send_buffer s)) (length ?f) (wire s)
      = Returned (int (length ?f - k), wire s @ take k ?f @ take (length ?f - k) ?f, [])"
    using assms(4,5) unfolding assms(3) by (simp add: Let_def nat_diff_distrib)
  then have "uart_write raw n s = Returned (int (length ?f - k), ?s')"
    unfolding uart_write_translated [OF assms(1,2)] by simp
  moreover have "take k ?f @ take (length ?f - k) ?f = ?f \<longleftrightarrow> k = length ?f - 1"
  proof
    assume "take k ?f @ take (length ?f - k) ?f = ?f"
    then have "take (length ?f - k) ?f = drop k ?f" by (metis append_take_drop_id same_append_eq)
    then have "?f ! 0 = ?f ! k" using assms(5) by (metis add.right_neutral hd_conv_nth hd_drop_conv_nth hd_take
          length_greater_0_conv list.size(3) not_less_zero zero_less_diff)
    then have "?f ! k = 0x7E" by (simp add: frame_def)
    then have "k - 1 \<ge> length (escape src)"
      using flag_not_escape [of src] assms(4) nth_mem [of "k - 1" "escape src"]
      by (cases k) (fastforce simp: frame_def nth_append split: if_splits)+
    then show "k = length ?f - 1" using assms(4,5) by (simp add: frame_def)
  next
    assume "k = length ?f - 1"
    then show "take k ?f @ take (length ?f - k) ?f = ?f"
      using assms(5) by (simp add: frame_def)
  qed
  ultimately show ?thesis by (intro exI [of _ "int (length ?f - k)"] exI [of _ ?s']) simp
qed

theorem uart_short_write_witness:
  "\<exists>retval s'. uart_write [0, 0, 0, 0, 0, 3, 0, 0, 1, 2] 6 (demo_fdl [] [int 3, int (length (frame [0, 3, 0, 0, 1, 2]))]) = Returned (retval, s')
    \<and> (wire s' = wire (demo_fdl [] [int 3, int (length (frame [0, 3, 0, 0, 1, 2]))]) @ frame [0, 3, 0, 0, 1, 2]
        \<longleftrightarrow> 3 = length (frame [0, 3, 0, 0, 1, 2]) - 1)"
  by (rule uart_short_write) (simp_all add: mem_read_def frame_def demo_fdl_def)

lemma setup_connect_serial:
  "setup_packet BSL_CMD_CONNECT raw_zero 8 0 0 0 = Some (raw_zero, 6)"
  by code_simp

text \<open>A serial line whose writes fail keeps \<open>send_connect_message\<close> in its loop: however many
  failing writes there are, the call does not return.\<close>

theorem send_connect_blocks_on_write_errors:
  assumes "\<forall>r \<in> set (writes s). r \<le> 0" "length (send_buffer s) = 4000"
  shows "send_connect_message 0 s = Waiting"
proof -
  have m: "mem_read raw_zero 4 6 = Some (replicate 6 0)" by (simp add: mem_read_def raw_zero_def)
  have "0 < length (frame (replicate 6 0))" "length (frame (replicate 6 0)) \<le> 4000"
    using length_frame [of "replicate 6 0"] by (simp_all del: length_greater_0_conv)
  then have "uart_write raw_zero 6 s = Waiting"
    using uart_write_translated [OF m, of s] write_loop_stuck [OF assms(1)] assms(2) by simp
  then show ?thesis
    unfolding send_connect_message_def setup_connect_serial write_packet_def by simp
qed

theorem send_connect_blocks_on_write_errors_witness: "send_connect_message 0 (demo_fdl [] [-1, 0, -1]) = Waiting"
  by (rule send_connect_blocks_on_write_errors) (simp_all add: demo_fdl_def)

lemma setup_switch_serial:
  "(do { raw_buffer \<leftarrow> store32 raw_zero 8 w; setup_packet BSL_CMD_SWITCH_MODE raw_buffer 8 0 BSL_UART_PACKET 0 })
    = Some (replicate 4 0 @ [0, 0x0D, 0, 0] @ put16 (frm_chk [0, 0x0D, 0, 0]) @ drop 2 (put32 w) @ replicate 20 0, 6)"
proof -
  have z: "raw_zero = replicate 4 0 @ replicate 4 0 @ [] @ (replicate 4 0 @ replicate 20 0)"
    by (simp add: raw_zero_def numeral_eq_Suc)
  have st: "store32 raw_zero 8 w = Some (replicate 4 0 @ replicate 4 0 @ [] @ put32 w @ replicate 20 0)"
    unfolding z by (simp add: store32_def mem_write_def)
  have c: "body BSL_CMD_SWITCH_MODE [] = [0, 0x0D, 0, 0]" by code_simp
  have h: "set_head (replicate 4 0 @ replicate 4 0 @ [] @ put32 w @ replicate 20 0) BSL_CMD_SWITCH_MODE 0
      = Some (replicate 4 0 @ [0, 0x0D, 0, 0] @ put32 w @ replicate 20 0)"
    using set_head_body [of "replicate 4 0" "replicate 4 0" "[]" "put32 w @ replicate 20 0" BSL_CMD_SWITCH_MODE] unfolding c by simp
  have r: "mem_read (replicate 4 0 @ [0, 0x0D, 0, 0] @ put32 w @ replicate 20 0) 4 4 = Some [0, 0x0D, 0, 0]"
    by (simp add: mem_read_def)
  have "store16 (replicate 4 0 @ [0, 0x0D, 0, 0] @ put32 w @ replicate 20 0) 8 v
      = Some (replicate 4 0 @ [0, 0x0D, 0, 0] @ put16 v @ drop 2 (put32 w) @ replicate 20 0)" for v
    using store16_at [of "replicate 4 0 @ [0, 0x0D, 0, 0]" "put32 w @ replicate 20 0" v] by simp
  moreover have "setup_packet BSL_CMD_SWITCH_MODE b 8 0 BSL_UART_PACKET 0 = do {
      b \<leftarrow> set_head b BSL_CMD_SWITCH_MODE 0; head \<leftarrow> mem_read b 4 4; b \<leftarrow> store16 b 8 (frm_chk head); Some (b, 6) }" for b
    by (simp add: setup_packet_def)
  ultimately show ?thesis by (simp only: st h r Option.bind_lunit)
qed

lemma read_loop_prefix:
  assumes "length raw = length raw'" "take offset raw = take offset raw'" "offset \<le> length raw"
  shows "rel_outcome (\<lambda>(r, b, ofs, rs) (r', b', ofs', rs'). r = r' \<and> take ofs b = take ofs b' \<and> ofs = ofs' \<and> rs = rs')
    (read_loop rs raw offset sz) (read_loop rs raw' offset sz)"
  using assms
proof (induction rs arbitrary: raw raw' offset sz)
  case (Cons r rs)
  let ?bs = "take sz r"
  show ?case
  proof (cases "offset + length ?bs \<le> length raw")
    case True
    let ?w = "\<lambda>m. take offset m @ ?bs @ drop (offset + length ?bs) m"
    have w: "mem_write raw offset ?bs = Some (?w raw)" "mem_write raw' offset ?bs = Some (?w raw')"
      using True Cons.prems(1) by (simp_all only: mem_write_def if_True)
    have t: "take (offset + length ?bs) (?w raw) = take (offset + length ?bs) (?w raw')"
      using True Cons.prems by simp
    have "rel_outcome (\<lambda>(r, b, ofs, rs) (r', b', ofs', rs'). r = r' \<and> take ofs b = take ofs b' \<and> ofs = ofs' \<and> rs = rs')
      (read_loop rs (?w raw) (offset + length ?bs) (sz - length ?bs)) (read_loop rs (?w raw') (offset + length ?bs) (sz - length ?bs))"
      using True Cons.prems t by (intro Cons.IH) auto
    moreover have "read_loop (r # rs) m offset sz = (if sz - length ?bs \<noteq> 0
        then read_loop rs (?w m) (offset + length ?bs) (sz - length ?bs)
        else Returned (int (length ?bs), ?w m, offset + length ?bs, rs))" if "mem_write m offset ?bs = Some (?w m)" for m
      by (simp only: read_loop.simps Let_def that checked_simps and_then.simps)
    ultimately show ?thesis
      using t by (cases "sz - length ?bs = 0") (simp_all only: w if_True if_False outcome.rel_inject prod.case simp_thms)
  next
    case False
    then show ?thesis using Cons.prems(1) by (simp add: mem_write_def)
  qed
qed simp

lemma read_reply_raw:
  assumes "length raw = length raw'"
  shows "read_reply 0 retval raw s = read_reply 0 retval raw' s"
proof -
  have "rel_outcome (\<lambda>(r, b, ofs, rs) (r', b', ofs', rs'). r = r' \<and> take ofs b = take ofs b' \<and> ofs = ofs' \<and> rs = rs')
    (read_loop (reads s) raw 0 8) (read_loop (reads s) raw' 0 8)"
    using assms by (intro read_loop_prefix) auto
  then show ?thesis
    by (cases "read_loop (reads s) raw 0 8"; cases "read_loop (reads s) raw' 0 8") (auto simp: read_reply_def Let_def)
qed

lemma and_then_cong: "(\<And>x. m = Returned x \<Longrightarrow> f x = g x) \<Longrightarrow> and_then m f = and_then m g"
  by (cases m) auto

lemma map_and_then: "map_outcome h (and_then m f) = and_then m (\<lambda>x. map_outcome h (f x))"
  by (cases m) auto

lemma uart_write_commutes:
  "uart_write raw n (s\<lparr>max_transfer_size := m\<rparr>) = map_outcome (\<lambda>(r, t). (r, t\<lparr>max_transfer_size := m\<rparr>)) (uart_write raw n s)"
  by (auto simp: uart_write_def map_and_then intro!: and_then_cong split: prod.splits)

lemma read_reply_commutes:
  "read_reply flag retval raw (s\<lparr>max_transfer_size := m\<rparr>)
     = map_outcome (\<lambda>(r, t). (r, t\<lparr>max_transfer_size := m\<rparr>)) (read_reply flag retval raw s)"
  by (auto simp: read_reply_def map_and_then Let_def intro!: and_then_cong split: prod.splits)

lemma and_then_map: "and_then (map_outcome h m) f = and_then m (\<lambda>x. f (h x))"
  by (cases m) auto

text \<open>The transfer size given to \<open>uart_send_change_spi_mode_message\<close> is never sent: the packet
  has no payload and its checksum overwrites the stored size, so calls with any two sizes behave
  the same but for \<open>max_transfer_size\<close>.\<close>

theorem change_spi_mode_drops_size:
  "uart_send_change_spi_mode_message m s =
     map_outcome (\<lambda>(ret, t). (ret, t\<lparr>max_transfer_size := m\<rparr>)) (uart_send_change_spi_mode_message m' s)"
proof -
  let ?p = "[0, 0x0D, 0, 0] @ put16 (frm_chk [0, 0x0D, 0, 0])"
  let ?raw = "\<lambda>w. replicate 4 0 @ [0, 0x0D, 0, 0] @ put16 (frm_chk [0, 0x0D, 0, 0]) @ drop 2 (put32 w) @ replicate 20 0"
  have "mem_read (?raw w) 4 6 = Some ?p" for w by (simp add: mem_read_def)
  then have uw: "uart_write (?raw w) 6 t = uart_write (?raw v) 6 t" for w v and t :: "'a fdl_state_scheme"
    by (simp only: uart_write_def)
  have rr: "read_reply 0 r (?raw w) t = read_reply 0 r (?raw v) t" for r w v and t :: "'a fdl_state_scheme"
    by (rule read_reply_raw) simp
  have eq: "uart_send_change_spi_mode_message k s =
      and_then (uart_write (?raw 0) 6 s) (\<lambda>(retval, t).
      and_then (read_reply 0 retval (?raw 0) t) (\<lambda>(head, t).
        Returned (if head = Some (cmd_code BSL_REP_ACK) then 0 else -1, t\<lparr>max_transfer_size := k\<rparr>)))" for k
    unfolding uart_send_change_spi_mode_message_def Let_def setup_switch_serial checked_simps and_then.simps prod.case
      uw [of "cpu2be32_int k" _ 0] uart_write_commutes and_then_map rr [of _ "cpu2be32_int k" _ 0]
    by (auto simp: read_reply_commutes and_then_map intro!: and_then_cong split: prod.splits)
  show ?thesis unfolding eq
    by (auto simp: map_and_then intro!: and_then_cong split: prod.splits)
qed

end
