(* ===== verification/ModemImage.thy ===== *)
theory ModemImage
  imports FdlSend
begin

text \<open>
  The image download of \<^verbatim>\<open>src/apps/modem_control/modem_boot.c\<close> over the messages of \<open>FdlSend\<close>: the
  image table and its memory map (\<^verbatim>\<open>modem_mem_map.h\<close>), the configuration file that replaces the
  table, the checked choice of the backup image, the mode strings appended to the kernel command
  line, \<open>download_image\<close>, \<open>download_images\<close> and the serial download of the boot loader
  (\<open>load_fdl2memory\<close>, \<open>download_fdl\<close>).

  The state extends that of the messages (the channel the code is given) with the static
  variables of the file, the files that can be opened and the system properties.  A \<open>read\<close> of an
  image file delivers what is asked for as far as the file goes.
\<close>

section \<open>The image table\<close>

definition MODE_SVLTE :: u32 where "MODE_SVLTE = 0x1"
definition MODE_TCSFB :: u32 where "MODE_TCSFB = 0x2"
definition MODE_FCSFB :: u32 where "MODE_FCSFB = 0x4"
definition MODE_ALL :: u32 where "MODE_ALL = 0xFF"

record image_info =
  image_path :: "string option"
  image_path_bak :: "string option"
  image_size :: u32
  address :: u32
  mask :: u32

definition PARM_BASE_ADDR :: u32 where "PARM_BASE_ADDR = 0x80000000"
definition PARM_TOTAL_SIZE :: u32 where "PARM_TOTAL_SIZE = 0x1600000"
definition PARM_DSP_OFFSET :: u32 where "PARM_DSP_OFFSET = PARM_BASE_ADDR + 0x20000"
definition PARM_DSP_SIZE :: u32 where "PARM_DSP_SIZE = 0x3E0000"
definition PARM_CODE_OFFSET :: u32 where "PARM_CODE_OFFSET = PARM_BASE_ADDR + 0x400000"
definition PARM_CODE_SIZE :: u32 where "PARM_CODE_SIZE = 0x670000"
definition PARM_FIX_NV_OFFSET :: u32 where "PARM_FIX_NV_OFFSET = PARM_BASE_ADDR + 0xA90000"
definition PARM_FIX_NV_SIZE :: u32 where "PARM_FIX_NV_SIZE = 0x20000"
definition PARM_RUN_NV_OFFSET :: u32 where "PARM_RUN_NV_OFFSET = PARM_FIX_NV_OFFSET + PARM_FIX_NV_SIZE"
definition PARM_RUN_NV_SIZE :: u32 where "PARM_RUN_NV_SIZE = 0x40000"
definition PARM_CMD_LINE_OFFSET :: u32 where "PARM_CMD_LINE_OFFSET = PARM_BASE_ADDR + 0xAF0000"
definition PARM_CMD_LINE_SIZE :: u32 where "PARM_CMD_LINE_SIZE = 0x10000"
definition CA5_BASE_ADDR :: u32 where "CA5_BASE_ADDR = PARM_BASE_ADDR + PARM_TOTAL_SIZE"
definition CA5_TG_DSP_OFFSET :: u32 where "CA5_TG_DSP_OFFSET = CA5_BASE_ADDR + 0x20000"
definition CA5_TG_DSP_SIZE :: u32 where "CA5_TG_DSP_SIZE = 0x3E0000"
definition CA5_CODE_OFFSET :: u32 where "CA5_CODE_OFFSET = CA5_BASE_ADDR + 0x400000"
definition CA5_CODE_SIZE :: u32 where "CA5_CODE_SIZE = 0x8F0000"
definition CA5_FIX_NV_OFFSET :: u32 where "CA5_FIX_NV_OFFSET = CA5_BASE_ADDR + 0xD10000"
definition CA5_FIX_NV_SIZE :: u32 where "CA5_FIX_NV_SIZE = 0x40000"
definition CA5_RUN_NV_OFFSET :: u32 where "CA5_RUN_NV_OFFSET = CA5_FIX_NV_OFFSET + CA5_FIX_NV_SIZE"
definition CA5_RUN_NV_SIZE :: u32 where "CA5_RUN_NV_SIZE = 0x60000"
definition CA5_CMD_LINE_OFFSET :: u32 where "CA5_CMD_LINE_OFFSET = CA5_BASE_ADDR + 0xD70000"
definition CA5_CMD_LINE_SIZE :: u32 where "CA5_CMD_LINE_SIZE = 0x10000"
definition CA5_LTE_DSP_OFFSET :: u32 where "CA5_LTE_DSP_OFFSET = CA5_BASE_ADDR + 0xD80000"
definition CA5_LTE_DSP_SIZE :: u32 where "CA5_LTE_DSP_SIZE = 0x200000"

lemmas mem_map_defs =
  PARM_BASE_ADDR_def PARM_TOTAL_SIZE_def PARM_DSP_OFFSET_def PARM_DSP_SIZE_def PARM_CODE_OFFSET_def
  PARM_CODE_SIZE_def PARM_FIX_NV_OFFSET_def PARM_FIX_NV_SIZE_def PARM_RUN_NV_OFFSET_def
  PARM_RUN_NV_SIZE_def PARM_CMD_LINE_OFFSET_def PARM_CMD_LINE_SIZE_def CA5_BASE_ADDR_def
  CA5_TG_DSP_OFFSET_def CA5_TG_DSP_SIZE_def CA5_CODE_OFFSET_def CA5_CODE_SIZE_def
  CA5_FIX_NV_OFFSET_def CA5_FIX_NV_SIZE_def CA5_RUN_NV_OFFSET_def CA5_RUN_NV_SIZE_def
  CA5_CMD_LINE_OFFSET_def CA5_CMD_LINE_SIZE_def CA5_LTE_DSP_OFFSET_def CA5_LTE_DSP_SIZE_def

definition by_name :: "string \<Rightarrow> u32 \<Rightarrow> u32 \<Rightarrow> u32 \<Rightarrow> image_info" where
  "by_name name sz addr m =
     (let path = ''/dev/block/platform/sprd-sdhci.3/by-name/'' @ name
      in \<lparr>image_path = Some path, image_path_bak = Some path, image_size = sz, address = addr, mask = m\<rparr>)"

definition proc_cmdline :: string where "proc_cmdline = ''/proc/cmdline''"

definition cmdline_info :: "u32 \<Rightarrow> u32 \<Rightarrow> u32 \<Rightarrow> image_info" where
  "cmdline_info sz addr m =
     \<lparr>image_path = Some proc_cmdline, image_path_bak = Some proc_cmdline, image_size = sz, address = addr, mask = m\<rparr>"

definition no_image :: image_info where
  "no_image = \<lparr>image_path = None, image_path_bak = None, image_size = 0, address = 0, mask = 0\<rparr>"

definition download_image_info_init :: "image_info list" where
  "download_image_info_init = [
     by_name ''fdl'' 0x4000 0x20000000 MODE_ALL,
     by_name ''tddsp'' PARM_DSP_SIZE PARM_DSP_OFFSET MODE_SVLTE,
     by_name ''tdmodem'' PARM_CODE_SIZE PARM_CODE_OFFSET MODE_SVLTE,
     by_name ''tdfixnv1'' PARM_FIX_NV_SIZE PARM_FIX_NV_OFFSET MODE_SVLTE,
     by_name ''tdruntimenv1'' PARM_RUN_NV_SIZE PARM_RUN_NV_OFFSET MODE_SVLTE,
     cmdline_info PARM_CMD_LINE_SIZE PARM_CMD_LINE_OFFSET MODE_SVLTE,
     by_name ''l_modem'' CA5_CODE_SIZE CA5_CODE_OFFSET MODE_SVLTE,
     by_name ''l_fixnv1'' CA5_FIX_NV_SIZE CA5_FIX_NV_OFFSET MODE_SVLTE,
     by_name ''l_runtimenv1'' CA5_RUN_NV_SIZE CA5_RUN_NV_OFFSET MODE_SVLTE,
     by_name ''tl_tdsp'' CA5_TG_DSP_SIZE CA5_TG_DSP_OFFSET MODE_TCSFB,
     by_name ''tl_modem'' CA5_CODE_SIZE CA5_CODE_OFFSET MODE_TCSFB,
     by_name ''tl_fixnv1'' CA5_FIX_NV_SIZE CA5_FIX_NV_OFFSET MODE_TCSFB,
     by_name ''tl_runtimenv1'' CA5_RUN_NV_SIZE CA5_RUN_NV_OFFSET MODE_TCSFB,
     cmdline_info CA5_CMD_LINE_SIZE CA5_CMD_LINE_OFFSET MODE_ALL,
     by_name ''l_ldsp'' CA5_LTE_DSP_SIZE CA5_LTE_DSP_OFFSET MODE_SVLTE,
     by_name ''tl_ldsp'' CA5_LTE_DSP_SIZE CA5_LTE_DSP_OFFSET MODE_TCSFB,
     by_name ''dfs'' 0xf00 0x2000C000 MODE_ALL,
     no_image]"

definition max_item :: nat where "max_item = length download_image_info_init - 1"

section \<open>State\<close>

record boot_state = fdl_state +
  test_buffer :: "byte list"
  download_image_info :: "image_info list"
  modem_images_count :: nat
  capabilities_flag :: u32
  uart_dev :: string
  fdl_cp_poweron_delay :: u32
  image_files :: "string \<rightharpoonup> byte list"
  properties :: "string \<Rightarrow> string"

definition FDL_PACKET_SIZE :: nat where "FDL_PACKET_SIZE = 256"
definition LS_PACKET_SIZE :: nat where "LS_PACKET_SIZE = 256"
definition HS_PACKET_SIZE :: nat where "HS_PACKET_SIZE = 32 * 1024"
definition DL_FAILURE :: int where "DL_FAILURE = -1"
definition DL_SUCCESS :: int where "DL_SUCCESS = 0"

lemmas size_defs = FDL_PACKET_SIZE_def LS_PACKET_SIZE_def HS_PACKET_SIZE_def DL_FAILURE_def DL_SUCCESS_def

text \<open>\<open>strncmp(prop, "csfb", 4)\<close> compares the first four characters.\<close>

definition get_modem_capabilities :: "'a boot_state_scheme \<Rightarrow> u32 \<times> 'a boot_state_scheme" where
  "get_modem_capabilities s =
     (let flag = (if take 4 (properties s ''persist.radio.ssda.mode'') = ''csfb'' then MODE_TCSFB else MODE_SVLTE)
      in (flag, s\<lparr>capabilities_flag := flag\<rparr>))"

definition set_modem_capabilities :: "u32 \<Rightarrow> 'a boot_state_scheme \<Rightarrow> 'a boot_state_scheme" where
  "set_modem_capabilities flag s = s\<lparr>capabilities_flag := flag\<rparr>"

section \<open>Checking an image and its backup\<close>

text \<open>
  The loops of \<open>calc_checksum\<close>: 16-bit units from an even address, and from an odd address pairs of
  16-bit units of which the second is shifted as if it were a byte.
\<close>

fun calc_checksum_odd :: "nat \<Rightarrow> byte list \<Rightarrow> u32 \<Rightarrow> u32 option" where
  "calc_checksum_odd 0 bs checksum = Some checksum"
| "calc_checksum_odd (Suc 0) (a # b # bs) checksum = Some (checksum + load16 a b)"
| "calc_checksum_odd (Suc (Suc len)) (a # b # c # d # bs) checksum =
     calc_checksum_odd len bs (checksum + (load16 a b OR push_bit 8 (load16 c d)))"
| "calc_checksum_odd _ _ _ = None"

definition calc_checksum :: "bool \<Rightarrow> byte list \<Rightarrow> nat \<Rightarrow> u16 option" where
  "calc_checksum even_address dat len = do {
     checksum \<leftarrow> (if even_address then do {
         bs \<leftarrow> mem_read dat 0 len;
         let checksum = boot_checksum_loop (len div 2) bs 0;
         Some (if odd len then checksum + ucast (bs ! (len - 1)) else checksum) }
       else calc_checksum_odd len dat 0);
     let checksum = drop_bit 16 checksum + (checksum AND 0xffff);
     let checksum = checksum + drop_bit 16 checksum;
     Some (ucast (NOT checksum)) }"

text \<open>The buffer comes from \<open>malloc\<close>, so its address is even; below four bytes the index is negative.\<close>

definition img_chkEcc :: "byte list \<Rightarrow> nat \<Rightarrow> bool option" where
  "img_chkEcc buf sz =
     (if sz < 4 then None
      else do {
        crc \<leftarrow> calc_checksum True buf (sz - 4);
        ori \<leftarrow> mem_read buf (sz - 4) 2;
        Some (crc = push_bit 8 (ucast (ori ! 1)) OR ucast (ori ! 0)) })"

text \<open>A size with the sign bit set makes \<open>malloc\<close> fail and \<open>memset\<close> write through the null pointer.\<close>

definition chkImg :: "string option \<Rightarrow> u32 \<Rightarrow> 'a boot_state_scheme \<Rightarrow> bool option" where
  "chkImg fileName sz s =
     (if sint sz < 0 then None
      else case Option.bind fileName (image_files s) of
        None \<Rightarrow> Some False
      | Some content \<Rightarrow>
          if length content < unat sz then Some False
          else img_chkEcc (take (unat sz) content) (unat sz))"

section \<open>The configuration file\<close>

definition isspace :: "char \<Rightarrow> bool" where
  "isspace c = (c \<in> {CHR '' '', CHR 0x09, CHR 0x0A, CHR 0x0B, CHR 0x0C, CHR 0x0D})"

definition xdigit :: "char \<Rightarrow> int option" where
  "xdigit c =
     (let n = (of_char c :: int) in
      if 48 \<le> n \<and> n \<le> 57 then Some (n - 48)
      else if 65 \<le> n \<and> n \<le> 70 then Some (n - 55)
      else if 97 \<le> n \<and> n \<le> 102 then Some (n - 87)
      else None)"

text \<open>The conversion \<open>%s\<close> of \<open>sscanf\<close>: nothing at the end of the input.\<close>

definition scan_s :: "string \<Rightarrow> (string \<times> string) option" where
  "scan_s str =
     (let str = dropWhile isspace str
      in if str = [] then None
         else Some (takeWhile (\<lambda>c. \<not> isspace c) str, dropWhile (\<lambda>c. \<not> isspace c) str))"

text \<open>
  The conversion \<open>%x\<close>: an optional sign, an optional \<open>0x\<close>, hexadecimal digits.  The inner option is
  that of a failed conversion; a value that does not fit is undefined behaviour.
\<close>

definition scan_x :: "string \<Rightarrow> (u32 \<times> string) option option" where
  "scan_x str =
     (let str = dropWhile isspace str;
          negative = (str \<noteq> [] \<and> str ! 0 = CHR ''-'');
          str = (if str \<noteq> [] \<and> str ! 0 \<in> {CHR ''-'', CHR ''+''} then drop 1 str else str);
          str = (if take 2 str \<in> {''0x'', ''0X''} then drop 2 str else str);
          digits = takeWhile (\<lambda>c. xdigit c \<noteq> None) str;
          v = foldl (\<lambda>n c. 16 * n + the (xdigit c)) 0 digits
      in if digits = [] then Some None
         else if 2 ^ 32 \<le> v then None
         else Some (Some (if negative then - word_of_int v else word_of_int v, drop (length digits) str)))"

text \<open>\<open>fgets(line, 512, fp)\<close> until the end of the file.\<close>

function fgets_lines :: "string \<Rightarrow> string list" where
  "fgets_lines str =
     (if str = [] then []
      else let n = min 511 (length (takeWhile (\<lambda>c. c \<noteq> CHR 0x0A) str) + 1)
           in take n str # fgets_lines (drop n str))"
  by auto
termination by (relation "measure length") auto

declare fgets_lines.simps [simp del]

text \<open>
  One line: the scanned words land in \<open>originPath\<close> and \<open>bakPath\<close> (100 bytes each, of the earlier line
  where the line has no word for them) and in entry \<open>cnt\<close> of the table.
\<close>

definition scan_line :: "string \<Rightarrow> string option \<Rightarrow> image_info \<Rightarrow>
    ((string \<times> string option \<times> image_info) option) option" where
  "scan_line line bakPath info =
     (case scan_s line of
        None \<Rightarrow> Some None
      | Some (w1, rest) \<Rightarrow>
          if 100 \<le> length w1 then None
          else case scan_s rest of
            None \<Rightarrow> Some (Some (w1, bakPath, info))
          | Some (w2, rest) \<Rightarrow>
              if 100 \<le> length w2 then None
              else do {
                x1 \<leftarrow> scan_x rest;
                case x1 of
                  None \<Rightarrow> Some (Some (w1, Some w2, info))
                | Some (sz, rest) \<Rightarrow> do {
                    x2 \<leftarrow> scan_x rest;
                    Some (Some (w1, Some w2, case x2 of
                        None \<Rightarrow> info\<lparr>image_size := sz\<rparr>
                      | Some (addr, _) \<Rightarrow> info\<lparr>image_size := sz, address := addr\<rparr>)) } })"

definition config_entry :: "string \<Rightarrow> string option \<Rightarrow> image_info \<Rightarrow> nat \<Rightarrow> 'a boot_state_scheme \<Rightarrow>
    (string option \<times> nat \<times> 'a boot_state_scheme) option" where
  "config_entry originPath bakPath info cnt s =
     (if bakPath = None then None
      else let info = info\<lparr>image_path := Some originPath, image_path_bak := bakPath\<rparr>;
               s = s\<lparr>download_image_info := (download_image_info s)[cnt := info]\<rparr>
        in if address info = 0 \<or> image_size info = 0 then
             let s = s\<lparr>uart_dev := originPath\<rparr>;
                 s = (if image_size info \<noteq> 0 then s\<lparr>fdl_cp_poweron_delay := image_size info\<rparr> else s)
             in Some (bakPath, cnt, s)
           else Some (bakPath, cnt + 1, s))"

definition config_line :: "string \<Rightarrow> string option \<Rightarrow> nat \<Rightarrow> 'a boot_state_scheme \<Rightarrow>
    (string option \<times> nat \<times> 'a boot_state_scheme) option" where
  "config_line line bakPath cnt s =
     (let line = takeWhile (\<lambda>c. c \<noteq> CHR 0x00) line in
      if line = [] then None
      else let line = butlast line in
        if line = [] \<or> line ! 0 = CHR ''#'' then Some (bakPath, cnt, s)
        else do {
          r \<leftarrow> scan_line line bakPath (download_image_info s ! cnt);
          case r of
            None \<Rightarrow> Some (bakPath, cnt, s)
          | Some (originPath, bakPath, info) \<Rightarrow> config_entry originPath bakPath info cnt s })"

fun config_lines :: "string list \<Rightarrow> string option \<Rightarrow> nat \<Rightarrow> 'a boot_state_scheme \<Rightarrow> (nat \<times> 'a boot_state_scheme) option" where
  "config_lines [] bakPath cnt s = Some (cnt, s)"
| "config_lines (line # lines) bakPath cnt s = do {
     (bakPath, cnt, s) \<leftarrow> config_line line bakPath cnt s;
     if max_item \<le> cnt then Some (cnt, s) else config_lines lines bakPath cnt s }"

text \<open>\<open>strcpy\<close> of the backup path over the original one, which has room for its own length.\<close>

definition choose_image :: "'a boot_state_scheme \<Rightarrow> image_info \<Rightarrow> image_info option" where
  "choose_image s info =
     (if image_path info = image_path_bak info then Some info
      else do {
        ok \<leftarrow> chkImg (image_path info) (image_size info) s;
        if ok then Some info
        else do {
          ok \<leftarrow> chkImg (image_path_bak info) (image_size info) s;
          if \<not> ok then Some info
          else do {
            path \<leftarrow> image_path info;
            bak \<leftarrow> image_path_bak info;
            if length path < length bak then None
            else Some (info\<lparr>image_path := Some bak\<rparr>) } } })"

fun choose_images :: "nat \<Rightarrow> 'a boot_state_scheme \<Rightarrow> image_info list \<Rightarrow> image_info list option" where
  "choose_images (Suc n) s (info # infos) = do {
     info \<leftarrow> choose_image s info;
     infos \<leftarrow> choose_images n s infos;
     Some (info # infos) }"
| "choose_images _ s infos = Some infos"

text \<open>The cleared table before the file is read, and the entry that ends it.\<close>

definition clear_table :: "'a boot_state_scheme \<Rightarrow> 'a boot_state_scheme" where
  "clear_table s = s\<lparr>download_image_info := replicate (length (download_image_info s)) no_image, modem_images_count := 0\<rparr>"

definition end_table :: "nat \<Rightarrow> 'a boot_state_scheme \<Rightarrow> 'a boot_state_scheme" where
  "end_table cnt s =
     (let info = (download_image_info s ! cnt)\<lparr>image_path := None, image_path_bak := None, image_size := 0, address := 0\<rparr>
      in s\<lparr>download_image_info := (download_image_info s)[cnt := info], modem_images_count := cnt\<rparr>)"

definition get_modem_images_info :: "'a boot_state_scheme \<Rightarrow> (nat \<times> 'a boot_state_scheme) option" where
  "get_modem_images_info s =
     (case image_files s ''/modem_images.info'' of
        None \<Rightarrow> Some (0, s\<lparr>modem_images_count := max_item\<rparr>)
      | Some content \<Rightarrow> do {
          (cnt, s) \<leftarrow> config_lines (fgets_lines (map (\<lambda>b. char_of (unat b)) content)) None 0 (clear_table s);
          let s = end_table cnt s;
          infos \<leftarrow> choose_images cnt s (download_image_info s);
          Some (cnt, s\<lparr>download_image_info := infos\<rparr>) })"

section \<open>The kernel command line\<close>

definition bytes_of :: "string \<Rightarrow> byte list" where
  "bytes_of str = map of_char str"

text \<open>The string at \<open>m[i]\<close>, and \<open>strcat(&m[i], src)\<close>.\<close>

definition cstring :: "byte list \<Rightarrow> nat \<Rightarrow> byte list" where
  "cstring m i = takeWhile (\<lambda>b. b \<noteq> 0) (drop i m)"

definition strcat :: "byte list \<Rightarrow> nat \<Rightarrow> byte list \<Rightarrow> byte list option" where
  "strcat m i src = mem_write m (i + length (cstring m i)) (src @ [0])"

definition append_lte_mode :: "u32 \<Rightarrow> byte list \<Rightarrow> nat \<Rightarrow> byte list option" where
  "append_lte_mode flag m dst =
     (if flag = MODE_SVLTE then strcat m dst (bytes_of ''ltemode=svlte'')
      else if flag = MODE_TCSFB then strcat m dst (bytes_of ''ltemode=tcsfb'')
      else if flag = MODE_FCSFB then strcat m dst (bytes_of ''ltemode=fcsfb'')
      else Some m)"

text \<open>\<open>property_get\<close> writes the value with its terminator behind the prefix, in an array of 100 bytes.\<close>

definition append_test_mode :: "string \<Rightarrow> byte list \<Rightarrow> nat \<Rightarrow> (byte list \<times> nat) option" where
  "append_test_mode value m dst = do {
     prp \<leftarrow> mem_write (replicate 100 0) 0 (bytes_of ''testmode='' @ [0]);
     let ret = length (bytes_of ''testmode='');
     prp \<leftarrow> mem_write prp ret (bytes_of value @ [0]);
     let ret = ret + length (cstring prp ret);
     m \<leftarrow> strcat m dst (cstring prp 0);
     Some (m, ret) }"

section \<open>Downloading an image\<close>

text \<open>
  The \<open>do\<close> loop over \<open>read\<close>: a block of the file behind the packet header in \<open>test_buffer\<close>, and the
  mode strings behind the end of the command line.
\<close>

definition read_block :: "image_info \<Rightarrow> nat \<Rightarrow> byte list \<Rightarrow> 'a boot_state_scheme \<Rightarrow> 'a boot_state_scheme option" where
  "read_block info trans_size img s = do {
     let bs = take trans_size img;
     buf \<leftarrow> mem_write (test_buffer s) 8 bs;
     let buffer = 8 + length bs;
     buf \<leftarrow> (if length bs < trans_size \<and> image_path info = Some proc_cmdline then do {
         buf \<leftarrow> mem_write buf buffer [0];
         (buf, offset) \<leftarrow> append_test_mode (properties s ''persist.radio.ssda.testmode'') buf buffer;
         append_lte_mode (capabilities_flag s) buf (buffer + offset) }
       else Some buf);
     Some (s\<lparr>test_buffer := buf\<rparr>) }"

text \<open>The padding of the last block, whose loop runs on the counter \<open>i\<close> of the blocks.\<close>

definition pad_block :: "nat \<Rightarrow> int \<Rightarrow> int \<Rightarrow> 'a boot_state_scheme \<Rightarrow> (int \<times> int \<times> 'a boot_state_scheme) option" where
  "pad_block trans_size remaining i s =
     (if remaining < int trans_size then do {
        buf \<leftarrow> mem_write (test_buffer s) (8 + nat remaining) (replicate (trans_size - nat remaining) 0xFF);
        Some (int trans_size, 0, s\<lparr>test_buffer := buf\<rparr>) }
      else Some (i, remaining - int trans_size, s))"

lemma read_block_keeps: "read_block info t img s = Some s' \<Longrightarrow> writes s' = writes s"
  by (auto simp: read_block_def bind_eq_Some_conv Let_def split: if_splits)

lemma pad_block_keeps: "pad_block t n i s = Some (i', n', s') \<Longrightarrow> writes s' = writes s"
  by (auto simp: pad_block_def bind_eq_Some_conv split: if_splits)

lemma fd_write_consumes: "fd_write buf n s = Returned (r, s') \<Longrightarrow> length (writes s') < length (writes s)"
  by (cases "writes s") (auto simp: fd_write_def and_then_Returned_iff Let_def)

lemma write_loop_consumes:
  "write_loop rs buf n w = Returned (retval, w', rs') \<Longrightarrow> length rs' < length rs"
  by (induction rs arbitrary: n w) (fastforce simp: Let_def split: if_splits)+

lemma uart_write_consumes: "uart_write raw n s = Returned (r, s') \<Longrightarrow> length (writes s') < length (writes s)"
  by (auto simp: uart_write_def and_then_Returned_iff dest: write_loop_consumes split: prod.splits)

lemma read_reply_keeps: "read_reply flag r raw s = Returned (h, s') \<Longrightarrow> writes s' = writes s"
  by (auto simp: read_reply_def and_then_Returned_iff Let_def split: if_splits prod.splits)

lemma more_blocks_consumes:
  "more_blocks k n buf img r s = Returned (r', buf', img', s') \<Longrightarrow> length (writes s') \<le> length (writes s)"
  by (induction k arbitrary: buf img r s) (fastforce simp: and_then_Returned_iff dest: fd_write_consumes)+

lemma send_data_message_consumes:
  assumes "send_data_message buf n flag sz img s = Returned (ret, buf', img', s')"
  shows "length (writes s') < length (writes s)"
  using assms unfolding send_data_message_def
  by (auto simp: and_then_Returned_iff split: if_splits
      dest!: read_reply_keeps uart_write_consumes fd_write_consumes more_blocks_consumes)

function image_blocks :: "image_info \<Rightarrow> nat \<Rightarrow> int \<Rightarrow> int \<Rightarrow> int \<Rightarrow> byte list \<Rightarrow> 'a boot_state_scheme \<Rightarrow>
    (int \<times> 'a boot_state_scheme) outcome" where
  "image_blocks info trans_size count i remaining img s =
     (if i < count then
        and_then (checked (read_block info trans_size img s)) (\<lambda>s.
        and_then (checked (pad_block trans_size remaining i s)) (\<lambda>(i, remaining, s).
        and_then (send_data_message (test_buffer s) trans_size 1 trans_size (drop trans_size img) s) (\<lambda>(ret, buf, img, s).
        let s = s\<lparr>test_buffer := buf\<rparr> in
        if ret \<noteq> DL_SUCCESS then Returned (DL_FAILURE, s)
        else image_blocks info trans_size count (i + 1) remaining img s)))
      else send_end_message 1 s)"
  by auto
termination
  by (relation "measure (\<lambda>(info, t, count, i, n, img, s). length (writes s))")
    (auto dest!: read_block_keeps pad_block_keeps send_data_message_consumes)

declare image_blocks.simps [simp del]

definition BOOT_NV_HEAD_MAGIC :: u32 where "BOOT_NV_HEAD_MAGIC = 0x00004e56"

text \<open>
  The first 512 bytes are skipped if they start with the magic number of an NV image.  With fewer
  than four bytes the number is read from an uninitialised array.  The block count is computed in
  \<open>int\<close>; its division truncates towards zero.
\<close>

definition image_body :: "byte list \<Rightarrow> byte list option" where
  "image_body content =
     (if length content < 4 then None
      else Some (if get32 content 0 = BOOT_NV_HEAD_MAGIC then drop 512 content else content))"

definition trans_size_of :: "image_info \<Rightarrow> nat" where
  "trans_size_of info = (if unat (image_size info) < HS_PACKET_SIZE then LS_PACKET_SIZE else HS_PACKET_SIZE)"

definition block_count :: "int \<Rightarrow> nat \<Rightarrow> int option" where
  "block_count image_sz trans_size =
     (let n = image_sz + int trans_size - 1 in
      if 2 ^ 31 \<le> n then None
      else Some (if 0 \<le> n then n div int trans_size else - (- n div int trans_size)))"

definition download_image :: "image_info \<Rightarrow> 'a boot_state_scheme \<Rightarrow> (int \<times> 'a boot_state_scheme) outcome" where
  "download_image info s =
     (case image_path info of
        None \<Rightarrow> Returned (DL_SUCCESS, s)
      | Some path \<Rightarrow>
          let trans_size = trans_size_of info in
          case image_files s path of
            None \<Rightarrow> Returned (DL_SUCCESS, s)
          | Some content \<Rightarrow>
              and_then (checked (image_body content)) (\<lambda>img.
              let sz = sint (image_size info) in
              and_then (checked (block_count sz trans_size)) (\<lambda>count.
              and_then (send_start_message (word_of_int (count * int trans_size)) (address info) 1 s) (\<lambda>(ret, s).
              if ret \<noteq> DL_SUCCESS then Returned (DL_FAILURE, s)
              else image_blocks info trans_size count 0 sz img s))))"

section \<open>Downloading the images of the table\<close>

text \<open>The loop over the table; \<open>ret\<close> has no value before the first image is sent.\<close>

fun download_entries :: "u32 \<Rightarrow> int option \<Rightarrow> image_info list \<Rightarrow> 'a boot_state_scheme \<Rightarrow>
    (int option \<times> 'a boot_state_scheme) outcome" where
  "download_entries cap_mask ret [] s = Returned (ret, s)"
| "download_entries cap_mask ret (info # infos) s =
     (if mask info AND cap_mask \<noteq> 0 then
        and_then (download_image info s) (\<lambda>(ret, s).
        if ret \<noteq> DL_SUCCESS then Returned (Some ret, s)
        else download_entries cap_mask (Some ret) infos s)
      else download_entries cap_mask ret infos s)"

definition download_images :: "'a boot_state_scheme \<Rightarrow> (int \<times> 'a boot_state_scheme) outcome" where
  "download_images s =
     (let image_count = modem_images_count s - 1;
          (cap_mask, s) = get_modem_capabilities s
      in and_then (checked (mem_read (download_image_info s) 1 image_count)) (\<lambda>infos.
         and_then (download_entries cap_mask None infos s) (\<lambda>(ret, s).
         and_then (send_exec_message (if cap_mask AND 1 \<noteq> 0 then 0x80400000 else 0x80400001) 1 s) (\<lambda>(_, s).
         and_then (checked ret) (\<lambda>ret. Returned (ret, s))))))"

section \<open>Downloading the boot loader\<close>

text \<open>
  The whole file goes into a block of \<open>size + 4\<close> bytes (the last four, \<open>spare\<close>, as \<open>malloc\<close> left them);
  at the end of a shorter file the loop over \<open>read\<close> goes on for ever.
\<close>

definition load_fdl2memory :: "byte list \<Rightarrow> 'a boot_state_scheme \<Rightarrow> (byte list \<times> int) option outcome" where
  "load_fdl2memory spare s =
     and_then (checked (mem_read (download_image_info s) 0 1)) (\<lambda>infos.
     let info = infos ! 0 in
     case Option.bind (image_path info) (image_files s) of
       None \<Rightarrow> Returned None
     | Some content \<Rightarrow>
         if 2 ^ 31 \<le> sint (image_size info) + 4 then Undefined
         else if sint (image_size info) < 0 then Returned None
         else if length content < unat (image_size info) then Waiting
         else Returned (Some (take (unat (image_size info)) content @ spare, sint (image_size info))))"

function fdl_blocks :: "byte list \<Rightarrow> int \<Rightarrow> 'a boot_state_scheme \<Rightarrow> (int \<times> 'a boot_state_scheme) outcome" where
  "fdl_blocks buffer sz s =
     (if sz \<noteq> 0 then
        and_then (send_data_message buffer FDL_PACKET_SIZE 0 0 [] s) (\<lambda>(ret, _, _, s).
        if ret = DL_FAILURE then Returned (ret, s)
        else fdl_blocks (drop FDL_PACKET_SIZE buffer) (sz - int FDL_PACKET_SIZE) s)
      else Returned (DL_SUCCESS, s))"
  by auto
termination
  by (relation "measure (\<lambda>(buffer, sz, s). length (writes s))") (auto dest!: send_data_message_consumes)

declare fdl_blocks.simps [simp del]

definition download_fdl :: "byte list \<Rightarrow> 'a boot_state_scheme \<Rightarrow> (int \<times> 'a boot_state_scheme) outcome" where
  "download_fdl spare s =
     and_then (load_fdl2memory spare s) (\<lambda>loaded.
     case loaded of
       None \<Rightarrow> Returned (DL_FAILURE, s)
     | Some (buffer, sz) \<Rightarrow>
         let addr = address (download_image_info s ! 0) in
         and_then (send_start_message (word_of_int sz) addr 0 s) (\<lambda>(ret, s).
         if ret = DL_FAILURE then Returned (ret, s)
         else and_then (fdl_blocks buffer sz s) (\<lambda>(ret, s).
         if ret = DL_FAILURE then Returned (ret, s)
         else and_then (send_end_message 0 s) (\<lambda>(ret, s).
         if ret = DL_FAILURE then Returned (ret, s)
         else send_exec_message addr 0 s))))"

section \<open>Packets of the SPI channel\<close>

definition spi_head :: "u16 \<Rightarrow> u16 \<Rightarrow> u16 \<Rightarrow> byte list" where
  "spi_head len typ sm = (let h = put16 len @ put16 typ @ put16 sm in h @ put16 (boot_checksum h))"

lemma length_spi_head [simp]: "length (spi_head len typ sm) = 8"
  by (simp add: spi_head_def Let_def)

lemma store16_head:
  assumes "8 \<le> length b"
  shows "Option.bind (store16 b 0 v0) (\<lambda>b. Option.bind (store16 b 2 v1) (\<lambda>b. Option.bind (store16 b 4 v2) (\<lambda>b.
      Option.bind (store_checksum b 6 0 6) f))) = f (spi_head v0 v1 v2 @ drop 8 b)"
proof -
  have s0: "store16 b 0 v0 = Some (put16 v0 @ drop 2 b)"
    using store16_at [of "[]" b v0] assms by simp
  have s1: "store16 (put16 v0 @ drop 2 b) 2 v1 = Some ((put16 v0 @ put16 v1) @ drop 4 b)"
    using store16_at [of "put16 v0" "drop 2 b" v1] assms by simp
  have s2: "store16 ((put16 v0 @ put16 v1) @ drop 4 b) 4 v2 = Some ((put16 v0 @ put16 v1 @ put16 v2) @ drop 6 b)"
    using store16_at [of "put16 v0 @ put16 v1" "drop 4 b" v2] assms by simp
  have "store16 ((put16 v0 @ put16 v1 @ put16 v2) @ drop 6 b) 6 v
      = Some ((put16 v0 @ put16 v1 @ put16 v2) @ put16 v @ drop 8 b)" for v
    using store16_at [of "put16 v0 @ put16 v1 @ put16 v2" "drop 6 b" v] assms by simp
  moreover have "mem_read ((put16 v0 @ put16 v1 @ put16 v2) @ drop 6 b) 0 6 = Some (put16 v0 @ put16 v1 @ put16 v2)"
    by (simp add: mem_read_def)
  ultimately have "store_checksum ((put16 v0 @ put16 v1 @ put16 v2) @ drop 6 b) 6 0 6
      = Some (spi_head v0 v1 v2 @ drop 8 b)"
    unfolding store_checksum_def by (simp only: Option.bind_lunit spi_head_def Let_def append_assoc)
  then show ?thesis by (simp only: s0 s1 s2 Option.bind_lunit)
qed

lemma spi_summed:
  assumes "length h = 8" "length p = n"
  shows "Option.bind (store16 (h @ p @ rest) 0 v0) (\<lambda>b. Option.bind (store16 b 2 v1) (\<lambda>b.
      Option.bind (store_checksum b 4 8 n) (\<lambda>b. Option.bind (store_checksum b 6 0 6) f)))
    = f (spi_head v0 v1 (boot_checksum p) @ p @ rest)"
proof -
  let ?b = "h @ p @ rest"
  have s0: "store16 ?b 0 v0 = Some (put16 v0 @ drop 2 ?b)"
    using store16_at [of "[]" ?b v0] assms by simp
  have s1: "store16 (put16 v0 @ drop 2 ?b) 2 v1 = Some ((put16 v0 @ put16 v1) @ drop 4 ?b)"
    using store16_at [of "put16 v0" "drop 2 ?b" v1] assms by simp
  have "mem_read ((put16 v0 @ put16 v1) @ drop 4 ?b) 8 n = Some p"
    using assms by (simp add: mem_read_def)
  then have "store_checksum ((put16 v0 @ put16 v1) @ drop 4 ?b) 4 8 n
      = store16 ((put16 v0 @ put16 v1) @ drop 4 ?b) 4 (boot_checksum p)"
    unfolding store_checksum_def by (simp only: Option.bind_lunit)
  moreover have "8 \<le> length ?b" "drop 8 ?b = p @ rest" using assms by simp_all
  ultimately show ?thesis
    using store16_head [of ?b v0 v1 "boot_checksum p" f] by (simp only: s0 s1 Option.bind_lunit)
qed

text \<open>The packet of an exchange on the SPI channel and the answer that acknowledges it.\<close>

definition spi_ack :: "byte list \<Rightarrow> bool" where
  "spi_ack a = (length a = 6 \<and> (take 2 a = [0, 0x80] \<or> take 2 a = [0, 0]))"

lemma read_reply_spi:
  assumes "reads s = a # as" "spi_ack a" "0 < retval" "8 \<le> length raw"
  shows "\<exists>h. read_reply 1 retval raw s = Returned (h, s\<lparr>reads := as\<rparr>) \<and> acked h"
proof -
  have l: "length a = 6" and t: "take 2 a = [0, 0x80] \<or> take 2 a = [0, 0]"
    using assms(2) by (auto simp: spi_ack_def)
  have "read_loop (a # as) raw 0 6 = Returned (6, a @ drop 6 raw, 6, as)"
    using l assms(4) by (simp add: mem_write_def)
  moreover have "head_type (a @ drop 6 raw) = Some (push_bit 8 (ucast (take 2 a ! 0)) OR ucast (take 2 a ! 1))"
    using l by (simp add: head_type_def mem_read_def)
  ultimately have "read_reply 1 retval raw s =
      Returned (Some (push_bit 8 (ucast (take 2 a ! 0)) OR ucast (take 2 a ! 1)), s\<lparr>reads := as\<rparr>)"
    using assms(1,3) by (simp add: read_reply_def del: nth_take)
  moreover have "acked (Some (push_bit 8 (ucast (take 2 a ! 0)) OR ucast (take 2 a ! 1)))"
    using t by (auto simp: acked_def simp del: nth_take)
  ultimately show ?thesis by blast
qed

lemma fd_write_whole:
  assumes "writes s = w # ws" "int n \<le> w" "n \<le> length buf"
  shows "fd_write buf n s = Returned (int n, s\<lparr>wire := wire s @ take n buf, writes := ws\<rparr>)"
  using assms by (simp add: fd_write_def mem_read_def min_absorb2)

text \<open>What a device that takes packets whole and acknowledges them makes of an exchange.\<close>

definition exchange :: "byte list \<Rightarrow> 'a fdl_state_scheme \<Rightarrow> 'a fdl_state_scheme" where
  "exchange p s = s\<lparr>wire := wire s @ p, writes := tl (writes s), reads := tl (reads s)\<rparr>"

definition answers :: "nat \<Rightarrow> 'a fdl_state_scheme \<Rightarrow> bool" where
  "answers n s = (n \<le> length (writes s) \<and> n \<le> length (reads s)
     \<and> (\<forall>w \<in> set (take n (writes s)). int (HS_PACKET_SIZE + 8) \<le> w) \<and> (\<forall>a \<in> set (take n (reads s)). spi_ack a))"

lemma answers_exchange: "answers (Suc n) s \<Longrightarrow> answers n (exchange p s)"
  by (cases "writes s"; cases "reads s") (auto simp: answers_def exchange_def)

lemma answers_Suc:
  assumes "answers (Suc n) s"
  obtains w ws a as where "writes s = w # ws" "reads s = a # as" "int (HS_PACKET_SIZE + 8) \<le> w" "spi_ack a"
  using assms by (cases "writes s"; cases "reads s") (auto simp: answers_def)

lemma spi_exchange:
  assumes "answers (Suc m) s" "0 < n" "n \<le> HS_PACKET_SIZE + 8" "n \<le> length raw" "8 \<le> length raw'"
  shows "and_then (fd_write raw n s) (\<lambda>(retval, s). and_then (read_reply 1 retval raw' s) (\<lambda>(head, s).
     g (if acked head then 0 else -1) s)) = g (0 :: int) (exchange (take n raw) s)"
proof -
  obtain w ws a as where e: "writes s = w # ws" "reads s = a # as" "int (HS_PACKET_SIZE + 8) \<le> w" "spi_ack a"
    using answers_Suc [OF assms(1)] .
  let ?s = "s\<lparr>wire := wire s @ take n raw, writes := ws\<rparr>"
  have "fd_write raw n s = Returned (int n, ?s)"
    using e assms(3,4) by (intro fd_write_whole) auto
  moreover have "\<exists>h. read_reply 1 (int n) raw' ?s = Returned (h, ?s\<lparr>reads := as\<rparr>) \<and> acked h"
    using e assms(2,5) by (intro read_reply_spi) auto
  moreover have "?s\<lparr>reads := as\<rparr> = exchange (take n raw) s"
    using e by (simp add: exchange_def)
  ultimately show ?thesis by fastforce
qed

section \<open>The messages on the SPI channel\<close>

definition start_packet :: "u32 \<Rightarrow> u32 \<Rightarrow> byte list" where
  "start_packet sz addr = (let p = put32 (cpu2be32 addr) @ put32 (cpu2be32_int sz)
     in spi_head 8 1 (boot_checksum p) @ p)"

definition data_packet :: "byte list \<Rightarrow> byte list" where
  "data_packet bs = spi_head (of_nat (length bs)) 2 0 @ bs"

definition end_packet :: "byte list" where
  "end_packet = spi_head 4 3 0xFFFF @ [0, 0, 0, 0]"

lemma setup_start_spi:
  "(do { raw_buffer \<leftarrow> store32 raw_zero 8 (cpu2be32 addr);
         raw_buffer \<leftarrow> store32 raw_buffer 12 (cpu2be32_int sz);
         setup_packet BSL_CMD_START_DATA raw_buffer 8 8 1 0 })
   = Some (start_packet sz addr @ replicate 16 0, 16)"
proof -
  let ?p = "put32 (cpu2be32 addr) @ put32 (cpu2be32_int sz)"
  have z: "raw_zero = replicate 8 0 @ replicate 4 0 @ replicate 4 0 @ replicate 16 0"
    by (simp add: raw_zero_def flip: replicate_add)
  have s: "store32 raw_zero 8 (cpu2be32 addr) = Some (replicate 8 0 @ put32 (cpu2be32 addr) @ replicate 4 0 @ replicate 16 0)"
    "store32 (replicate 8 0 @ put32 (cpu2be32 addr) @ replicate 4 0 @ replicate 16 0) 12 (cpu2be32_int sz)
       = Some (replicate 8 0 @ ?p @ replicate 16 0)"
    by (simp_all add: z store32_def mem_write_def)
  have "setup_packet BSL_CMD_START_DATA (replicate 8 0 @ ?p @ replicate 16 0) 8 8 1 0
      = Some (start_packet sz addr @ replicate 16 0, 16)"
    using spi_summed [of "replicate 8 0" ?p 8 "replicate 16 0" 8 1 "\<lambda>b. Some (b, 16)"]
    by (simp add: setup_packet_def BSL_UART_PACKET_def start_packet_def Let_def)
  then show ?thesis by (simp only: s Option.bind_lunit)
qed

lemma setup_end_spi:
  "setup_packet BSL_CMD_END_DATA raw_zero 8 0 1 0 = Some (end_packet @ replicate 20 0, 12)"
  by code_simp

lemma setup_data_spi:
  assumes "n + 8 \<le> length b" "n \<in> {LS_PACKET_SIZE, HS_PACKET_SIZE}"
  shows "setup_packet BSL_CMD_MIDST_DATA b 8 n 1 (of_nat n) = Some (spi_head (of_nat n) 2 0 @ drop 8 b, n + 8)"
proof -
  have n: "n = 256 \<or> n = 32768" using assms(2) by (simp add: size_defs)
  then have "ucast (of_nat n AND 0xffff :: u32) = (of_nat n :: u16)"
    "ucast (0x02 OR drop_bit 8 (of_nat n AND 0xff0000 :: u32)) = (2 :: u16)"
    by (elim disjE; simp)+
  then show ?thesis
    using store16_head [of b "of_nat n" 2 0 "\<lambda>b. Some (b, n + 8)"] assms(1) n
    by (auto simp add: setup_packet_def BSL_UART_PACKET_def)
qed

lemma packet_lengths [simp]: "length (start_packet sz addr) = 16" "length end_packet = 12"
  "length (data_packet bs) = length bs + 8"
  by (simp_all add: start_packet_def end_packet_def data_packet_def Let_def)

lemma send_start_spi:
  assumes "answers (Suc m) s"
  shows "send_start_message sz addr 1 s = Returned (0, exchange (start_packet sz addr) s)"
  using spi_exchange [OF assms, of 16 "start_packet sz addr @ replicate 16 0" "start_packet sz addr @ replicate 16 0" "\<lambda>r s. Returned (r, s)"]
  unfolding send_start_message_def setup_start_spi by (simp add: write_packet_def size_defs)

lemma send_end_spi:
  assumes "answers (Suc m) s"
  shows "send_end_message 1 s = Returned (0, exchange end_packet s)"
  using spi_exchange [OF assms, of 12 "end_packet @ replicate 20 0" "end_packet @ replicate 20 0" "\<lambda>r s. Returned (r, s)"]
  unfolding send_end_message_def setup_end_spi by (simp add: write_packet_def size_defs)

lemma send_data_spi:
  assumes "answers (Suc m) s" "n + 8 \<le> length buf" "n \<in> {LS_PACKET_SIZE, HS_PACKET_SIZE}"
  shows "send_data_message buf n 1 n img s =
    Returned (0, spi_head (of_nat n) 2 0 @ drop 8 buf, img, exchange (data_packet (take n (drop 8 buf))) s)"
proof -
  let ?buf = "spi_head (of_nat n) 2 0 @ drop 8 buf"
  have n: "0 < n" "n \<le> HS_PACKET_SIZE" using assms(3) by (auto simp: size_defs)
  have "take (n + 8) ?buf = data_packet (take n (drop 8 buf))"
    using assms(2) by (simp add: data_packet_def)
  moreover have "n div n - 1 = 0" using n by simp
  ultimately show ?thesis
    using spi_exchange [OF assms(1), of "n + 8" ?buf raw_zero "\<lambda>r s. Returned (r, ?buf, img, s)"] n assms(2)
    unfolding send_data_message_def setup_data_spi [OF assms(2,3)]
    by (simp add: raw_zero_def and_then_assoc case_prod_beta')
qed

section \<open>An image on the channel\<close>

text \<open>The packets \<open>ps\<close> went out and each was answered; only the bytes of \<open>test_buffer\<close> may differ otherwise.\<close>

definition sent :: "byte list list \<Rightarrow> 'a boot_state_scheme \<Rightarrow> 'a boot_state_scheme \<Rightarrow> bool" where
  "sent ps s s' = (\<exists>tb. length tb = length (test_buffer s) \<and>
     s' = s\<lparr>wire := wire s @ concat ps, writes := drop (length ps) (writes s), reads := drop (length ps) (reads s),
       test_buffer := tb\<rparr>)"

lemma sent_exchange: "sent [p] s (exchange p s)"
  unfolding sent_def by (rule exI [of _ "test_buffer s"]) (simp add: exchange_def drop_Suc)

lemma sent_buffer: "length tb = length (test_buffer s) \<Longrightarrow> sent [] s (s\<lparr>test_buffer := tb\<rparr>)"
  unfolding sent_def by (rule exI [of _ tb]) simp

lemma sent_trans:
  assumes "sent ps s s'" "sent qs s' s''"
  shows "sent (ps @ qs) s s''"
proof -
  obtain tb where "length tb = length (test_buffer s)" and s': "s' = s\<lparr>wire := wire s @ concat ps,
      writes := drop (length ps) (writes s), reads := drop (length ps) (reads s), test_buffer := tb\<rparr>"
    using assms(1) unfolding sent_def by (elim exE conjE)
  moreover obtain tb' where "length tb' = length (test_buffer s')" and s'': "s'' = s'\<lparr>wire := wire s' @ concat qs,
      writes := drop (length qs) (writes s'), reads := drop (length qs) (reads s'), test_buffer := tb'\<rparr>"
    using assms(2) unfolding sent_def by (elim exE conjE)
  ultimately show ?thesis
    unfolding sent_def by (intro exI [of _ tb'] conjI) (simp_all add: s'' s' add.commute)
qed

lemma sent_keeps:
  assumes "sent ps s s'"
  shows "wire s' = wire s @ concat ps" "image_files s' = image_files s" "length (test_buffer s') = length (test_buffer s)"
    "properties s' = properties s" "capabilities_flag s' = capabilities_flag s" "download_image_info s' = download_image_info s"
    "writes s' = drop (length ps) (writes s)" "reads s' = drop (length ps) (reads s)"
  using assms by (auto simp: sent_def)

lemma set_take_drop: "x \<in> set (take n (drop m xs)) \<Longrightarrow> x \<in> set (take (m + n) xs)"
  by (metis add_diff_cancel_left' drop_take in_set_dropD)

lemma answers_sent:
  assumes "sent ps s s'" "answers (length ps + n) s"
  shows "answers n s'"
  using assms(2) sent_keeps(7,8) [OF assms(1)] unfolding answers_def by (auto dest!: set_take_drop)

fun chunks :: "nat \<Rightarrow> nat \<Rightarrow> byte list \<Rightarrow> byte list list" where
  "chunks t 0 bs = []"
| "chunks t (Suc k) bs = take t bs # chunks t k (drop t bs)"

lemma length_chunks [simp]: "length (chunks t k bs) = k"
  by (induction k arbitrary: bs) auto

lemma concat_chunks: "length bs = k * t \<Longrightarrow> concat (chunks t k bs) = bs"
  by (induction k arbitrary: bs) auto

definition plain_image :: "image_info \<Rightarrow> bool" where
  "plain_image info = (image_path info \<noteq> Some proc_cmdline)"

lemma image_blocks_end:
  assumes "count \<le> i" "answers (Suc m) s"
  shows "image_blocks info t count i n img s = Returned (0, exchange end_packet s)"
  using assms by (simp add: image_blocks.simps send_end_spi)

lemma pad_block_last:
  assumes "n < t" "t + 8 \<le> length (test_buffer s)"
  shows "\<exists>tb. pad_block t (int n) i s = Some (int t, 0, s\<lparr>test_buffer := tb\<rparr>)
    \<and> length tb = length (test_buffer s) \<and> take t (drop 8 tb) = take n (drop 8 (test_buffer s)) @ replicate (t - n) 0xFF"
proof -
  let ?tb = "take (8 + n) (test_buffer s) @ replicate (t - n) 0xFF @ drop (8 + t) (test_buffer s)"
  have "drop 8 ?tb = take n (drop 8 (test_buffer s)) @ replicate (t - n) 0xFF @ drop (8 + t) (test_buffer s)"
    using assms by (simp add: drop_take)
  then have "take t (drop 8 ?tb) = take n (drop 8 (test_buffer s)) @ replicate (t - n) 0xFF"
    using assms by (simp add: min_absorb2)
  moreover have "pad_block t (int n) i s = Some (int t, 0, s\<lparr>test_buffer := ?tb\<rparr>)"
    using assms by (simp add: pad_block_def mem_write_def)
  moreover have "length ?tb = length (test_buffer s)" using assms by simp
  ultimately show ?thesis by blast
qed

lemma send_block:
  assumes "t \<in> {LS_PACKET_SIZE, HS_PACKET_SIZE}" "HS_PACKET_SIZE + 8 \<le> length tb" "answers (Suc m) s"
    and "length tb = length (test_buffer s)"
  shows "\<exists>buf s'. send_data_message tb t 1 t img (s\<lparr>test_buffer := tb\<rparr>) = Returned (0, buf, img, s')
    \<and> sent [data_packet (take t (drop 8 tb))] s (s'\<lparr>test_buffer := buf\<rparr>)"
proof -
  let ?s = "s\<lparr>test_buffer := tb\<rparr>"
  have t: "t \<le> HS_PACKET_SIZE" using assms(1) by (auto simp: size_defs)
  have "answers (Suc m) ?s" using assms(3) by (simp add: answers_def)
  then have "send_data_message tb t 1 t img ?s =
      Returned (0, spi_head (of_nat t) 2 0 @ drop 8 tb, img, exchange (data_packet (take t (drop 8 tb))) ?s)"
    using assms(1,2) t by (intro send_data_spi) auto
  moreover have "sent ([] @ [data_packet (take t (drop 8 tb))] @ []) s
      ((exchange (data_packet (take t (drop 8 tb))) ?s)\<lparr>test_buffer := spi_head (of_nat t) 2 0 @ drop 8 tb\<rparr>)"
    using assms(2,4) t by (intro sent_trans [OF sent_buffer sent_trans [OF sent_exchange sent_buffer]])
      (simp_all add: exchange_def)
  ultimately show ?thesis by auto
qed

lemma read_block_plain:
  assumes "plain_image info" "t + 8 \<le> length (test_buffer s)"
  shows "\<exists>tb. read_block info t img s = Some (s\<lparr>test_buffer := tb\<rparr>) \<and> length tb = length (test_buffer s)
    \<and> take t (drop 8 tb) = take t (take t img @ drop (8 + length (take t img)) (test_buffer s))"
proof -
  let ?tb = "take 8 (test_buffer s) @ take t img @ drop (8 + length (take t img)) (test_buffer s)"
  have "mem_write (test_buffer s) 8 (take t img) = Some ?tb"
    using assms(2) by (auto simp: mem_write_def min_def)
  then have "read_block info t img s = Some (s\<lparr>test_buffer := ?tb\<rparr>)"
    using assms(1) by (simp add: read_block_def plain_image_def Let_def)
  moreover have "length ?tb = length (test_buffer s)" using assms(2) by (auto simp: min_def)
  moreover have "drop 8 ?tb = take t img @ drop (8 + length (take t img)) (test_buffer s)" using assms(2) by simp
  ultimately show ?thesis by (intro exI [of _ ?tb]) simp
qed

lemma image_blocks_step:
  assumes "i < count" "plain_image info" "t \<in> {LS_PACKET_SIZE, HS_PACKET_SIZE}" "HS_PACKET_SIZE + 8 \<le> length (test_buffer s)"
    and "answers (Suc m) s" "int t \<le> n"
  shows "\<exists>s'. sent [data_packet (take t (take t img @ drop (8 + length (take t img)) (test_buffer s)))] s s'
    \<and> image_blocks info t count i n img s = image_blocks info t count (i + 1) (n - int t) (drop t img) s'"
proof -
  have t: "t \<le> HS_PACKET_SIZE" using assms(3) by (auto simp: size_defs)
  obtain rb where r: "read_block info t img s = Some (s\<lparr>test_buffer := rb\<rparr>)" "length rb = length (test_buffer s)"
    "take t (drop 8 rb) = take t (take t img @ drop (8 + length (take t img)) (test_buffer s))"
    using read_block_plain [OF assms(2), of t s img] assms(4) t by auto
  obtain buf s1 where d: "send_data_message rb t 1 t (drop t img) (s\<lparr>test_buffer := rb\<rparr>) = Returned (0, buf, drop t img, s1)"
    and s1: "sent [data_packet (take t (drop 8 rb))] s (s1\<lparr>test_buffer := buf\<rparr>)"
    using send_block [OF assms(3) _ assms(5) r(2), of "drop t img"] assms(4) r(2) by auto
  have "image_blocks info t count i n img s = image_blocks info t count (i + 1) (n - int t) (drop t img) (s1\<lparr>test_buffer := buf\<rparr>)"
    using assms(1,6) r(1) d by (subst image_blocks.simps) (simp add: pad_block_def DL_SUCCESS_def)
  then show ?thesis using s1 unfolding r(3) by auto
qed

lemma image_blocks_last:
  assumes "i < count" "plain_image info" "t \<in> {LS_PACKET_SIZE, HS_PACKET_SIZE}" "HS_PACKET_SIZE + 8 \<le> length (test_buffer s)"
    and "answers (Suc (Suc m)) s" "n < t" "n \<le> length img" "count \<le> int t + 1"
  shows "\<exists>s'. sent [data_packet (take n img @ replicate (t - n) 0xFF), end_packet] s s'
    \<and> image_blocks info t count i (int n) img s = Returned (0, s')"
proof -
  have t: "t \<le> HS_PACKET_SIZE" using assms(3) by (auto simp: size_defs)
  obtain rb where r: "read_block info t img s = Some (s\<lparr>test_buffer := rb\<rparr>)" "length rb = length (test_buffer s)"
    "take t (drop 8 rb) = take t (take t img @ drop (8 + length (take t img)) (test_buffer s))"
    using read_block_plain [OF assms(2), of t s img] assms(4) t by auto
  obtain tb where p: "pad_block t (int n) i (s\<lparr>test_buffer := rb\<rparr>) = Some (int t, 0, s\<lparr>test_buffer := tb\<rparr>)"
    "length tb = length (test_buffer s)" "take t (drop 8 tb) = take n (drop 8 rb) @ replicate (t - n) 0xFF"
    using pad_block_last [OF assms(6), of "s\<lparr>test_buffer := rb\<rparr>" i] r(2) assms(4) t by auto
  have "take n (drop 8 rb) = take n (take t (drop 8 rb))" using assms(6) by simp
  then have b: "take t (drop 8 tb) = take n img @ replicate (t - n) 0xFF"
    using assms(6,7) unfolding p(3) r(3) by simp
  obtain buf s1 where d: "send_data_message tb t 1 t (drop t img) (s\<lparr>test_buffer := tb\<rparr>) = Returned (0, buf, drop t img, s1)"
    and s1: "sent [data_packet (take t (drop 8 tb))] s (s1\<lparr>test_buffer := buf\<rparr>)"
    using send_block [OF assms(3) _ assms(5) p(2), of "drop t img"] assms(4) p(2) by auto
  have "answers (Suc m) (s1\<lparr>test_buffer := buf\<rparr>)" using assms(5) by (intro answers_sent [OF s1]) simp
  then have e: "image_blocks info t count (int t + 1) 0 (drop t img) (s1\<lparr>test_buffer := buf\<rparr>)
      = Returned (0, exchange end_packet (s1\<lparr>test_buffer := buf\<rparr>))"
    using assms(8) by (intro image_blocks_end) auto
  have "image_blocks info t count i (int n) img s = Returned (0, exchange end_packet (s1\<lparr>test_buffer := buf\<rparr>))"
    using assms(1) r(1) p(1) d e by (subst image_blocks.simps) (simp add: DL_SUCCESS_def)
  then show ?thesis using sent_trans [OF s1 sent_exchange] unfolding b by auto
qed

lemma image_blocks_sends:
  assumes "plain_image info" "t \<in> {LS_PACKET_SIZE, HS_PACKET_SIZE}" "count \<le> int t + 1"
    and "HS_PACKET_SIZE + 8 \<le> length (test_buffer s)" "answers (Suc k) s"
    and "int k = count - i" "n \<le> k * t" "k * t < n + t" "n \<le> length img"
  shows "\<exists>s'. sent (map data_packet (chunks t k (take n img @ replicate (k * t - n) 0xFF)) @ [end_packet]) s s'
    \<and> image_blocks info t count i (int n) img s = Returned (0, s')"
  using assms(4-)
proof (induction k arbitrary: s i n img)
  case 0
  then show ?case using image_blocks_end [of count i 0 s] sent_exchange [of end_packet s] by auto
next
  case (Suc k)
  have i: "i < count" using Suc.prems(3) by simp
  show ?case
  proof (cases "n < t")
    case True
    have k: "k = 0" using Suc.prems(5) True by (cases k) auto
    show ?thesis
      using image_blocks_last [OF i assms(1,2) Suc.prems(1), of 0 n img] Suc.prems(2,6) True assms(3) k by simp
  next
    case False
    have t: "t \<le> HS_PACKET_SIZE" using assms(2) by (auto simp: size_defs)
    have b: "take t (take t img @ drop (8 + length (take t img)) (test_buffer s)) = take t img"
      using False Suc.prems(6) by simp
    obtain s' where s': "sent [data_packet (take t img)] s s'"
      "image_blocks info t count i (int n) img s = image_blocks info t count (i + 1) (int n - int t) (drop t img) s'"
      using image_blocks_step [OF i assms(1,2) Suc.prems(1,2), of "int n" img] False unfolding b by auto
    have "answers (Suc k) s'" using Suc.prems(2) by (intro answers_sent [OF s'(1)]) simp
    moreover have "n - t \<le> k * t" "k * t < n - t + t" "n - t \<le> length (drop t img)" "int k = count - (i + 1)"
      using Suc.prems(3-6) False by auto
    ultimately obtain s'' where s'': "sent (map data_packet (chunks t k (take (n - t) (drop t img) @ replicate (k * t - (n - t)) 0xFF)) @ [end_packet]) s' s''"
      "image_blocks info t count (i + 1) (int (n - t)) (drop t img) s' = Returned (0, s'')"
      using Suc.IH [of s' "i + 1" "n - t" "drop t img"] Suc.prems(1) sent_keeps(3) [OF s'(1)] by metis
    have c: "chunks t (Suc k) (take n img @ replicate (Suc k * t - n) 0xFF)
        = take t img # chunks t k (take (n - t) (drop t img) @ replicate (k * t - (n - t)) 0xFF)"
      using False Suc.prems(6) by (simp add: drop_take add.commute min_absorb2)
    have "Suc k * t - n = k * t - (n - t)" using False by simp
    show ?thesis
      unfolding c using sent_trans [OF s'(1) s''(1)] s'(2) s''(2) False by (auto simp: of_nat_diff)
  qed
qed

lemma chunks_length: "length bs = k * t \<Longrightarrow> p \<in> set (chunks t k bs) \<Longrightarrow> length p = t"
proof (induction k arbitrary: bs)
  case (Suc k)
  then show ?case using Suc.IH [of "drop t bs"] by auto
qed simp

lemma sint_unat_small:
  assumes "unat w < 2147483648"
  shows "sint (w :: u32) = int (unat w)"
proof -
  have "uint w < 2147483648" "- 2147483648 \<le> uint w" using assms uint_nat [of w] by linarith+
  then show ?thesis by (simp add: sint_uint signed_take_bit_int_eq_self_iff)
qed

lemma block_count_small:
  assumes "unat (image_size info) \<le> 2 ^ 30" "t = trans_size_of info" "k = (unat (image_size info) + t - 1) div t"
  shows "block_count (int (unat (image_size info))) t = Some (int k)"
    and "unat (image_size info) \<le> k * t" "k * t < unat (image_size info) + t" "int k \<le> int t + 1"
proof -
  let ?n = "unat (image_size info)"
  have t: "t = 256 \<and> ?n < 32768 \<or> t = 32768"
    using assms(2) by (auto simp: trans_size_of_def size_defs)
  have n: "int ?n + int t - 1 = int (?n + t - 1)" using t by auto
  have "?n \<le> 1073741824" using assms(1) by simp
  then have "int (?n + t - 1) < 2147483648" using t by linarith
  then show "block_count (int ?n) t = Some (int k)"
    unfolding block_count_def assms(3) Let_def n by (simp only: zdiv_int) simp
  show "?n \<le> k * t" "k * t < ?n + t"
    using t div_mult_mod_eq [of "?n + t - 1" t] mod_less_divisor [of t "?n + t - 1"] unfolding assms(3) by linarith+
  show "int k \<le> int t + 1"
    using t \<open>?n \<le> 1073741824\<close> unfolding assms(3) by auto
qed

text \<open>The payload of an image: its first bytes, padded to whole blocks.\<close>

definition padded :: "nat \<Rightarrow> nat \<Rightarrow> byte list \<Rightarrow> byte list" where
  "padded n m img = take n img @ replicate (m - n) 0xFF"

lemma download_image_sent:
  assumes "image_path info = Some path" "path \<noteq> proc_cmdline" "image_files s path = Some content"
    and "image_body content = Some img" "unat (image_size info) \<le> length img" "unat (image_size info) \<le> 2 ^ 30"
    and "t = trans_size_of info" "k = (unat (image_size info) + t - 1) div t"
    and "length (test_buffer s) = HS_PACKET_SIZE + 128" "answers (k + 2) s"
  shows "\<exists>s'. download_image info s = Returned (DL_SUCCESS, s')
    \<and> wire s' = wire s @ start_packet (of_nat (k * t)) (address info)
        @ concat (map data_packet (chunks t k (padded (unat (image_size info)) (k * t) img))) @ end_packet"
proof -
  let ?n = "unat (image_size info)"
  have t: "t \<in> {LS_PACKET_SIZE, HS_PACKET_SIZE}" "0 < t"
    using assms(7) by (auto simp: trans_size_of_def size_defs)
  have si: "sint (image_size info) = int ?n"
    using assms(6) by (intro sint_unat_small) simp
  note k = block_count_small [OF assms(6-8)]
  let ?s = "exchange (start_packet (of_nat (k * t)) (address info)) s"
  let ?ps = "chunks t k (take ?n img @ replicate (k * t - ?n) 0xFF)"
  have "answers (Suc (Suc k)) s" using assms(10) by simp
  moreover have "word_of_int (int k * int t) = (of_nat (k * t) :: u32)" by simp
  ultimately have st: "send_start_message (word_of_int (int k * int t)) (address info) 1 s = Returned (0, ?s)"
    and a: "answers (Suc k) ?s"
    using send_start_spi [of "Suc k" s "of_nat (k * t)" "address info"] answers_exchange by simp_all
  have "plain_image info" using assms(1,2) by (simp add: plain_image_def)
  then obtain s' where s': "sent (map data_packet ?ps @ [end_packet]) ?s s'"
    "image_blocks info t (int k) 0 (int ?n) img ?s = Returned (0, s')"
    using image_blocks_sends [OF _ t(1) k(4) _ a, of info 0 ?n img] k assms(5,9) by (auto simp: exchange_def)
  have "download_image info s = Returned (DL_SUCCESS, s')"
    using assms(1,3,4) assms(7) [symmetric] k(1) st s'(2) by (simp add: download_image_def si DL_SUCCESS_def)
  moreover have "wire s' = wire s @ start_packet (of_nat (k * t)) (address info) @ concat (map data_packet ?ps) @ end_packet"
    using sent_keeps(1) [OF s'(1)] by (simp add: exchange_def)
  ultimately show ?thesis by (intro exI [of _ s']) (simp add: padded_def)
qed

text \<open>C5. \<open>download_image\<close> delivers the image.  If the device takes packets whole and acknowledges
  them, a file with at least \<open>image_size\<close> bytes behind its optional NV header is sent as a start
  packet with the address and the rounded size, data packets of 32 KiB (256 bytes below 32 KiB)
  whose payloads are exactly the image padded with 0xFF, and an end packet, up to 1 GiB.\<close>

theorem download_image_delivers:
  assumes "image_path info = Some path" "path \<noteq> proc_cmdline" "image_files s path = Some content"
    and "image_body content = Some img" "unat (image_size info) \<le> length img" "unat (image_size info) \<le> 2 ^ 30"
    and "t = trans_size_of info" "k = (unat (image_size info) + t - 1) div t"
    and "length (test_buffer s) = HS_PACKET_SIZE + 128" "answers (k + 2) s"
  shows "\<exists>s' payloads. download_image info s = Returned (DL_SUCCESS, s')
    \<and> wire s' = wire s @ start_packet (of_nat (k * t)) (address info) @ concat (map data_packet payloads) @ end_packet
    \<and> length payloads = k \<and> (\<forall>p \<in> set payloads. length p = t)
    \<and> concat payloads = take (unat (image_size info)) img @ replicate (k * t - unat (image_size info)) 0xFF"
proof -
  let ?p = "padded (unat (image_size info)) (k * t) img"
  have l: "length ?p = k * t" using assms(5) block_count_small(2) [OF assms(6-8)] by (simp add: padded_def)
  obtain s' where "download_image info s = Returned (DL_SUCCESS, s')"
    "wire s' = wire s @ start_packet (of_nat (k * t)) (address info) @ concat (map data_packet (chunks t k ?p)) @ end_packet"
    using download_image_sent [OF assms] by blast
  then show ?thesis
    using concat_chunks [OF l] chunks_length [OF l]
    by (intro exI [of _ s'] exI [of _ "chunks t k ?p"]) (simp add: padded_def)
qed

definition demo_boot :: "(string \<rightharpoonup> byte list) \<Rightarrow> byte list list \<Rightarrow> int list \<Rightarrow> boot_state" where
  "demo_boot fs rds wrs = \<lparr>send_buffer = replicate 4000 0, max_transfer_size = 0, wire = [], writes = wrs, reads = rds,
     test_buffer = replicate (HS_PACKET_SIZE + 128) 0, download_image_info = download_image_info_init,
     modem_images_count = 12, capabilities_flag = 0xff, uart_dev = ''/dev/ttyS2'', fdl_cp_poweron_delay = 160000,
     image_files = fs, properties = (\<lambda>_. [])\<rparr>"

theorem download_image_delivers_witness:
  "\<exists>s' payloads. download_image (by_name ''dfs'' 300 0x2000C000 MODE_ALL)
        (demo_boot (\<lambda>_. Some (replicate 400 7)) (replicate 4 [0, 0x80, 0, 0, 0, 0]) (replicate 4 40000)) = Returned (DL_SUCCESS, s')
    \<and> wire s' = wire (demo_boot (\<lambda>_. Some (replicate 400 7)) (replicate 4 [0, 0x80, 0, 0, 0, 0]) (replicate 4 40000))
        @ start_packet (of_nat (2 * 256)) (address (by_name ''dfs'' 300 0x2000C000 MODE_ALL)) @ concat (map data_packet payloads) @ end_packet
    \<and> length payloads = 2 \<and> (\<forall>p \<in> set payloads. length p = 256)
    \<and> concat payloads = take (unat (image_size (by_name ''dfs'' 300 0x2000C000 MODE_ALL))) (replicate 400 7)
        @ replicate (2 * 256 - unat (image_size (by_name ''dfs'' 300 0x2000C000 MODE_ALL))) 0xFF"
  by (rule download_image_delivers [where path = "''/dev/block/platform/sprd-sdhci.3/by-name/dfs''" and content = "replicate 400 7"])
    (simp_all add: by_name_def proc_cmdline_def demo_boot_def image_body_def get32_def BOOT_NV_HEAD_MAGIC_def trans_size_of_def
      size_defs answers_def spi_ack_def Let_def)

section \<open>The memory map\<close>

text \<open>The bytes of the modem's memory that an entry of the table fills: the size rounded up to whole blocks.\<close>

definition image_span :: "image_info \<Rightarrow> nat" where
  "image_span info = (let t = trans_size_of info in (unat (image_size info) + t - 1) div t * t)"

text \<open>Two entries that a mode selects, the second later in the table, whose ranges meet.\<close>

definition ranges :: "u32 \<Rightarrow> (nat \<times> nat \<times> nat) list" where
  "ranges cap = map (\<lambda>(i, info). (i, unat (address info), unat (address info) + image_span info))
     (filter (\<lambda>(i, info). mask info AND cap \<noteq> 0) (drop 1 (enumerate 0 (take max_item download_image_info_init))))"

fun overlaps :: "(nat \<times> nat \<times> nat) list \<Rightarrow> (nat \<times> nat) list" where
  "overlaps [] = []"
| "overlaps ((i, a, b) # rs) = map (\<lambda>(j, _). (i, j)) (filter (\<lambda>(j, c, d). a < d \<and> c < b) rs) @ overlaps rs"

lemma max_item_eq: "max_item = 17" by (simp add: max_item_def download_image_info_init_def)

lemmas table_eval = max_item_eq download_image_info_init_def by_name_def cmdline_info_def no_image_def
  mem_map_defs Let_def image_span_def trans_size_of_def size_defs MODE_SVLTE_def MODE_TCSFB_def MODE_ALL_def

lemma ranges_SVLTE: "ranges MODE_SVLTE = [(1, 0x80020000, 0x80400000), (2, 0x80400000, 0x80A70000),
   (3, 0x80A90000, 0x80AB0000), (4, 0x80AB0000, 0x80AF0000), (5, 0x80AF0000, 0x80B00000), (6, 0x81A00000, 0x822F0000),
   (7, 0x82310000, 0x82350000), (8, 0x82350000, 0x823B0000), (13, 0x82370000, 0x82380000), (14, 0x82380000, 0x82580000),
   (16, 0x2000C000, 0x2000CF00)]"
  by (simp add: ranges_def table_eval)

lemma ranges_TCSFB: "ranges MODE_TCSFB = [(9, 0x81620000, 0x81A00000), (10, 0x81A00000, 0x822F0000),
   (11, 0x82310000, 0x82350000), (12, 0x82350000, 0x823B0000), (13, 0x82370000, 0x82380000), (15, 0x82380000, 0x82580000),
   (16, 0x2000C000, 0x2000CF00)]"
  by (simp add: ranges_def table_eval)

text \<open>The memory map of the built-in table overlaps.  In the mode \<open>svlte\<close> the images a mode selects
  are disjoint but for the runtime NV image of the LTE core (entry 8), whose end is overwritten by the
  command line (13) and by the LTE DSP image (14); in the mode \<open>csfb\<close> entries 12, 13 and 15 do the same.\<close>

theorem images_overlap:
  "overlaps (ranges MODE_SVLTE) = [(8, 13), (8, 14)] \<and> overlaps (ranges MODE_TCSFB) = [(12, 13), (12, 15)]"
  by (simp add: ranges_SVLTE ranges_TCSFB)

end
