(* ===== verification/ModemTable.thy ===== *)
theory ModemTable
  imports ModemImage
begin

text \<open>
  What the download of whole tables does: the built-in table is downloaded without undefined
  behaviour whatever the modem answers, a table read from the configuration file is not downloaded
  at all, and a boot loader of odd size is never started.  The safety proofs chain the predicate
  \<open>safely\<close> of \<open>DeviceIo\<close> through the messages.
\<close>

section \<open>Memory safety of the download\<close>

text \<open>What the download relies on: the size of \<open>test_buffer\<close>, the length of the test mode property and
  no file too short for the magic number.\<close>

definition boot_ok :: "'a boot_state_scheme \<Rightarrow> bool" where
  "boot_ok s = (length (test_buffer s) = HS_PACKET_SIZE + 128
     \<and> length (properties s ''persist.radio.ssda.testmode'') \<le> 90
     \<and> (\<forall>p content. image_files s p = Some content \<longrightarrow> 4 \<le> length content))"

lemma boot_ok_updates [simp]:
  "boot_ok (s\<lparr>wire := w\<rparr>) = boot_ok s" "boot_ok (s\<lparr>writes := ws\<rparr>) = boot_ok s" "boot_ok (s\<lparr>reads := rs\<rparr>) = boot_ok s"
  "boot_ok (s\<lparr>capabilities_flag := c\<rparr>) = boot_ok s"
  by (simp_all add: boot_ok_def)

lemma boot_ok_buffer: "boot_ok s \<Longrightarrow> length tb = HS_PACKET_SIZE + 128 \<Longrightarrow> boot_ok (s\<lparr>test_buffer := tb\<rparr>)"
  by (simp add: boot_ok_def)

lemma fd_write_safely:
  assumes "n \<le> length buf" "boot_ok s"
  shows "safely (\<lambda>(r, s). boot_ok s) (fd_write buf n s)"
  using assms by (cases "writes s") (simp_all add: fd_write_def mem_read_def Let_def)

lemma read_loop_safely:
  "offset + sz \<le> length raw \<Longrightarrow> safely (\<lambda>(r, raw', ofs, rs). length raw' = length raw) (read_loop rs raw offset sz)"
proof (induction rs arbitrary: raw offset sz)
  case (Cons r rs)
  let ?bs = "take sz r"
  let ?raw = "take offset raw @ ?bs @ drop (offset + length ?bs) raw"
  have w: "mem_write raw offset ?bs = Some ?raw" using Cons.prems by (auto simp: mem_write_def min_def)
  have l: "length ?raw = length raw" using mem_write_length [OF w] .
  have "safely (\<lambda>(r, raw', ofs, rs). length raw' = length ?raw) (read_loop rs ?raw (offset + length ?bs) (sz - length ?bs))"
    using Cons.prems l by (intro Cons.IH) (auto simp: min_def)
  then show ?case using l
    by (simp only: read_loop.simps Let_def w checked_simps and_then.simps safely.simps prod.case simp_thms if_True if_False split: if_split)
qed simp

lemma read_reply_safely:
  assumes "8 \<le> length raw" "boot_ok s"
  shows "safely (\<lambda>(h, s). boot_ok s) (read_reply 1 r raw s)"
  using assms unfolding read_reply_def
  by (auto simp: head_type_def mem_read_def Let_def intro!: safely_and_then [OF read_loop_safely])

lemma spi_exchange_safely:
  assumes "n \<le> length raw" "8 \<le> length raw'" "boot_ok s" "\<And>h s. boot_ok s \<Longrightarrow> safely Q (g h s)"
  shows "safely Q (and_then (fd_write raw n s) (\<lambda>(r, s). and_then (read_reply 1 r raw' s) (\<lambda>(h, s). g h s)))"
  using assms(4) read_reply_safely [OF assms(2)]
  by (intro safely_and_then [OF fd_write_safely [OF assms(1,3)]]) (auto intro!: safely_and_then)

lemma send_start_safely: "boot_ok s \<Longrightarrow> safely (\<lambda>(r, s). boot_ok s) (send_start_message sz addr 1 s)"
  unfolding send_start_message_def setup_start_spi
  using spi_exchange_safely [of 16 "start_packet sz addr @ replicate 16 0" "start_packet sz addr @ replicate 16 0" s
      "\<lambda>(r, s). boot_ok s" "\<lambda>h s. Returned (if acked h then 0 else -1, s)"]
  by (simp add: write_packet_def)

lemma send_end_safely: "boot_ok s \<Longrightarrow> safely (\<lambda>(r, s). boot_ok s) (send_end_message 1 s)"
  unfolding send_end_message_def setup_end_spi
  using spi_exchange_safely [of 12 "end_packet @ replicate 20 0" "end_packet @ replicate 20 0" s
      "\<lambda>(r, s). boot_ok s" "\<lambda>h s. Returned (if acked h then 0 else -1, s)"]
  by (simp add: write_packet_def)

lemma send_data_safely:
  assumes "boot_ok s" "n \<in> {LS_PACKET_SIZE, HS_PACKET_SIZE}" "length buf = HS_PACKET_SIZE + 128"
  shows "safely (\<lambda>(r, buf, img, s). boot_ok s \<and> length buf = HS_PACKET_SIZE + 128) (send_data_message buf n 1 n img s)"
proof -
  let ?buf = "spi_head (of_nat n) 2 0 @ drop 8 buf"
  have n: "n + 8 \<le> length buf" "0 < n" using assms(2,3) by (auto simp: size_defs)
  then have "n div n - 1 = 0" "length ?buf = HS_PACKET_SIZE + 128" using assms(3) by simp_all
  then show ?thesis
    using spi_exchange_safely [of "n + 8" ?buf raw_zero s "\<lambda>(r, buf, img, s). boot_ok s \<and> length buf = HS_PACKET_SIZE + 128"
        "\<lambda>h s. Returned (if acked h then 0 else -1, ?buf, img, s)"] n assms(1,3)
    unfolding send_data_message_def setup_data_spi [OF n(1) assms(2)]
    by (simp add: raw_zero_def and_then_assoc case_prod_beta')
qed

lemma strcat_at:
  assumes "i + length src < length m" "m ! i = 0"
  shows "strcat m i src = Some (take i m @ (src @ [0]) @ drop (i + length (src @ [0])) m)"
proof -
  have "cstring m i = []" using assms by (simp add: cstring_def takeWhile_eq_Nil_iff hd_drop_conv_nth)
  then show ?thesis using assms(1) by (simp add: strcat_def mem_write_def)
qed

lemma length_bytes_of [simp]: "length (bytes_of str) = length str"
  by (simp add: bytes_of_def)

lemma append_lte_mode_defined:
  assumes "i + 13 < length m" "m ! i = 0"
  shows "\<exists>m'. append_lte_mode flag m i = Some m' \<and> length m' = length m"
  using assms strcat_at [OF _ assms(2)]
  by (auto simp: append_lte_mode_def bytes_of_def)

lemma append_test_mode_defined:
  assumes "length value \<le> 90" "i + 9 + length value < length m" "m ! i = 0"
  shows "\<exists>m' n. append_test_mode value m i = Some (m', n) \<and> length m' = length m \<and> n \<le> 99 \<and> n \<le> 9 + length value \<and> m' ! (i + n) = 0"
proof -
  define c where "c = takeWhile (\<lambda>b. b \<noteq> 0) (bytes_of value)"
  let ?pre = "bytes_of ''testmode=''"
  have lc: "length c \<le> length value" unfolding c_def by (metis length_bytes_of length_takeWhile_le)
  have pre: "length ?pre = 9" "\<forall>b \<in> set ?pre. b \<noteq> 0" by (simp_all add: bytes_of_def)
  have w1: "mem_write (replicate 100 0) 0 (?pre @ [0]) = Some (?pre @ replicate 91 0)"
    using pre(1) by (simp add: mem_write_def flip: replicate_Suc)
  have w2: "mem_write (?pre @ replicate 91 0) 9 (bytes_of value @ [0])
      = Some (?pre @ bytes_of value @ [0] @ replicate (90 - length value) 0)"
    using pre(1) assms(1) by (simp add: mem_write_def)
  have c9: "cstring (?pre @ bytes_of value @ [0] @ replicate (90 - length value) 0) 9 = c"
    using pre(1) by (simp add: cstring_def c_def takeWhile_tail)
  have c0: "cstring (?pre @ bytes_of value @ [0] @ replicate (90 - length value) 0) 0 = ?pre @ c"
    using pre takeWhile_append2 [of ?pre "\<lambda>b. b \<noteq> 0"] by (simp add: cstring_def c_def takeWhile_tail)
  have "strcat m i (?pre @ c) = Some (take i m @ ((?pre @ c) @ [0]) @ drop (i + length ((?pre @ c) @ [0])) m)"
    using assms(2,3) lc pre(1) by (intro strcat_at) auto
  then have "append_test_mode value m i = Some (take i m @ ((?pre @ c) @ [0]) @ drop (i + length ((?pre @ c) @ [0])) m, 9 + length c)"
    unfolding append_test_mode_def w1 Let_def by (simp only: Option.bind_lunit pre(1) w2 c9 c0)
  moreover have "(take i m @ ((?pre @ c) @ [0]) @ drop (i + length ((?pre @ c) @ [0])) m) ! (i + (9 + length c)) = 0"
    using assms(2) pre(1) by (simp add: nth_append)
  moreover have "length (take i m @ ((?pre @ c) @ [0]) @ drop (i + length ((?pre @ c) @ [0])) m) = length m"
    using assms(2) lc pre(1) by simp
  ultimately show ?thesis using lc assms(1) by (intro exI) (auto simp del: append_assoc)
qed

lemma read_block_safely:
  assumes "boot_ok s" "t \<in> {LS_PACKET_SIZE, HS_PACKET_SIZE}"
  shows "\<exists>s'. read_block info t img s = Some s' \<and> boot_ok s'"
proof -
  let ?bs = "take t img" and ?v = "properties s ''persist.radio.ssda.testmode''"
  have l: "length (test_buffer s) = 32896" "length ?v \<le> 90" and t: "t \<le> 32768"
    using assms by (auto simp: boot_ok_def size_defs)
  have "8 + length ?bs \<le> length (test_buffer s)" using l(1) t by simp
  then obtain b where b: "mem_write (test_buffer s) 8 ?bs = Some b" "length b = 32896"
    by (rule mem_write_defined) (simp add: l(1))
  show ?thesis
  proof (cases "length ?bs < t \<and> image_path info = Some proc_cmdline")
    case True
    define j where "j = 8 + length ?bs"
    have j: "j < 32776" using True t by (simp add: j_def)
    then have "j + length [0 :: byte] \<le> length b" using b(2) by simp
    then obtain b1 where w: "mem_write b j [0] = Some b1" "length b1 = 32896"
      by (rule mem_write_defined) (simp add: b(2))
    have "b1 ! j = 0" using mem_write_nth [OF w(1), of j] j b(2) by simp
    then obtain b2 n where a: "append_test_mode ?v b1 j = Some (b2, n)" "length b2 = 32896" "n \<le> 99" "b2 ! (j + n) = 0"
      using append_test_mode_defined [OF l(2), of j b1] j w(2) l(2) by auto
    obtain b3 where e: "append_lte_mode (capabilities_flag s) b2 (j + n) = Some b3" "length b3 = 32896"
      using append_lte_mode_defined [OF _ a(4)] a(2,3) j by auto
    have "read_block info t img s = Some (s\<lparr>test_buffer := b3\<rparr>)"
      using True unfolding read_block_def Let_def j_def [symmetric]
      by (simp only: b(1) w(1) a(1) e(1) Option.bind_lunit simp_thms if_True prod.case)
    then show ?thesis using boot_ok_buffer [OF assms(1), of b3] e(2) by (simp add: size_defs)
  next
    case False
    have "read_block info t img s = Some (s\<lparr>test_buffer := b\<rparr>)"
      using False unfolding read_block_def Let_def by (simp only: b(1) Option.bind_lunit simp_thms if_False)
    then show ?thesis using boot_ok_buffer [OF assms(1), of b] b(2) by (simp add: size_defs)
  qed
qed

lemma pad_block_safely:
  assumes "boot_ok s" "t \<in> {LS_PACKET_SIZE, HS_PACKET_SIZE}" "0 \<le> n"
  shows "\<exists>i' n' s'. pad_block t n i s = Some (i', n', s') \<and> boot_ok s' \<and> 0 \<le> n'"
proof -
  have l: "length (test_buffer s) = 32896" and t: "t \<le> 32768"
    using assms by (auto simp: boot_ok_def size_defs)
  show ?thesis
  proof (cases "n < int t")
    case True
    then have "8 + nat n + length (replicate (t - nat n) (0xFF :: byte)) \<le> length (test_buffer s)" using l(1) t assms(3) by simp
    then obtain b where b: "mem_write (test_buffer s) (8 + nat n) (replicate (t - nat n) 0xFF) = Some b" "length b = 32896"
      by (rule mem_write_defined) (simp add: l(1))
    then show ?thesis using True boot_ok_buffer [OF assms(1), of b] by (simp add: pad_block_def size_defs)
  qed (simp add: pad_block_def assms)
qed

lemma image_blocks_safely:
  assumes "boot_ok s" "t \<in> {LS_PACKET_SIZE, HS_PACKET_SIZE}" "0 \<le> n"
  shows "safely (\<lambda>(r, s). boot_ok s) (image_blocks info t count i n img s)"
  using assms
proof (induction info t count i n img s rule: image_blocks.induct)
  case (1 info t count i n img s)
  show ?case
  proof (cases "i < count")
    case True
    obtain s1 where s1: "read_block info t img s = Some s1" "boot_ok s1"
      using read_block_safely [OF "1.prems"(1,2)] by auto
    obtain i' n' s2 where s2: "pad_block t n i s1 = Some (i', n', s2)" "boot_ok s2" "0 \<le> n'"
      using pad_block_safely [OF s1(2) "1.prems"(2,3)] by blast
    have "safely (\<lambda>(r, s). boot_ok s) (and_then (send_data_message (test_buffer s2) t 1 t (drop t img) s2) (\<lambda>(ret, buf, img, s).
        let s = s\<lparr>test_buffer := buf\<rparr> in
        if ret \<noteq> DL_SUCCESS then Returned (DL_FAILURE, s) else image_blocks info t count (i' + 1) n' img s))"
    proof (cases "send_data_message (test_buffer s2) t 1 t (drop t img) s2")
      case (Returned x)
      obtain ret buf im s3 where x: "x = (ret, buf, im, s3)" by (cases x)
      have s3: "boot_ok (s3\<lparr>test_buffer := buf\<rparr>)"
        using send_data_safely [OF s2(2) "1.prems"(2), of "test_buffer s2" "drop t img"] s2(2) Returned x
        by (auto simp: boot_ok_def)
      then have "safely (\<lambda>(r, s). boot_ok s) (image_blocks info t count (i' + 1) n' im (s3\<lparr>test_buffer := buf\<rparr>))"
        if "ret = DL_SUCCESS"
        using that "1.IH" [OF True, of s1 "(i', n', s2)" i' "(n', s2)" n' s2 x ret "(buf, im, s3)" buf "(im, s3)" im s3] s1 s2 Returned x "1.prems"(2)
        by simp
      then show ?thesis using s3 by (simp add: Returned x Let_def)
    qed (use send_data_safely [OF s2(2) "1.prems"(2), of "test_buffer s2" "drop t img"] s2(2) in \<open>auto simp: boot_ok_def\<close>)
    then show ?thesis using True by (subst image_blocks.simps) (simp add: s1(1) s2(1))
  next
    case False
    then show ?thesis using send_end_safely [OF "1.prems"(1)] by (subst image_blocks.simps) simp
  qed
qed

lemma download_image_safely:
  assumes "boot_ok s" "unat (image_size info) \<le> 2 ^ 30"
  shows "safely (\<lambda>(r, s). boot_ok s) (download_image info s)"
proof (cases "Option.bind (image_path info) (image_files s)")
  case None
  then show ?thesis using assms(1) by (auto simp: download_image_def Let_def bind_eq_None_conv split: option.split)
next
  case (Some content)
  then obtain path where p: "image_path info = Some path" "image_files s path = Some content"
    by (auto simp: bind_eq_Some_conv)
  then have "4 \<le> length content" using assms(1) by (auto simp: boot_ok_def)
  then obtain img where b: "image_body content = Some img" by (auto simp: image_body_def)
  define t where "t = trans_size_of info"
  have t: "t \<in> {LS_PACKET_SIZE, HS_PACKET_SIZE}" by (auto simp: t_def trans_size_of_def)
  have si: "sint (image_size info) = int (unat (image_size info))"
    using assms(2) by (intro sint_unat_small) simp
  have n: "0 \<le> sint (image_size info)" unfolding si by simp
  obtain k where k: "block_count (sint (image_size info)) t = Some k"
    using block_count_small(1) [OF assms(2) t_def refl] unfolding si by auto
  have "safely (\<lambda>(r, s). boot_ok s) (and_then (send_start_message sz addr 1 s) (\<lambda>(ret, s).
      if ret \<noteq> DL_SUCCESS then Returned (DL_FAILURE, s) else image_blocks info t k 0 (sint (image_size info)) img s))" for sz addr
    by (intro safely_and_then [OF send_start_safely [OF assms(1)]]) (auto intro!: image_blocks_safely [OF _ t n])
  then show ?thesis using p b k by (simp add: download_image_def Let_def t_def [symmetric])
qed

lemma setup_exec_spi:
  "\<exists>b. (do { raw_buffer \<leftarrow> store32 raw_zero 8 (cpu2be32 addr); setup_packet BSL_CMD_EXEC_DATA raw_buffer 8 4 1 0 })
     = Some (b, 12) \<and> length b = 32"
proof -
  let ?p = "put32 (cpu2be32 addr)"
  have z: "raw_zero = replicate 8 0 @ replicate 4 0 @ replicate 20 0"
    by (simp add: raw_zero_def flip: replicate_add)
  have s: "store32 raw_zero 8 (cpu2be32 addr) = Some (replicate 8 0 @ ?p @ replicate 20 0)"
    by (simp add: z store32_def mem_write_def)
  have "setup_packet BSL_CMD_EXEC_DATA (replicate 8 0 @ ?p @ replicate 20 0) 8 4 1 0
      = Some (spi_head 4 4 (boot_checksum ?p) @ ?p @ replicate 20 0, 12)"
    using spi_summed [of "replicate 8 0" ?p 4 "replicate 20 0" 4 4 "\<lambda>b. Some (b, 12)"]
    by (simp add: setup_packet_def BSL_UART_PACKET_def)
  then show ?thesis by (simp only: s Option.bind_lunit) simp
qed

lemma send_exec_safely:
  assumes "boot_ok s"
  shows "safely (\<lambda>(r, s). boot_ok s) (send_exec_message addr 1 s)"
proof -
  obtain b where b: "(do { raw_buffer \<leftarrow> store32 raw_zero 8 (cpu2be32 addr); setup_packet BSL_CMD_EXEC_DATA raw_buffer 8 4 1 0 })
     = Some (b, 12)" "length b = 32" using setup_exec_spi by blast
  show ?thesis
    unfolding send_exec_message_def b(1)
    using spi_exchange_safely [of 12 b b s "\<lambda>(r, s). boot_ok s" "\<lambda>h s. Returned (if acked h then 0 else -1, s)"] assms b(2)
    by (simp add: write_packet_def)
qed

lemma download_entries_safely:
  assumes "boot_ok s" "\<forall>info \<in> set infos. unat (image_size info) \<le> 2 ^ 30"
    and "ret \<noteq> None \<or> (\<exists>info \<in> set infos. mask info AND cap \<noteq> 0)"
  shows "safely (\<lambda>(r, s). boot_ok s \<and> r \<noteq> None) (download_entries cap ret infos s)"
  using assms
proof (induction infos arbitrary: ret s)
  case (Cons info infos)
  show ?case
  proof (cases "mask info AND cap = 0")
    case True
    then show ?thesis using Cons by auto
  next
    case False
    then show ?thesis
      using Cons.prems Cons.IH [of _ "Some _"]
      by (auto intro!: safely_and_then [OF download_image_safely])
  qed
qed simp

text \<open>C6. The download of the built-in table is memory safe for every behaviour of the modem: with
  every image file at least four bytes long and a test mode property of at most 90 characters,
  \<open>download_images\<close> has no undefined behaviour, whatever its reads and writes return, and a defined
  result.\<close>

theorem download_images_safe:
  assumes "boot_ok s" "download_image_info s = download_image_info_init" "modem_images_count s = max_item"
  shows "download_images s \<noteq> Undefined"
proof -
  let ?s = "snd (get_modem_capabilities s)" and ?cap = "fst (get_modem_capabilities s)"
  let ?infos = "take 16 (drop 1 download_image_info_init)"
  have s: "boot_ok ?s" "download_image_info ?s = download_image_info_init"
    using assms(1,2) by (simp_all add: get_modem_capabilities_def Let_def)
  have cap: "?cap = MODE_TCSFB \<or> ?cap = MODE_SVLTE" by (simp add: get_modem_capabilities_def Let_def)
  have r: "mem_read download_image_info_init 1 (max_item - 1) = Some ?infos"
    by (simp add: mem_read_def max_item_eq) (simp add: download_image_info_init_def)
  have sz: "\<forall>info \<in> set ?infos. unat (image_size info) \<le> 2 ^ 30"
    by (simp add: table_eval)
  have mk: "\<exists>info \<in> set ?infos. mask info AND ?cap \<noteq> 0"
    using cap by (elim disjE) (simp_all add: table_eval)
  have "safely (\<lambda>_. True) (and_then (download_entries ?cap None ?infos ?s) (\<lambda>(ret, s).
      and_then (send_exec_message addr 1 s) (\<lambda>(_, s). and_then (checked ret) (\<lambda>ret. Returned (ret, s)))))" for addr
    using sz mk s(1)
    by (intro safely_and_then [OF download_entries_safely]) (auto intro!: safely_and_then [OF send_exec_safely])
  then have "safely (\<lambda>_. True) (download_images s)"
    using r s(2) assms(3) by (simp add: download_images_def case_prod_beta' Let_def)
  then show ?thesis by auto
qed

theorem download_images_safe_witness:
  "boot_ok (demo_boot Map.empty [] []) \<and> download_images ((demo_boot Map.empty [] [])\<lparr>modem_images_count := max_item\<rparr>) \<noteq> Undefined"
  using download_images_safe [of "(demo_boot Map.empty [] [])\<lparr>modem_images_count := max_item\<rparr>"]
  by (simp add: boot_ok_def demo_boot_def)

section \<open>Tables from the configuration file\<close>

definition unmasked :: "image_info list \<Rightarrow> bool" where
  "unmasked infos = (\<forall>info \<in> set infos. mask info = 0)"

lemma unmasked_update: "unmasked infos \<Longrightarrow> mask info = 0 \<Longrightarrow> unmasked (infos[i := info])"
  using set_update_subset_insert [of infos i info] by (auto simp: unmasked_def)

lemma scan_line_mask:
  "scan_line line bak info = Some (Some (o1, b1, info')) \<Longrightarrow> mask info' = mask info"
  by (auto simp: scan_line_def bind_eq_Some_conv split: option.splits if_splits prod.splits)

lemma config_entry_unmasked:
  assumes "config_entry o1 b1 info cnt s = Some (bak', cnt', s')" "unmasked (download_image_info s)" "mask info = 0"
  shows "unmasked (download_image_info s')" "length (download_image_info s') = length (download_image_info s)" "cnt' \<le> cnt + 1"
  using assms by (auto simp: config_entry_def Let_def intro!: unmasked_update split: if_splits)

lemma config_line_unmasked:
  assumes "config_line line bak cnt s = Some (bak', cnt', s')" "unmasked (download_image_info s)"
    and "cnt < length (download_image_info s)"
  shows "unmasked (download_image_info s') \<and> length (download_image_info s') = length (download_image_info s) \<and> cnt' \<le> cnt + 1"
proof -
  let ?line = "butlast (takeWhile (\<lambda>c. c \<noteq> CHR 0x00) line)"
  have m: "mask (download_image_info s ! cnt) = 0" using assms(2,3) by (auto simp: unmasked_def)
  consider "cnt' = cnt" "s' = s"
    | o1 b1 info where "scan_line ?line bak (download_image_info s ! cnt) = Some (Some (o1, b1, info))"
        "config_entry o1 b1 info cnt s = Some (bak', cnt', s')"
    using assms(1) unfolding config_line_def Let_def
    by (auto simp: bind_eq_Some_conv split: if_splits option.splits)
  then show ?thesis
  proof cases
    case 2
    then show ?thesis using config_entry_unmasked [OF 2(2) assms(2)] scan_line_mask [OF 2(1)] m by simp
  qed (use assms(2) in simp)
qed

lemma config_lines_unmasked:
  assumes "config_lines lines bak cnt s = Some (cnt', s')" "unmasked (download_image_info s)"
    and "cnt < max_item" "max_item < length (download_image_info s)"
  shows "unmasked (download_image_info s') \<and> cnt' < length (download_image_info s')"
  using assms
proof (induction lines arbitrary: bak cnt s)
  case (Cons line lines)
  obtain b1 c1 s1 where l: "config_line line bak cnt s = Some (b1, c1, s1)"
    using Cons.prems(1) by (auto simp: bind_eq_Some_conv)
  have c: "cnt < length (download_image_info s)" using Cons.prems(3,4) by simp
  note k = config_line_unmasked [OF l Cons.prems(2) c]
  show ?case
  proof (cases "max_item \<le> c1")
    case True
    then show ?thesis using Cons.prems(1,3,4) k l by simp
  next
    case False
    then show ?thesis using Cons.IH [of b1 c1 s1] Cons.prems(1,4) k l by simp
  qed
qed simp

lemma choose_image_mask: "choose_image s info = Some info' \<Longrightarrow> mask info' = mask info"
  by (auto simp: choose_image_def bind_eq_Some_conv split: if_splits)

lemma choose_images_unmasked:
  "choose_images n s infos = Some infos' \<Longrightarrow> unmasked infos \<Longrightarrow> unmasked infos' \<and> length infos' = length infos"
proof (induction n s infos arbitrary: infos' rule: choose_images.induct)
  case (1 n s info infos)
  then show ?case by (fastforce simp: bind_eq_Some_conv unmasked_def dest: choose_image_mask)
qed auto

lemma download_entries_unmasked: "unmasked infos \<Longrightarrow> download_entries cap ret infos s = Returned (ret, s)"
  by (induction infos) (auto simp: unmasked_def)

lemma images_info_unmasked:
  assumes "image_files s ''/modem_images.info'' = Some content" "length (download_image_info s) = max_item + 1"
    and "get_modem_images_info s = Some (cnt, s1)"
  shows "unmasked (download_image_info s1)" "modem_images_count s1 < length (download_image_info s1)"
proof -
  let ?lines = "fgets_lines (map (\<lambda>b. char_of (unat b)) content)"
  obtain s2 infos where l: "config_lines ?lines None 0 (clear_table s) = Some (cnt, s2)"
    and infos: "choose_images cnt (end_table cnt s2) (download_image_info (end_table cnt s2)) = Some infos"
    and s1: "s1 = (end_table cnt s2)\<lparr>download_image_info := infos\<rparr>"
    using assms(1,3) unfolding get_modem_images_info_def by (auto simp: bind_eq_Some_conv Let_def)
  have u: "unmasked (download_image_info s2)" "cnt < length (download_image_info s2)"
    using config_lines_unmasked [OF l] assms(2) by (simp_all add: clear_table_def unmasked_def no_image_def max_item_eq)
  then have "mask (download_image_info s2 ! cnt) = 0" by (auto simp: unmasked_def)
  then have "unmasked (download_image_info (end_table cnt s2))"
    using u(1) by (simp add: end_table_def Let_def unmasked_update)
  then have "unmasked infos" "length infos = length (download_image_info s2)"
    using choose_images_unmasked [OF infos] by (simp_all add: end_table_def Let_def)
  then show "unmasked (download_image_info s1)" "modem_images_count s1 < length (download_image_info s1)"
    using u(2) by (simp_all add: s1 end_table_def Let_def)
qed

text \<open>A table read from \<open>/modem_images.info\<close> has no mode masks, so \<open>download_images\<close> sends no image
  at all: it goes straight to the execute message, and then returns a variable it never assigned.\<close>

theorem config_file_sends_nothing:
  assumes "image_files s ''/modem_images.info'' = Some content" "length (download_image_info s) = max_item + 1"
    and "get_modem_images_info s = Some (cnt, s1)"
  shows "\<exists>addr. download_images s1 = and_then (send_exec_message addr 1 (snd (get_modem_capabilities s1))) (\<lambda>_. Undefined)"
proof -
  let ?s = "snd (get_modem_capabilities s1)"
  note u = images_info_unmasked [OF assms]
  have i: "download_image_info ?s = download_image_info s1" by (simp add: get_modem_capabilities_def Let_def)
  have "mem_read (download_image_info s1) 1 (modem_images_count s1 - 1)
      = Some (take (modem_images_count s1 - 1) (drop 1 (download_image_info s1)))" (is "_ = Some ?infos")
    using u(2) by (auto simp: mem_read_def)
  moreover have "unmasked ?infos" using u(1) by (auto simp: unmasked_def dest!: in_set_takeD in_set_dropD)
  ultimately show ?thesis
    using i by (auto simp: download_images_def case_prod_beta' Let_def download_entries_unmasked intro!: exI)
qed

definition demo_config :: "byte list" where
  "demo_config = bytes_of (''/f /f 0x100 20'' @ [CHR 0x0A] @ ''/t /t 1f 30'' @ [CHR 0x0A])"

definition demo_configured :: boot_state where
  "demo_configured = \<lparr>send_buffer = [], max_transfer_size = 0, wire = [], writes = [], reads = [],
     test_buffer = [], download_image_info = replicate 18 no_image,
     modem_images_count = 12, capabilities_flag = 0xff, uart_dev = ''/dev/ttyS2'', fdl_cp_poweron_delay = 160000,
     image_files = (\<lambda>p. if p = ''/modem_images.info'' then Some demo_config else None), properties = (\<lambda>_. [])\<rparr>"

lemma config_example: "map_option fst (get_modem_images_info demo_configured) = Some 2"
  by code_simp

theorem config_file_sends_nothing_witness:
  "\<exists>cnt s1 addr. get_modem_images_info demo_configured = Some (cnt, s1)
    \<and> download_images s1 = and_then (send_exec_message addr 1 (snd (get_modem_capabilities s1))) (\<lambda>_. Undefined)"
proof -
  obtain cnt s1 where "get_modem_images_info demo_configured = Some (cnt, s1)" using config_example by auto
  moreover have "image_files demo_configured ''/modem_images.info'' = Some demo_config"
    "length (download_image_info demo_configured) = max_item + 1"
    by (simp_all add: demo_configured_def max_item_eq)
  ultimately show ?thesis using config_file_sends_nothing by blast
qed

lemma fdl_blocks_odd:
  "fdl_blocks buffer sz s = Returned (ret, s') \<Longrightarrow> sz mod 256 \<noteq> 0 \<Longrightarrow> ret = DL_FAILURE"
proof (induction buffer sz s rule: fdl_blocks.induct)
  case (1 buffer sz s)
  have nz: "sz \<noteq> 0" using "1.prems"(2) by auto
  have e: "(sz - int FDL_PACKET_SIZE) mod 256 = sz mod 256" by (simp add: FDL_PACKET_SIZE_def)
  obtain r b im s1 where r: "send_data_message buffer FDL_PACKET_SIZE 0 0 [] s = Returned (r, b, im, s1)"
    and c: "(if r = DL_FAILURE then Returned (r, s1) else fdl_blocks (drop FDL_PACKET_SIZE buffer) (sz - int FDL_PACKET_SIZE) s1) = Returned (ret, s')"
    using "1.prems"(1) nz by (subst (asm) fdl_blocks.simps) (auto simp: and_then_Returned_iff)
  show ?case
    using "1.IH" [OF nz, of "(r, b, im, s1)"] r c e "1.prems"(2) by (auto split: if_splits)
qed

text \<open>A boot loader whose size is no multiple of 256 is never started: the loop over its blocks does not
  end with the last block.\<close>

lemma download_fdl_odd_size:
  assumes "download_fdl spare s = Returned (ret, s')" "sint (image_size (download_image_info s ! 0)) mod 256 \<noteq> 0"
    and "download_image_info s \<noteq> []"
  shows "ret = DL_FAILURE"
proof -
  have "sz = sint (image_size (download_image_info s ! 0))" if "load_fdl2memory spare s = Returned (Some (buffer, sz))" for buffer sz
    using that assms(3) by (auto simp: load_fdl2memory_def mem_read_def Let_def and_then_Returned_iff split: option.splits if_splits)
  then show ?thesis
    using assms(1,2) unfolding download_fdl_def
    by (auto simp: and_then_Returned_iff Let_def split: option.splits if_splits dest!: fdl_blocks_odd)
qed

text \<open>The mode that a client asks for with a reload message has no effect on the next download.\<close>

lemma reload_mode_ignored: "download_images (set_modem_capabilities flag s) = download_images s"
  by (simp add: download_images_def set_modem_capabilities_def get_modem_capabilities_def)

end
