(* ===== verification/ModemConnect.thy ===== *)
theory ModemConnect
  imports DeviceIo
begin

text \<open>
  Power, reset and hand shake of \<^verbatim>\<open>src/apps/modem_control/modem_boot.c\<close>: \<open>poweron_modem\<close>,
  \<open>poweroff_modem\<close>, \<open>reset_modem\<close>, \<open>hard_reset_modem\<close>, \<open>delta_miliseconds\<close>, \<open>try_to_connect_modem\<close> and
  \<open>try_to_connect_fdl\<close>.

  The loops here wait on the clock, so their answers are streams: the \<open>n\<close>-th value of the clock, the
  \<open>n\<close>-th result of \<open>write\<close>, of \<open>read\<close> (a byte or none, the line does not block) and of reopening the
  line.  The state counts how many of each were used.  A loop that does not end has the value
  \<^term>\<open>None\<close> (\<open>partial_function\<close>); \<open>Overflowed\<close> is a signed overflow in the time difference.
\<close>

section \<open>Power and reset\<close>

definition MODEM_POWER_PATH :: string where
  "MODEM_POWER_PATH = ''/sys/devices/platform/modem_interface/modempower''"

definition MODEM_RESET_PATH :: string where
  "MODEM_RESET_PATH = ''/sys/devices/platform/modem_interface/modemreset''"

datatype reset_type = MODEM_SOFT_RESET | MODEM_HARD_RESET

record power_state =
  modem_power_status :: bool
  writable :: "string \<Rightarrow> bool"
  sys_writes :: "(string \<times> string) list"

definition sys_write :: "string \<Rightarrow> string \<Rightarrow> 'a power_state_scheme \<Rightarrow> 'a power_state_scheme" where
  "sys_write path buf s = s\<lparr>sys_writes := sys_writes s @ [(path, buf)]\<rparr>"

definition poweron_modem :: "'a power_state_scheme \<Rightarrow> 'a power_state_scheme" where
  "poweron_modem s =
     (if modem_power_status s then s
      else if \<not> writable s MODEM_POWER_PATH then s
      else (sys_write MODEM_POWER_PATH ''1'' s)\<lparr>modem_power_status := True\<rparr>)"

definition poweroff_modem :: "'a power_state_scheme \<Rightarrow> 'a power_state_scheme" where
  "poweroff_modem s =
     (let s = s\<lparr>modem_power_status := False\<rparr>
      in if \<not> writable s MODEM_POWER_PATH then s else sys_write MODEM_POWER_PATH ''0'' s)"

definition reset_modem :: "reset_type \<Rightarrow> 'a power_state_scheme \<Rightarrow> 'a power_state_scheme" where
  "reset_modem type s =
     (if \<not> modem_power_status s then s
      else if \<not> writable s MODEM_RESET_PATH then s
      else case type of
          MODEM_HARD_RESET \<Rightarrow> sys_write MODEM_RESET_PATH ''2'' s
        | MODEM_SOFT_RESET \<Rightarrow> sys_write MODEM_RESET_PATH ''1'' s)"

definition hard_reset_modem :: "'a power_state_scheme \<Rightarrow> 'a power_state_scheme" where
  "hard_reset_modem s = poweroff_modem s"

section \<open>Time\<close>

text \<open>\<open>tv_sec\<close> and \<open>tv_nsec\<close>.  The difference is computed in 32-bit signed integers, then read as unsigned.\<close>

type_synonym timespec = "int \<times> int"

definition in_int :: "int \<Rightarrow> bool" where
  "in_int n = (- (2 ^ 31) \<le> n \<and> n < 2 ^ 31)"

definition delta_miliseconds :: "timespec \<Rightarrow> timespec \<Rightarrow> int option" where
  "delta_miliseconds begin_ts end_ts =
     (let ns = snd end_ts - snd begin_ts;
          sec = fst end_ts - fst begin_ts;
          q = (if 0 \<le> ns then ns div 1000000 else - (- ns div 1000000));
          v = sec * 1000 + q
      in if \<not> (in_int ns \<and> in_int sec \<and> in_int (sec * 1000) \<and> in_int v) then None
         else let ms = v mod 2 ^ 32 in Some (if ms = 0 then 1 else ms))"

definition FDL_CP_UART_TIMEOUT :: int where "FDL_CP_UART_TIMEOUT = 3000"

section \<open>The hand shake with the boot ROM\<close>

record uart_env =
  clock :: "nat \<Rightarrow> timespec option"
  line_write :: "nat \<Rightarrow> int"
  line_read :: "nat \<Rightarrow> byte option"
  line_open :: "nat \<Rightarrow> int"

record connect_state = power_state +
  clocks :: nat
  line_writes :: nat
  line_reads :: nat
  line_opens :: nat

datatype version_result = Version | No_version | Clock_failed | Version_overflow

text \<open>
  The inner loop: \<open>n\<close> is \<open>data - version_string\<close>.  Its condition is tested after a byte that is
  neither the end of the version nor the last one of the buffer, and after a read without data.
\<close>

partial_function (option) version_loop ::
  "uart_env \<Rightarrow> timespec \<Rightarrow> timespec \<Rightarrow> nat \<Rightarrow> connect_state \<Rightarrow> (version_result \<times> connect_state) option" where
  "version_loop env tm_begin tm_end n s =
     (case line_read env (line_reads s) of
        Some c \<Rightarrow>
          let s = s\<lparr>line_reads := line_reads s + 1\<rparr> in
          if c = 0x7E then Some (Version, s)
          else if 64 \<le> n + 1 then Some (No_version, s)
          else (case delta_miliseconds tm_begin tm_end of
                  None \<Rightarrow> Some (Version_overflow, s)
                | Some ms \<Rightarrow> if ms < FDL_CP_UART_TIMEOUT then version_loop env tm_begin tm_end (n + 1) s
                            else Some (No_version, s))
      | None \<Rightarrow>
          let s = s\<lparr>line_reads := line_reads s + 1\<rparr> in
          (case clock env (clocks s) of
             None \<Rightarrow> Some (Clock_failed, s)
           | Some tm_end \<Rightarrow>
               let s = s\<lparr>clocks := clocks s + 1\<rparr> in
               (case delta_miliseconds tm_begin tm_end of
                  None \<Rightarrow> Some (Version_overflow, s)
                | Some ms \<Rightarrow> if ms < FDL_CP_UART_TIMEOUT then version_loop env tm_begin tm_end n s
                            else Some (No_version, s))))"

datatype connect_step = Overflowed | Done int | Again int nat timespec

text \<open>From the hand shake to the end of a round of the outer loop.\<close>

definition hand_shake :: "uart_env \<Rightarrow> int \<Rightarrow> nat \<Rightarrow> timespec \<Rightarrow> timespec \<Rightarrow> connect_state \<Rightarrow>
    (connect_step \<times> connect_state) option" where
  "hand_shake env uart_fd loopcount tm_begin tm_end s =
     (let ret = line_write env (line_writes s);
          s = s\<lparr>line_writes := line_writes s + 1\<rparr>
      in if ret < 0 then
           Some (Again (line_open env (line_opens s)) loopcount tm_begin, s\<lparr>line_opens := line_opens s + 1\<rparr>)
         else
           let s = s\<lparr>line_writes := line_writes s + 1\<rparr>;
               c = line_read env (line_reads s);
               s = s\<lparr>line_reads := line_reads s + 1\<rparr>
           in if c = Some 0x7E then do {
                (r, s) \<leftarrow> version_loop env tm_begin tm_end 1 s;
                Some (case r of
                    Version \<Rightarrow> Done uart_fd
                  | No_version \<Rightarrow> Again uart_fd loopcount tm_begin
                  | Clock_failed \<Rightarrow> Done (-1)
                  | Version_overflow \<Rightarrow> Overflowed, s) }
              else Some (Again uart_fd loopcount tm_begin, s))"

definition connect_round :: "uart_env \<Rightarrow> int \<Rightarrow> nat \<Rightarrow> timespec \<Rightarrow> connect_state \<Rightarrow> (connect_step \<times> connect_state) option" where
  "connect_round env uart_fd loopcount tm_begin s =
     (case clock env (clocks s) of
        None \<Rightarrow> Some (Done (-1), s)
      | Some tm_end \<Rightarrow>
          let s = s\<lparr>clocks := clocks s + 1\<rparr> in
          (case delta_miliseconds tm_begin tm_end of
             None \<Rightarrow> Some (Overflowed, s)
           | Some ms_delta \<Rightarrow>
               if FDL_CP_UART_TIMEOUT < ms_delta then
                 let loopcount = loopcount + 1 in
                 if loopcount = 5 then Some (Done (-1), s)
                 else let s = reset_modem MODEM_SOFT_RESET s in
                   (case clock env (clocks s) of
                      None \<Rightarrow> Some (Done (-1), s)
                    | Some tm_begin \<Rightarrow> hand_shake env uart_fd loopcount tm_begin tm_end (s\<lparr>clocks := clocks s + 1\<rparr>))
               else hand_shake env uart_fd loopcount tm_begin tm_end s))"

partial_function (option) connect_loop ::
  "uart_env \<Rightarrow> int \<Rightarrow> nat \<Rightarrow> timespec \<Rightarrow> connect_state \<Rightarrow> (int option \<times> connect_state) option" where
  "connect_loop env uart_fd loopcount tm_begin s =
     Option.bind (connect_round env uart_fd loopcount tm_begin s) (\<lambda>(step, s).
     case step of
       Overflowed \<Rightarrow> Some (None, s)
     | Done r \<Rightarrow> Some (Some r, s)
     | Again uart_fd loopcount tm_begin \<Rightarrow> connect_loop env uart_fd loopcount tm_begin s)"

definition try_to_connect_modem :: "uart_env \<Rightarrow> int \<Rightarrow> connect_state \<Rightarrow> (int option \<times> connect_state) option" where
  "try_to_connect_modem env uart_fd s =
     (let s = poweron_modem s in
      case clock env (clocks s) of
        None \<Rightarrow> Some (Some (-1), s)
      | Some tm_begin \<Rightarrow> connect_loop env uart_fd 0 tm_begin (s\<lparr>clocks := clocks s + 1\<rparr>))"

section \<open>The hand shake with the loader\<close>

text \<open>The inner loop of \<open>try_to_connect_fdl\<close>, over the bytes the line delivers.\<close>

function fdl_version :: "uart_env \<Rightarrow> nat \<Rightarrow> connect_state \<Rightarrow> bool \<times> connect_state" where
  "fdl_version env n s =
     (let c = line_read env (line_reads s);
          s = s\<lparr>line_reads := line_reads s + 1\<rparr>
      in case c of
           None \<Rightarrow> (False, s)
         | Some b \<Rightarrow>
             if b = 0x7E then (True, s)
             else if 64 \<le> n + 1 then (False, s)
             else fdl_version env (n + 1) s)"
  by auto
termination by (relation "measure (\<lambda>(env, n, s). 64 - n)") auto

declare fdl_version.simps [simp del]

fun fdl_rounds :: "nat \<Rightarrow> uart_env \<Rightarrow> connect_state \<Rightarrow> bool \<times> connect_state" where
  "fdl_rounds 0 env s = (False, s)"
| "fdl_rounds (Suc j) env s =
     (let s = s\<lparr>line_writes := line_writes s + 1\<rparr>;
          c = line_read env (line_reads s);
          s = s\<lparr>line_reads := line_reads s + 1\<rparr>;
          (rev, s) = (if c = Some 0x7E then fdl_version env 1 s else (False, s))
      in if rev then (True, s) else fdl_rounds j env s)"

definition try_to_connect_fdl :: "uart_env \<Rightarrow> connect_state \<Rightarrow> bool \<times> connect_state" where
  "try_to_connect_fdl env s = fdl_rounds 1000 env s"

section \<open>The hand shake ends\<close>

definition nanos :: "timespec \<Rightarrow> int" where
  "nanos ts = fst ts * 1000000000 + snd ts"

text \<open>A monotonic clock: normalised readings that never go back, are at most an hour apart and pass
  every bound.\<close>

definition clock_at :: "uart_env \<Rightarrow> nat \<Rightarrow> timespec" where
  "clock_at env n = the (clock env n)"

definition clock_ok :: "uart_env \<Rightarrow> bool" where
  "clock_ok env = ((\<forall>n. clock env n \<noteq> None \<and> 0 \<le> snd (clock_at env n) \<and> snd (clock_at env n) < 1000000000
       \<and> nanos (clock_at env n) \<le> nanos (clock_at env (Suc n))
       \<and> nanos (clock_at env (Suc n)) \<le> nanos (clock_at env n) + 3600000000000)
     \<and> (\<forall>t. \<exists>n. t < nanos (clock_at env n)))"

lemma clock_okD:
  assumes "clock_ok env"
  shows "clock env n = Some (clock_at env n)" "0 \<le> snd (clock_at env n)" "snd (clock_at env n) < 1000000000"
    "nanos (clock_at env n) \<le> nanos (clock_at env (Suc n))"
    "nanos (clock_at env (Suc n)) \<le> nanos (clock_at env n) + 3600000000000"
proof -
  have c: "clock env n \<noteq> None \<and> 0 \<le> snd (clock_at env n) \<and> snd (clock_at env n) < 1000000000
      \<and> nanos (clock_at env n) \<le> nanos (clock_at env (Suc n))
      \<and> nanos (clock_at env (Suc n)) \<le> nanos (clock_at env n) + 3600000000000"
    using assms unfolding clock_ok_def by blast
  then show "clock env n = Some (clock_at env n)" by (simp add: clock_at_def)
  show "0 \<le> snd (clock_at env n)" "snd (clock_at env n) < 1000000000"
    "nanos (clock_at env n) \<le> nanos (clock_at env (Suc n))"
    "nanos (clock_at env (Suc n)) \<le> nanos (clock_at env n) + 3600000000000"
    using c by blast+
qed

lemma clock_mono: "clock_ok env \<Longrightarrow> m \<le> n \<Longrightarrow> nanos (clock_at env m) \<le> nanos (clock_at env n)"
  by (rule lift_Suc_mono_le [of "\<lambda>n. nanos (clock_at env n)", OF clock_okD(4)])

text \<open>Readings ten thousand seconds apart at most: the difference is defined, and small only if the
  second reading is little later.\<close>

lemma delta_close:
  assumes "0 \<le> snd b" "snd b < 1000000000" "0 \<le> snd e" "snd e < 1000000000" "\<bar>nanos e - nanos b\<bar> \<le> 10000000000000"
  shows "\<exists>ms. delta_miliseconds b e = Some ms \<and> (ms \<le> FDL_CP_UART_TIMEOUT \<longrightarrow> nanos e - nanos b \<le> 3001000000)"
proof -
  define N S where NS: "N = snd e - snd b" "S = fst e - fst b"
  let ?ns = N and ?sec = S
  let ?q = "if 0 \<le> ?ns then ?ns div 1000000 else - (- ?ns div 1000000)"
  let ?v = "?sec * 1000 + ?q"
  have d: "nanos e - nanos b = ?sec * 1000000000 + ?ns" by (simp add: NS nanos_def algebra_simps)
  have ns: "- 1000000000 < ?ns" "?ns < 1000000000" using assms(1-4) by (auto simp: NS)
  have q: "?ns - 1000000 < 1000000 * ?q" "1000000 * ?q < ?ns + 1000000"
    by (auto simp: not_le)
  have "nanos e - nanos b \<le> 10000000000000" "- 10000000000000 \<le> nanos e - nanos b" using assms(5) by linarith+
  then have sec: "- 10001 \<le> ?sec" "?sec \<le> 10001" using d ns by linarith+
  have v: "- 10002000 \<le> ?v" "?v \<le> 10002000" using sec q ns by linarith+
  have "in_int ?ns" "in_int ?sec" "in_int (?sec * 1000)" "in_int ?v"
    using ns sec v by (simp_all add: in_int_def)
  then have "delta_miliseconds b e = Some (if ?v mod 2 ^ 32 = 0 then 1 else ?v mod 2 ^ 32)"
    unfolding delta_miliseconds_def Let_def NS [symmetric] by (simp only: simp_thms if_False)
  moreover have "nanos e - nanos b \<le> 3001000000" if "(if ?v mod 2 ^ 32 = 0 then 1 else ?v mod 2 ^ 32) \<le> FDL_CP_UART_TIMEOUT"
  proof (cases "0 \<le> ?v")
    case True
    then have "?v mod 2 ^ 32 = ?v" using v by (intro mod_pos_pos_trivial) auto
    then have "?v \<le> 3000" using that by (simp add: FDL_CP_UART_TIMEOUT_def split: if_splits)
    then show ?thesis using d q by linarith
  next
    case False
    then show ?thesis using d q by linarith
  qed
  ultimately show ?thesis by blast
qed

text \<open>
  \<open>tm_begin\<close> is a reading already taken, and the last reading taken is at most \<open>slack\<close> later.
\<close>

definition timed :: "uart_env \<Rightarrow> int \<Rightarrow> timespec \<Rightarrow> connect_state \<Rightarrow> bool" where
  "timed env slack b s = (\<exists>m < clocks s. b = clock_at env m
     \<and> nanos (clock_at env (clocks s - 1)) \<le> nanos b + 3001000000 + slack)"

lemma timed_keep:
  "timed env slack b s \<Longrightarrow> clocks s' = clocks s \<Longrightarrow> timed env slack b s'"
  by (simp add: timed_def)

lemma timed_weaken: "timed env 0 b s \<Longrightarrow> timed env 3600000000000 b s"
  by (auto simp: timed_def)

lemma timed_read:
  assumes "clock_ok env" "timed env slack b s" "0 \<le> slack" "slack \<le> 3600000000000"
  shows "\<exists>ms. delta_miliseconds b (clock_at env (clocks s)) = Some ms
    \<and> (ms \<le> FDL_CP_UART_TIMEOUT \<longrightarrow> timed env 0 b (s\<lparr>clocks := clocks s + 1\<rparr>)
        \<and> nanos (clock_at env (clocks s)) \<le> nanos b + 3001000000)"
    "timed env (slack + 3600000000000) b (s\<lparr>clocks := clocks s + 1\<rparr>)"
proof -
  obtain m where m: "m < clocks s" "b = clock_at env m"
    and l: "nanos (clock_at env (clocks s - 1)) \<le> nanos b + 3001000000 + slack"
    using assms(2) by (auto simp: timed_def)
  let ?e = "clock_at env (clocks s)"
  have "nanos b \<le> nanos ?e" using clock_mono [OF assms(1), of m "clocks s"] m by simp
  moreover have u: "nanos ?e \<le> nanos (clock_at env (clocks s - 1)) + 3600000000000"
    using clock_okD(5) [OF assms(1), of "clocks s - 1"] m(1) by simp
  ultimately have "\<bar>nanos ?e - nanos b\<bar> \<le> 10000000000000" using l assms(4) by linarith
  then obtain ms where ms: "delta_miliseconds b ?e = Some ms" "ms \<le> FDL_CP_UART_TIMEOUT \<Longrightarrow> nanos ?e - nanos b \<le> 3001000000"
    using delta_close [of b ?e] clock_okD(2,3) [OF assms(1)] m(2) by blast
  have "timed env 0 b (s\<lparr>clocks := clocks s + 1\<rparr>) \<and> nanos ?e \<le> nanos b + 3001000000" if "ms \<le> FDL_CP_UART_TIMEOUT"
    using ms(2) [OF that] m by (auto simp: timed_def intro!: exI [of _ m])
  then show "\<exists>ms. delta_miliseconds b ?e = Some ms
    \<and> (ms \<le> FDL_CP_UART_TIMEOUT \<longrightarrow> timed env 0 b (s\<lparr>clocks := clocks s + 1\<rparr>) \<and> nanos ?e \<le> nanos b + 3001000000)"
    using ms(1) by blast
  show "timed env (slack + 3600000000000) b (s\<lparr>clocks := clocks s + 1\<rparr>)"
    using m u l by (auto simp: timed_def intro!: exI [of _ m])
qed

lemma version_loop_returns:
  assumes "clock_ok env" "nanos b + 3001000000 < nanos (clock_at env N)"
    and "timed env 0 b s" "delta_miliseconds b e \<noteq> None" "n < 64"
  shows "\<exists>r s'. version_loop env b e n s = Some (r, s') \<and> r \<in> {Version, No_version}
    \<and> timed env 3600000000000 b s' \<and> clocks s \<le> clocks s' \<and> sys_writes s' = sys_writes s"
  using assms(3-)
proof (induction "64 - n + (N - clocks s)" arbitrary: n e s rule: less_induct)
  case less
  let ?s = "s\<lparr>line_reads := line_reads s + 1\<rparr>"
  have t: "timed env 0 b ?s" using less.prems(1) by (rule timed_keep) simp
  show ?case
  proof (cases "line_read env (line_reads s)")
    case (Some c)
    obtain ms where ms: "delta_miliseconds b e = Some ms" using less.prems(2) by auto
    show ?thesis
    proof (cases "c = 0x7E \<or> 64 \<le> n + 1 \<or> \<not> ms < FDL_CP_UART_TIMEOUT")
      case True
      then have "version_loop env b e n s = Some (if c = 0x7E then Version else No_version, ?s)"
        using Some ms by (subst version_loop.simps) (auto simp: Let_def)
      then show ?thesis using timed_weaken [OF t] by auto
    next
      case False
      then have "version_loop env b e n s = version_loop env b e (n + 1) ?s"
        using Some ms by (subst version_loop.simps) (auto simp: Let_def)
      moreover have "64 - (n + 1) + (N - clocks ?s) < 64 - n + (N - clocks s)" using less.prems(3) by simp
      ultimately show ?thesis using less.hyps [of "n + 1" ?s e] t less.prems(2) False by simp
    qed
  next
    case None
    let ?c = "?s\<lparr>clocks := clocks s + 1\<rparr>" and ?e = "clock_at env (clocks s)"
    obtain ms where ms: "delta_miliseconds b ?e = Some ms"
      "ms \<le> FDL_CP_UART_TIMEOUT \<Longrightarrow> timed env 0 b ?c \<and> nanos ?e \<le> nanos b + 3001000000"
      using timed_read(1) [OF assms(1) t] by auto
    have ce: "clock env (clocks s) = Some ?e" using clock_okD(1) [OF assms(1)] .
    show ?thesis
    proof (cases "ms < FDL_CP_UART_TIMEOUT")
      case True
      then have c: "timed env 0 b ?c" "nanos ?e < nanos (clock_at env N)" using ms(2) assms(2) by auto
      then have "clocks s < N" using clock_mono [OF assms(1), of N "clocks s"] by (meson leD not_le)
      then have "64 - n + (N - clocks ?c) < 64 - n + (N - clocks s)" by simp
      then obtain r s' where "version_loop env b ?e n ?c = Some (r, s') \<and> r \<in> {Version, No_version}
          \<and> timed env 3600000000000 b s' \<and> clocks ?c \<le> clocks s' \<and> sys_writes s' = sys_writes ?c"
        using less.hyps [of n ?c ?e] c(1) ms(1) less.prems(3) by blast
      moreover have "version_loop env b e n s = version_loop env b ?e n ?c"
        using None ce ms(1) True by (subst version_loop.simps) (simp add: Let_def)
      ultimately show ?thesis by auto
    next
      case False
      then have "version_loop env b e n s = Some (No_version, ?c)"
        using None ce ms(1) by (subst version_loop.simps) (simp add: Let_def)
      moreover have "timed env 3600000000000 b ?c" using timed_read(2) [OF assms(1) t] by simp
      ultimately show ?thesis by auto
    qed
  qed
qed

lemma hand_shake_returns:
  assumes "clock_ok env" "nanos b + 3001000000 < nanos (clock_at env N)" "timed env 0 b s" "delta_miliseconds b e \<noteq> None"
  shows "\<exists>step s'. hand_shake env fd lc b e s = Some (step, s') \<and> (\<exists>fd'. step = Done fd \<or> step = Again fd' lc b)
    \<and> timed env 3600000000000 b s' \<and> clocks s \<le> clocks s' \<and> sys_writes s' = sys_writes s"
proof -
  let ?w = "s\<lparr>line_writes := line_writes s + 1\<rparr>"
  let ?r = "s\<lparr>line_writes := line_writes s + 2, line_reads := line_reads s + 1\<rparr>"
  have t: "timed env 0 b ?r" using assms(3) by (rule timed_keep) simp
  obtain v s' where v: "version_loop env b e 1 ?r = Some (v, s')" "v = Version \<or> v = No_version"
    "timed env 3600000000000 b s'" "clocks s \<le> clocks s'" "sys_writes s' = sys_writes s"
    using version_loop_returns [OF assms(1,2) t assms(4), of 1] by auto
  consider "line_write env (line_writes s) < 0"
    | "0 \<le> line_write env (line_writes s)" "line_read env (line_reads s) = Some 0x7E"
    | "0 \<le> line_write env (line_writes s)" "line_read env (line_reads s) \<noteq> Some 0x7E"
    by fastforce
  then show ?thesis
  proof cases
    case 1
    then have "hand_shake env fd lc b e s = Some (Again (line_open env (line_opens s)) lc b, ?w\<lparr>line_opens := line_opens s + 1\<rparr>)"
      by (simp add: hand_shake_def Let_def)
    moreover have "timed env 3600000000000 b (?w\<lparr>line_opens := line_opens s + 1\<rparr>)"
      using timed_weaken [OF assms(3)] by (rule timed_keep) simp
    ultimately show ?thesis by auto
  next
    case 2
    then have "hand_shake env fd lc b e s = Some (if v = Version then Done fd else Again fd lc b, s')"
      using v(1,2) by (auto simp: hand_shake_def Let_def)
    then show ?thesis using v(3-) by auto
  next
    case 3
    then have "hand_shake env fd lc b e s = Some (Again fd lc b, ?r)" by (simp add: hand_shake_def Let_def)
    then show ?thesis using timed_weaken [OF t] by auto
  qed
qed

definition soft_resets :: "'a power_state_scheme \<Rightarrow> nat" where
  "soft_resets s = length (filter (\<lambda>w. w = (MODEM_RESET_PATH, ''1'')) (sys_writes s))"

lemma reset_modem_keeps [simp]: "clocks (reset_modem type s) = clocks s"
  by (auto simp: reset_modem_def sys_write_def split: reset_type.split)

lemma soft_resets_reset: "soft_resets (reset_modem MODEM_SOFT_RESET s) \<le> soft_resets s + 1"
  by (simp add: reset_modem_def sys_write_def soft_resets_def)

lemma timed_now:
  "clock_ok env \<Longrightarrow> timed env 0 (clock_at env (clocks s)) (s\<lparr>clocks := clocks s + 1\<rparr>)"
  by (auto simp: timed_def)

text \<open>One round: it ends the hand shake, or goes on before the deadline of its start, or starts anew
  after a soft reset.\<close>

lemma connect_round_returns:
  assumes "clock_ok env" "nanos b + 3001000000 < nanos (clock_at env N)" "timed env 3600000000000 b s" "lc < 5"
  obtains r s' where "connect_round env fd lc b s = Some (Done r, s')" "soft_resets s' + lc \<le> soft_resets s + 4"
  | fd' s' where "connect_round env fd lc b s = Some (Again fd' lc b, s')" "timed env 3600000000000 b s'"
      "clocks s < N" "clocks s < clocks s'" "soft_resets s' = soft_resets s"
  | fd' b' s' where "connect_round env fd lc b s = Some (Again fd' (lc + 1) b', s')" "timed env 3600000000000 b' s'"
      "lc + 1 < 5" "soft_resets s' \<le> soft_resets s + 1"
proof -
  let ?e = "clock_at env (clocks s)" and ?s = "s\<lparr>clocks := clocks s + 1\<rparr>"
  have ce: "clock env n = Some (clock_at env n)" for n using clock_okD(1) [OF assms(1)] .
  obtain ms where ms: "delta_miliseconds b ?e = Some ms"
    "ms \<le> FDL_CP_UART_TIMEOUT \<Longrightarrow> timed env 0 b ?s \<and> nanos ?e \<le> nanos b + 3001000000"
    using timed_read(1) [OF assms(1,3)] by auto
  consider "ms \<le> FDL_CP_UART_TIMEOUT" | "FDL_CP_UART_TIMEOUT < ms" "lc + 1 = 5" | "FDL_CP_UART_TIMEOUT < ms" "lc + 1 < 5"
    using assms(4) by linarith
  then show thesis
  proof cases
    case 1
    obtain step s' where h: "hand_shake env fd lc b ?e ?s = Some (step, s')" "\<exists>fd'. step = Done fd \<or> step = Again fd' lc b"
      "timed env 3600000000000 b s'" "clocks ?s \<le> clocks s'" "sys_writes s' = sys_writes ?s"
      using hand_shake_returns [OF assms(1,2), of ?s ?e fd lc] ms 1 by auto
    have "clocks s < N" using clock_mono [OF assms(1), of N "clocks s"] ms(2) [OF 1] assms(2) by (meson leD le_less_trans not_le)
    moreover have "connect_round env fd lc b s = Some (step, s')"
      using 1 h(1) by (simp add: connect_round_def ce ms(1) Let_def)
    ultimately show thesis
      using h(2-) assms(4) that(1,2) by (auto simp: soft_resets_def)
  next
    case 2
    then have "connect_round env fd lc b s = Some (Done (-1), ?s)"
      by (simp add: connect_round_def ce ms(1) Let_def)
    then show thesis using that(1) 2(2) by (auto simp: soft_resets_def)
  next
    case 3
    let ?r = "reset_modem MODEM_SOFT_RESET ?s"
    let ?b = "clock_at env (clocks ?r)" and ?t = "?r\<lparr>clocks := clocks ?r + 1\<rparr>"
    obtain N' where N': "nanos ?b + 3001000000 < nanos (clock_at env N')"
      using assms(1) unfolding clock_ok_def by blast
    have "\<bar>nanos ?e - nanos ?b\<bar> \<le> 10000000000000"
      using clock_okD(4,5) [OF assms(1), of "clocks s"] by (simp add: abs_if)
    then have "delta_miliseconds ?b ?e \<noteq> None"
      using delta_close [of ?b ?e] clock_okD(2,3) [OF assms(1)] by blast
    then obtain step s' where h: "hand_shake env fd (lc + 1) ?b ?e ?t = Some (step, s')"
      "\<exists>fd'. step = Done fd \<or> step = Again fd' (lc + 1) ?b" "timed env 3600000000000 ?b s'" "sys_writes s' = sys_writes ?t"
      using hand_shake_returns [OF assms(1) N' timed_now [OF assms(1)], of ?e fd "lc + 1"] by auto
    have "connect_round env fd lc b s = Some (step, s')"
      using 3 h(1) by (simp add: connect_round_def ce ms(1) Let_def)
    moreover have "soft_resets s' \<le> soft_resets s + 1"
      using h(4) soft_resets_reset [of ?s] by (simp add: soft_resets_def)
    ultimately show thesis using h(2,3) that(1,3) 3(2) by (elim exE disjE) simp_all
  qed
qed

lemma connect_loop_returns:
  assumes "clock_ok env" "lc < 5" "timed env 3600000000000 b s"
  shows "\<exists>r s'. connect_loop env fd lc b s = Some (Some r, s') \<and> soft_resets s' + lc \<le> soft_resets s + 4"
  using assms(2,3)
proof (induction "5 - lc" arbitrary: lc b s fd rule: less_induct)
  case outer: less
  obtain N where N: "nanos b + 3001000000 < nanos (clock_at env N)"
    using assms(1) unfolding clock_ok_def by blast
  show ?case
    using outer.prems(2)
  proof (induction "N - clocks s" arbitrary: s fd rule: less_induct)
    case inner: less
    from connect_round_returns [OF assms(1) N inner.prems outer.prems(1), of fd] show ?case
    proof cases
      case (1 r s')
      then show ?thesis by (subst connect_loop.simps) simp
    next
      case (2 fd' s')
      then have "N - clocks s' < N - clocks s" by simp
      then show ?thesis using inner.hyps [of s' fd'] 2 by (subst connect_loop.simps) simp
    next
      case (3 fd' b' s')
      then have "5 - (lc + 1) < 5 - lc" by simp
      then obtain r s'' where "connect_loop env fd' (lc + 1) b' s' = Some (Some r, s'')" "soft_resets s'' + (lc + 1) \<le> soft_resets s' + 4"
        using outer.hyps [of "lc + 1" b' s' fd'] 3(2,3) by auto
      then show ?thesis using 3(1,4) by (subst connect_loop.simps) simp
    qed
  qed
qed

text \<open>C7. The hand shake with the boot ROM ends.  Whatever the serial line answers, and even if it
  answers nothing for ever or has to be reopened every time, \<open>try_to_connect_modem\<close> returns on a clock
  that advances, without signed overflow in its time differences and after at most four soft resets.\<close>

theorem try_to_connect_modem_terminates:
  assumes "clock_ok env"
  shows "\<exists>r s'. try_to_connect_modem env uart_fd s = Some (Some r, s') \<and> soft_resets s' \<le> soft_resets s + 4"
proof -
  let ?p = "poweron_modem s"
  have t: "timed env 3600000000000 (clock_at env (clocks ?p)) (?p\<lparr>clocks := clocks ?p + 1\<rparr>)"
    by (rule timed_weaken [OF timed_now [OF assms]])
  obtain r s' where "connect_loop env uart_fd 0 (clock_at env (clocks ?p)) (?p\<lparr>clocks := clocks ?p + 1\<rparr>) = Some (Some r, s')"
    "soft_resets s' + 0 \<le> soft_resets (?p\<lparr>clocks := clocks ?p + 1\<rparr>) + 4"
    using connect_loop_returns [OF assms _ t, of 0 uart_fd] by auto
  moreover have "soft_resets (?p\<lparr>clocks := clocks ?p + 1\<rparr>) = soft_resets s"
    by (auto simp: soft_resets_def poweron_modem_def sys_write_def MODEM_POWER_PATH_def MODEM_RESET_PATH_def)
  ultimately show ?thesis
    using clock_okD(1) [OF assms, of "clocks ?p"] by (simp add: try_to_connect_modem_def Let_def)
qed

definition demo_line :: uart_env where
  "demo_line = \<lparr>clock = (\<lambda>n. Some (int n, 0)), line_write = (\<lambda>n. if even n then -1 else 3), line_read = (\<lambda>n. None), line_open = (\<lambda>n. 7)\<rparr>"

definition demo_powered :: connect_state where
  "demo_powered = \<lparr>modem_power_status = False, writable = (\<lambda>_. True), sys_writes = [], clocks = 0, line_writes = 0, line_reads = 0, line_opens = 0\<rparr>"

lemma clock_ok_demo: "clock_ok demo_line"
proof -
  have "\<exists>n. t < nanos (clock_at demo_line n)" for t
    by (rule exI [of _ "nat (\<bar>t\<bar> + 1)"]) (simp add: demo_line_def clock_at_def nanos_def)
  then show ?thesis by (simp add: clock_ok_def) (simp add: demo_line_def clock_at_def nanos_def)
qed

theorem try_to_connect_modem_terminates_witness:
  "\<exists>r s'. try_to_connect_modem demo_line 3 demo_powered = Some (Some r, s') \<and> soft_resets s' \<le> soft_resets demo_powered + 4"
  by (rule try_to_connect_modem_terminates [OF clock_ok_demo])

end
