(* ===== verification/ModemBoot.thy ===== *)
theory ModemBoot
  imports ModemTable ModemConnect
begin

text \<open>
  \<open>modem_boot\<close> of \<^verbatim>\<open>src/apps/modem_control/modem_boot.c\<close>, which puts the parts together: reset, hand
  shake with the boot ROM, download and start of the loader over the serial line, hand shake with the
  loader, change to SPI, download of the images.  Each pass from the label \<open>reboot_modem\<close> gets its own
  answers of the devices (\<open>boot_pass\<close>); the line during the hand shakes is the stream of \<open>ModemConnect\<close>.
  With no answers left the call has not returned (\<open>Waiting\<close>).
\<close>

section \<open>One pass\<close>

definition MODEM_STATE_PATH :: string where
  "MODEM_STATE_PATH = ''/sys/devices/platform/modem_interface/state''"

definition CP_AVDD18_EN_PATH :: string where "CP_AVDD18_EN_PATH = ''/sys/cp_ldo/cp_ldo''"

definition set_modem_state :: "string \<Rightarrow> 'a power_state_scheme \<Rightarrow> 'a power_state_scheme" where
  "set_modem_state buf s = (if writable s MODEM_STATE_PATH then sys_write MODEM_STATE_PATH buf s else s)"

definition set_avdd18_en :: "string \<Rightarrow> 'a power_state_scheme \<Rightarrow> 'a power_state_scheme" where
  "set_avdd18_en buf s = (if writable s CP_AVDD18_EN_PATH then sys_write CP_AVDD18_EN_PATH buf s else s)"

record boot_pass =
  first_open :: int
  serial_writes :: "int list"
  serial_reads :: "byte list list"
  spare_bytes :: "byte list"
  second_open :: int
  switch_writes :: "int list"
  switch_reads :: "byte list list"
  dloader_opens :: "int list"
  spi_writes :: "int list"
  spi_reads :: "byte list list"

record modem_system =
  radio :: connect_state
  channel :: boot_state

definition open_channel :: "int list \<Rightarrow> byte list list \<Rightarrow> boot_state \<Rightarrow> boot_state" where
  "open_channel ws rs s = s\<lparr>wire := [], writes := ws, reads := rs\<rparr>"

fun open_dloader :: "int list \<Rightarrow> int outcome" where
  "open_dloader [] = Waiting"
| "open_dloader (fd # fds) = (if fd < 0 then open_dloader fds else Returned fd)"

datatype pass_result = Reboot bool | Boot_returns int

text \<open>From the change to SPI to the end.\<close>

definition boot_images :: "boot_pass \<Rightarrow> modem_system \<Rightarrow> (pass_result \<times> modem_system) outcome" where
  "boot_images p m =
     and_then (uart_send_change_spi_mode_message (32 * 1024)
       (open_channel (switch_writes p) (switch_reads p) (channel m))) (\<lambda>(_, ch).
     let rad = set_avdd18_en ''1'' (radio m) in
     and_then (open_dloader (dloader_opens p)) (\<lambda>modem_interface_fd.
     and_then (download_images (open_channel (spi_writes p) (spi_reads p) ch)) (\<lambda>(ret, ch).
     Returned (if ret = DL_FAILURE
       then (Reboot True, m\<lparr>radio := reset_modem MODEM_SOFT_RESET rad, channel := ch\<rparr>)
       else (Boot_returns 0, m\<lparr>radio := rad, channel := ch\<rparr>)))))"

text \<open>From the hand shake with the boot ROM, which gave the descriptor of the line.\<close>

definition boot_loader :: "uart_env \<Rightarrow> boot_pass \<Rightarrow> modem_system \<Rightarrow> (pass_result \<times> modem_system) outcome" where
  "boot_loader env p m =
     and_then (send_connect_message 0 (open_channel (serial_writes p) (serial_reads p) (channel m))) (\<lambda>(_, ch).
     and_then (download_fdl (spare_bytes p) ch) (\<lambda>(ret, ch).
     let m = m\<lparr>channel := ch\<rparr> in
     if ret = DL_FAILURE then Returned (Reboot True, m)
     else let (rev, rad) = try_to_connect_fdl env (radio m); m = m\<lparr>radio := rad\<rparr>
       in if \<not> rev then Returned (Reboot False, m)
          else if second_open p < 0 then Returned (Boot_returns (-1), m)
          else boot_images p (m\<lparr>radio := set_modem_state ''0'' rad\<rparr>)))"

definition boot_once :: "uart_env \<Rightarrow> boot_pass \<Rightarrow> bool \<Rightarrow> modem_system \<Rightarrow> (pass_result \<times> modem_system) outcome" where
  "boot_once env p hard_reset m =
     (let m = m\<lparr>radio := reset_modem (if hard_reset then MODEM_HARD_RESET else MODEM_SOFT_RESET) (radio m)\<rparr> in
      if first_open p < 0 then Returned (Boot_returns (-1), m)
      else case try_to_connect_modem env (first_open p) (radio m) of
          None \<Rightarrow> Waiting
        | Some (None, _) \<Rightarrow> Undefined
        | Some (Some ret, rad) \<Rightarrow>
            if ret < 0 then Returned (Reboot True, m\<lparr>radio := rad\<rparr>)
            else boot_loader env p (m\<lparr>radio := rad\<rparr>))"

section \<open>The loop\<close>

fun boot_passes :: "uart_env \<Rightarrow> boot_pass list \<Rightarrow> bool \<Rightarrow> modem_system \<Rightarrow> (int \<times> modem_system) outcome" where
  "boot_passes env [] hard_reset m = Waiting"
| "boot_passes env (p # ps) hard_reset m =
     and_then (boot_once env p hard_reset m) (\<lambda>(r, m).
       case r of Reboot hard_reset \<Rightarrow> boot_passes env ps hard_reset m | Boot_returns ret \<Rightarrow> Returned (ret, m))"

definition modem_boot :: "uart_env \<Rightarrow> boot_pass list \<Rightarrow> modem_system \<Rightarrow> (int \<times> modem_system) outcome" where
  "modem_boot env ps m = boot_passes env ps False m"

section \<open>What a finished boot means\<close>

lemma send_end_result: "send_end_message flag s = Returned (ret, s') \<Longrightarrow> ret = 0 \<or> ret = -1"
  by (auto simp: send_end_message_def and_then_Returned_iff split: if_splits)

lemma image_blocks_result: "image_blocks info t count i n img s = Returned (ret, s') \<Longrightarrow> ret = 0 \<or> ret = -1"
proof (induction info t count i n img s rule: image_blocks.induct)
  case (1 info t count i n img s)
  show ?case
  proof (cases "i < count")
    case True
    then obtain s1 i1 n1 s2 r b im s3 where e: "read_block info t img s = Some s1" "pad_block t n i s1 = Some (i1, n1, s2)"
      "send_data_message (test_buffer s2) t 1 t (drop t img) s2 = Returned (r, b, im, s3)"
      "(if r \<noteq> DL_SUCCESS then Returned (DL_FAILURE, s3\<lparr>test_buffer := b\<rparr>)
        else image_blocks info t count (i1 + 1) n1 im (s3\<lparr>test_buffer := b\<rparr>)) = Returned (ret, s')"
      using "1.prems" by (subst (asm) image_blocks.simps) (auto simp: and_then_Returned_iff Let_def)
    then show ?thesis using "1.IH" [OF True, of s1 "(i1, n1, s2)" i1 "(n1, s2)" n1 s2 "(r, b, im, s3)" r "(b, im, s3)" b "(im, s3)" im s3]
      by (auto simp: size_defs split: if_splits)
  next
    case False
    then show ?thesis using "1.prems" by (subst (asm) image_blocks.simps) (auto dest: send_end_result)
  qed
qed

lemma download_image_result: "download_image info s = Returned (ret, s') \<Longrightarrow> ret = 0 \<or> ret = -1"
  by (auto simp: download_image_def and_then_Returned_iff Let_def size_defs dest!: image_blocks_result
      split: option.splits if_splits)

text \<open>What the messages leave as it is: the image table, the files and the properties.\<close>

definition config :: "'a boot_state_scheme \<Rightarrow>
    image_info list \<times> nat \<times> (string \<rightharpoonup> byte list) \<times> (string \<Rightarrow> string)" where
  "config s = (download_image_info s, modem_images_count s, image_files s, properties s)"

lemma config_updates [simp]:
  "config (s\<lparr>wire := w\<rparr>) = config s" "config (s\<lparr>writes := ws\<rparr>) = config s" "config (s\<lparr>reads := rs\<rparr>) = config s"
  "config (s\<lparr>send_buffer := b\<rparr>) = config s" "config (s\<lparr>max_transfer_size := n\<rparr>) = config s"
  "config (s\<lparr>test_buffer := tb\<rparr>) = config s" "config (s\<lparr>capabilities_flag := f\<rparr>) = config s"
  by (simp_all add: config_def)

lemma config_open_channel [simp]: "config (open_channel ws rs ch) = config ch"
  by (simp add: open_channel_def)

lemma config_capabilities [simp]: "config (snd (get_modem_capabilities s)) = config s"
  by (simp add: get_modem_capabilities_def Let_def)

lemma uart_write_config: "uart_write raw n s = Returned (r, s') \<Longrightarrow> config s' = config s"
  by (auto simp: uart_write_def and_then_Returned_iff)

lemma fd_write_config: "fd_write buf n s = Returned (r, s') \<Longrightarrow> config s' = config s"
  by (cases "writes s") (auto simp: fd_write_def and_then_Returned_iff Let_def)

lemma write_packet_config: "write_packet flag buf n s = Returned (r, s') \<Longrightarrow> config s' = config s"
  by (auto simp: write_packet_def dest: uart_write_config fd_write_config split: if_splits)

lemma read_reply_config: "read_reply flag r raw s = Returned (h, s') \<Longrightarrow> config s' = config s"
  by (auto simp: read_reply_def and_then_Returned_iff Let_def split: if_splits)

lemma more_blocks_config: "more_blocks k n buf img r s = Returned (r', buf', img', s') \<Longrightarrow> config s' = config s"
  by (induction k arbitrary: buf img r s) (fastforce simp: and_then_Returned_iff dest: fd_write_config)+

lemma send_connect_config: "send_connect_message flag s = Returned (r, s') \<Longrightarrow> config s' = config s"
  by (auto simp: send_connect_message_def and_then_Returned_iff dest!: write_packet_config read_reply_config)

lemma send_start_config: "send_start_message sz addr flag s = Returned (r, s') \<Longrightarrow> config s' = config s"
  by (auto simp: send_start_message_def and_then_Returned_iff dest!: write_packet_config read_reply_config)

lemma send_end_config: "send_end_message flag s = Returned (r, s') \<Longrightarrow> config s' = config s"
  by (auto simp: send_end_message_def and_then_Returned_iff dest!: write_packet_config read_reply_config)

lemma send_exec_config: "send_exec_message addr flag s = Returned (r, s') \<Longrightarrow> config s' = config s"
  by (auto simp: send_exec_message_def and_then_Returned_iff dest!: write_packet_config read_reply_config)

lemma change_spi_mode_config: "uart_send_change_spi_mode_message n s = Returned (r, s') \<Longrightarrow> config s' = config s"
  by (auto simp: uart_send_change_spi_mode_message_def and_then_Returned_iff Let_def dest!: uart_write_config read_reply_config)

lemma send_data_config:
  "send_data_message buf n flag sz img s = Returned (ret, buf', img', s') \<Longrightarrow> config s' = config s"
  unfolding send_data_message_def
  by (auto simp: and_then_Returned_iff split: if_splits
      dest!: read_reply_config uart_write_config fd_write_config more_blocks_config)

lemma image_blocks_config: "image_blocks info t count i n img s = Returned (ret, s') \<Longrightarrow> config s' = config s"
proof (induction info t count i n img s rule: image_blocks.induct)
  case (1 info t count i n img s)
  show ?case
  proof (cases "i < count")
    case True
    then obtain s1 i1 n1 s2 r b im s3 where e: "read_block info t img s = Some s1" "pad_block t n i s1 = Some (i1, n1, s2)"
      "send_data_message (test_buffer s2) t 1 t (drop t img) s2 = Returned (r, b, im, s3)"
      "(if r \<noteq> DL_SUCCESS then Returned (DL_FAILURE, s3\<lparr>test_buffer := b\<rparr>)
        else image_blocks info t count (i1 + 1) n1 im (s3\<lparr>test_buffer := b\<rparr>)) = Returned (ret, s')"
      using "1.prems" by (subst (asm) image_blocks.simps) (auto simp: and_then_Returned_iff Let_def)
    have "config s1 = config s" using e(1) by (auto simp: read_block_def bind_eq_Some_conv Let_def)
    moreover have "config s2 = config s1" using e(2) by (auto simp: pad_block_def bind_eq_Some_conv split: if_splits)
    ultimately have c: "config s3 = config s" using send_data_config [OF e(3)] by simp
    show ?thesis
      using "1.IH" [OF True, of s1 "(i1, n1, s2)" i1 "(n1, s2)" n1 s2 "(r, b, im, s3)" r "(b, im, s3)" b "(im, s3)" im s3] e c
      by (auto split: if_splits)
  next
    case False
    then show ?thesis using "1.prems" by (subst (asm) image_blocks.simps) (auto dest: send_end_config)
  qed
qed

lemma download_image_config: "download_image info s = Returned (ret, s') \<Longrightarrow> config s' = config s"
  by (auto simp: download_image_def and_then_Returned_iff Let_def dest!: image_blocks_config send_start_config
      split: option.splits if_splits)

lemma download_entries_config: "download_entries cap ret infos s = Returned (r, s') \<Longrightarrow> config s' = config s"
proof (induction infos arbitrary: ret s)
  case (Cons info infos)
  then show ?case by (auto simp: and_then_Returned_iff split: if_splits dest!: download_image_config Cons.IH)
qed simp

lemma download_images_config: "download_images s = Returned (ret, s') \<Longrightarrow> config s' = config s"
  by (auto simp: download_images_def and_then_Returned_iff Let_def case_prod_beta'
      dest!: download_entries_config send_exec_config)

lemma fdl_blocks_config: "fdl_blocks buffer sz s = Returned (ret, s') \<Longrightarrow> config s' = config s"
proof (induction buffer sz s rule: fdl_blocks.induct)
  case (1 buffer sz s)
  show ?case
  proof (cases "sz = 0")
    case False
    then obtain r b im t where e: "send_data_message buffer FDL_PACKET_SIZE 0 0 [] s = Returned (r, b, im, t)"
      "(if r = DL_FAILURE then Returned (r, t) else fdl_blocks (drop FDL_PACKET_SIZE buffer) (sz - int FDL_PACKET_SIZE) t) = Returned (ret, s')"
      using "1.prems" by (subst (asm) fdl_blocks.simps) (auto simp: and_then_Returned_iff)
    then show ?thesis
      using "1.IH" [OF False, of "(r, b, im, t)" r "(b, im, t)" b "(im, t)" im t] send_data_config [OF e(1)]
      by (auto split: if_splits)
  qed (use "1.prems" in \<open>subst (asm) fdl_blocks.simps, simp\<close>)
qed

lemma then_config:
  assumes "and_then m (\<lambda>(r, t). if r = DL_FAILURE then Returned (r, t) else f t) = Returned (ret, s')"
    and "\<And>r t. m = Returned (r, t) \<Longrightarrow> config t = c" "\<And>t. config t = c \<Longrightarrow> f t = Returned (ret, s') \<Longrightarrow> config s' = c"
  shows "config s' = c"
  using assms by (auto simp: and_then_Returned_iff split: if_splits)

lemma download_fdl_config:
  assumes "download_fdl spare s = Returned (ret, s')"
  shows "config s' = config s"
proof -
  define s0 where "s0 = s"
  obtain loaded where l: "(case loaded of None \<Rightarrow> Returned (DL_FAILURE, s) | Some (buffer, sz) \<Rightarrow>
         let addr = address (download_image_info s0 ! 0) in
         and_then (send_start_message (word_of_int sz) addr 0 s) (\<lambda>(ret, s).
         if ret = DL_FAILURE then Returned (ret, s)
         else and_then (fdl_blocks buffer sz s) (\<lambda>(ret, s).
         if ret = DL_FAILURE then Returned (ret, s)
         else and_then (send_end_message 0 s) (\<lambda>(ret, s).
         if ret = DL_FAILURE then Returned (ret, s)
         else send_exec_message addr 0 s)))) = Returned (ret, s')"
    using assms unfolding download_fdl_def s0_def by (auto simp: and_then_Returned_iff)
  show ?thesis
  proof (cases loaded)
    case None
    then show ?thesis using l by simp
  next
    case (Some bs)
    obtain buffer sz where "bs = (buffer, sz)" by (cases bs)
    note l' = l [unfolded Some this option.case prod.case Let_def]
    show ?thesis
    proof (rule then_config [OF l' send_start_config])
      fix t1 assume c1: "config t1 = config s"
        and m1: "and_then (fdl_blocks buffer sz t1) (\<lambda>(ret, s). if ret = DL_FAILURE then Returned (ret, s)
          else and_then (send_end_message 0 s) (\<lambda>(ret, s). if ret = DL_FAILURE then Returned (ret, s)
            else send_exec_message (address (download_image_info s0 ! 0)) 0 s)) = Returned (ret, s')"
      show "config s' = config s"
        by (rule then_config [OF m1]) (auto simp: c1 elim!: then_config dest: fdl_blocks_config send_end_config send_exec_config)
    qed
  qed
qed

text \<open>The images a finished download has sent, one after the other, each acknowledged to its end.\<close>

fun all_sent :: "image_info list \<Rightarrow> 'a boot_state_scheme \<Rightarrow> 'a boot_state_scheme \<Rightarrow> bool" where
  "all_sent [] s s' = (s' = s)"
| "all_sent (info # infos) s s' = (\<exists>t. download_image info s = Returned (DL_SUCCESS, t) \<and> all_sent infos t s')"

lemma download_entries_all_sent:
  assumes "download_entries cap ret infos s = Returned (Some r, s')" "r \<noteq> DL_FAILURE"
  shows "all_sent (filter (\<lambda>info. mask info AND cap \<noteq> 0) infos) s s'"
  using assms
proof (induction infos arbitrary: ret s)
  case (Cons info infos)
  show ?case
  proof (cases "mask info AND cap = 0")
    case True
    then show ?thesis using Cons by simp
  next
    case False
    then obtain r1 s1 where d: "download_image info s = Returned (r1, s1)"
      "(if r1 \<noteq> DL_SUCCESS then Returned (Some r1, s1) else download_entries cap (Some r1) infos s1) = Returned (Some r, s')"
      using Cons.prems(1) by (auto simp: and_then_Returned_iff)
    then have "r1 = DL_SUCCESS"
      using download_image_result [OF d(1)] Cons.prems(2) by (auto simp: size_defs split: if_splits)
    then show ?thesis using d Cons.IH [of "Some r1" s1] Cons.prems(2) False by auto
  qed
qed simp

text \<open>The images that the mode selects, and a pass that has sent them all and started the modem.\<close>

definition selected :: "boot_state \<Rightarrow> image_info list" where
  "selected ch = filter (\<lambda>info. mask info AND fst (get_modem_capabilities ch) \<noteq> 0)
     (take (modem_images_count ch - 1) (drop 1 (download_image_info ch)))"

definition images_complete :: "boot_pass \<Rightarrow> boot_state \<Rightarrow> boot_state \<Rightarrow> bool" where
  "images_complete p ch0 ch' = (\<exists>ch t addr ret. config ch = config ch0
     \<and> wire ch = [] \<and> writes ch = spi_writes p \<and> reads ch = spi_reads p
     \<and> all_sent (selected ch0) ch t \<and> send_exec_message addr 1 t = Returned (ret, ch'))"

lemma selected_config: "config ch = config ch' \<Longrightarrow> selected ch = selected ch'"
  by (simp add: config_def selected_def get_modem_capabilities_def)

lemma images_complete_config:
  assumes "config ch = config ch0"
  shows "images_complete p ch ch' \<longleftrightarrow> images_complete p ch0 ch'"
  by (simp only: images_complete_def assms selected_config [OF assms])

lemma download_images_complete:
  assumes "download_images (open_channel (spi_writes p) (spi_reads p) ch0) = Returned (ret, ch')" "ret \<noteq> DL_FAILURE"
  shows "images_complete p ch0 ch'"
proof -
  define ch where "ch = open_channel (spi_writes p) (spi_reads p) ch0"
  let ?cap = "fst (get_modem_capabilities ch)" and ?s = "snd (get_modem_capabilities ch)"
  let ?infos = "take (modem_images_count ch - 1) (drop 1 (download_image_info ch))"
  have i: "download_image_info ?s = download_image_info ch" by (simp add: get_modem_capabilities_def Let_def)
  have "mem_read (download_image_info ?s) 1 (modem_images_count ch - 1) = Some infos \<Longrightarrow> infos = ?infos" for infos
    by (simp add: mem_read_Some_iff i)
  then obtain r t addr x where e: "download_entries ?cap None ?infos ?s = Returned (r, t)" "r = Some ret"
    "send_exec_message addr 1 t = Returned (x, ch')"
    using assms(1) unfolding ch_def [symmetric]
    by (auto simp: download_images_def Let_def case_prod_beta' and_then_Returned_iff)
  have "config ch = config ch0" by (simp add: ch_def)
  then have "all_sent (selected ch0) ?s t"
    using download_entries_all_sent [of ?cap None ?infos ?s ret t] e assms(2) selected_config [of ch ch0] by (simp add: selected_def)
  then show ?thesis unfolding images_complete_def using e(3)
    by (intro exI [of _ ?s] exI [of _ t]) (auto simp: ch_def open_channel_def get_modem_capabilities_def Let_def)
qed

lemma boot_images_done:
  assumes "boot_images p m = Returned (Boot_returns r, m')"
  shows "r = 0 \<and> images_complete p (channel m) (channel m')"
proof -
  obtain x ch ret ch' where c: "uart_send_change_spi_mode_message (32 * 1024)
       (open_channel (switch_writes p) (switch_reads p) (channel m)) = Returned (x, ch)"
    and d: "download_images (open_channel (spi_writes p) (spi_reads p) ch) = Returned (ret, ch')"
    and "(if ret = DL_FAILURE then (Reboot True, m\<lparr>radio := reset_modem MODEM_SOFT_RESET (set_avdd18_en ''1'' (radio m)), channel := ch'\<rparr>)
       else (Boot_returns 0, m\<lparr>radio := set_avdd18_en ''1'' (radio m), channel := ch'\<rparr>)) = (Boot_returns r, m')"
    using assms by (auto simp: boot_images_def and_then_Returned_iff Let_def)
  then have "ret \<noteq> DL_FAILURE" "r = 0" "channel m' = ch'" by (auto split: if_splits)
  moreover have "config ch = config (channel m)" using change_spi_mode_config [OF c] by simp
  ultimately show ?thesis using download_images_complete [OF d] images_complete_config by blast
qed

lemma boot_images_config: "boot_images p m = Returned (x, m') \<Longrightarrow> config (channel m') = config (channel m)"
  by (auto simp: boot_images_def and_then_Returned_iff Let_def split: if_splits
      dest!: change_spi_mode_config download_images_config)

lemma boot_loader_config: "boot_loader env p m = Returned (x, m') \<Longrightarrow> config (channel m') = config (channel m)"
  by (auto simp: boot_loader_def and_then_Returned_iff Let_def case_prod_beta' split: if_splits
      dest!: send_connect_config download_fdl_config boot_images_config)

lemma boot_once_config: "boot_once env p hard_reset m = Returned (x, m') \<Longrightarrow> config (channel m') = config (channel m)"
  by (auto simp: boot_once_def Let_def split: if_splits option.splits dest!: boot_loader_config)

lemma boot_loader_done:
  assumes "boot_loader env p m = Returned (Boot_returns r, m')"
  shows "r = -1 \<and> second_open p < 0 \<or> r = 0 \<and> images_complete p (channel m) (channel m')"
proof -
  obtain x ch ret ch' where c: "send_connect_message 0 (open_channel (serial_writes p) (serial_reads p) (channel m)) = Returned (x, ch)"
    and d: "download_fdl (spare_bytes p) ch = Returned (ret, ch')"
    and r: "r = -1 \<and> second_open p < 0 \<or> (\<exists>rad. boot_images p (m\<lparr>channel := ch', radio := rad\<rparr>) = Returned (Boot_returns r, m'))"
    using assms by (auto simp: boot_loader_def and_then_Returned_iff Let_def case_prod_beta' split: if_splits)
  have cfg: "config ch' = config (channel m)" using send_connect_config [OF c] download_fdl_config [OF d] by simp
  have "r = 0 \<and> images_complete p (channel m) (channel m')"
    if "boot_images p (m\<lparr>channel := ch', radio := rad\<rparr>) = Returned (Boot_returns r, m')" for rad
    using boot_images_done [OF that] images_complete_config [OF cfg, of p "channel m'"] by simp
  then show ?thesis using r by blast
qed

lemma boot_once_done:
  assumes "boot_once env p hard_reset m = Returned (Boot_returns r, m')"
  shows "r = -1 \<and> (first_open p < 0 \<or> second_open p < 0) \<or> r = 0 \<and> images_complete p (channel m) (channel m')"
  using assms
  by (auto simp: boot_once_def Let_def split: if_splits option.splits dest!: boot_loader_done)

lemma boot_passes_done:
  assumes "boot_passes env ps hard_reset m = Returned (r, m')"
  shows "config (channel m') = config (channel m)
    \<and> (r = -1 \<and> (\<exists>p \<in> set ps. first_open p < 0 \<or> second_open p < 0)
      \<or> r = 0 \<and> (\<exists>p \<in> set ps. images_complete p (channel m) (channel m')))"
  using assms
proof (induction ps arbitrary: hard_reset m)
  case (Cons p ps)
  then obtain x m1 where x: "boot_once env p hard_reset m = Returned (x, m1)"
    "(case x of Reboot hard_reset \<Rightarrow> boot_passes env ps hard_reset m1 | Boot_returns ret \<Rightarrow> Returned (ret, m1)) = Returned (r, m')"
    by (auto simp: and_then_Returned_iff)
  note c = boot_once_config [OF x(1)]
  show ?case
  proof (cases x)
    case (Reboot h)
    then show ?thesis using x(2) Cons.IH [of h m1] images_complete_config [OF c] c by auto
  next
    case (Boot_returns ret)
    then show ?thesis using x boot_once_done [of env p hard_reset m ret m1] c by auto
  qed
qed simp

text \<open>C30. \<open>modem_boot\<close> reports success only for a complete boot, whatever failures and restarts came
  before.  It returns 0 only at the end of a pass in which \<open>download_image\<close> succeeded for every image
  that the mode selects from the table the process started with, in order and on a freshly opened
  channel, and the message that starts the modem followed; it returns -1 only if the serial line
  cannot be opened.  The image table is the same afterwards.\<close>

theorem modem_boot_complete:
  assumes "modem_boot env ps m = Returned (r, m')"
  shows "config (channel m') = config (channel m)
    \<and> (r = -1 \<and> (\<exists>p \<in> set ps. first_open p < 0 \<or> second_open p < 0)
      \<or> r = 0 \<and> (\<exists>p \<in> set ps. images_complete p (channel m) (channel m')))"
  using assms unfolding modem_boot_def by (rule boot_passes_done)

text \<open>The second pass finds no serial line, after the first one got no answer from the boot ROM.\<close>

definition demo_pass :: boot_pass where
  "demo_pass = \<lparr>first_open = 3, serial_writes = [], serial_reads = [], spare_bytes = [], second_open = 3, switch_writes = [],
     switch_reads = [], dloader_opens = [], spi_writes = [], spi_reads = []\<rparr>"

definition demo_system :: modem_system where
  "demo_system = \<lparr>radio = demo_powered, channel = demo_boot Map.empty [] []\<rparr>"

definition demo_dead :: uart_env where
  "demo_dead = \<lparr>clock = (\<lambda>n. None), line_write = (\<lambda>n. 3), line_read = (\<lambda>n. None), line_open = (\<lambda>n. 7)\<rparr>"

theorem modem_boot_complete_witness:
  "\<exists>m'. modem_boot demo_dead [demo_pass, demo_pass\<lparr>first_open := -1\<rparr>] demo_system = Returned (-1, m')
    \<and> (\<exists>p \<in> set [demo_pass, demo_pass\<lparr>first_open := -1\<rparr>]. first_open p < 0 \<or> second_open p < 0)"
proof -
  obtain m' where m': "modem_boot demo_dead [demo_pass, demo_pass\<lparr>first_open := -1\<rparr>] demo_system = Returned (-1, m')"
    by (simp add: modem_boot_def boot_once_def demo_pass_def demo_dead_def try_to_connect_modem_def Let_def)
  moreover have "(- 1 :: int) \<noteq> 0" by simp
  ultimately show ?thesis using modem_boot_complete [OF m'] by blast
qed

end
