(* ===== verification/ModemCtrl.thy ===== *)
theory ModemCtrl
  imports ModemBoot "HOL-Library.Multiset"
begin

text \<open>
  The control process of the external modem, \<^verbatim>\<open>src/apps/modem_control/main.c\<close>: the table of watched
  sockets and the table of clients, accepting, reading and closing clients, broadcasts to them, and the
  automaton that follows the state reported by the kernel driver.

  Socket calls get their results from the state (\<open>write_answers\<close>) or as arguments; a socket that
  \<open>accept\<close> returns is one the process does not hold.  Descriptors are below \<open>FD_SETSIZE\<close>.
\<close>

section \<open>Sockets\<close>

definition MAX_CLIENT_NUM :: nat where "MAX_CLIENT_NUM = 10"
definition IPC_EVT_MAX_WATCH :: nat where "IPC_EVT_MAX_WATCH = MAX_CLIENT_NUM + 1"

datatype evt_type = IPC_EVT_TYPE_NONE | IPC_EVT_TYPE_LISTEN | IPC_EVT_TYPE_CLIENT

record modem_ctrl_ipc_evt =
  evt_fd :: int
  evt_type :: evt_type
  evt_valid :: bool

datatype MODEM_STA = MODEM_STA_SHUTDOWN | MODEM_STA_BOOT | MODEM_STA_INIT | MODEM_STA_ALIVE | MODEM_STA_ASSERT
  | MODEM_STA_BOOTCOMP

text \<open>The result of a \<open>write\<close>: some bytes, \<open>EINTR\<close> or \<open>EAGAIN\<close>, another error.\<close>

datatype write_answer = Wrote nat | Retry | Failed

datatype monitor_signal = SIGUSR1 | SIGUSR2

record ctrl_state =
  s_ipc_evt_watch_table :: "modem_ctrl_ipc_evt list"
  s_maxfd :: int
  s_rdyFds :: "int set"
  client_fd :: "int list"
  closed_fds :: "int list"
  write_answers :: "write_answer list"
  delivered :: "(int \<times> byte list) list"
  modem_state :: MODEM_STA
  flash_less_flag :: int
  assert_info_buffer :: "byte list"
  uart_out :: "byte list"
  modem :: modem_system
  signals :: "monitor_signal list"
  crashed :: bool

definition modem_ctrl_ipc_init :: "ctrl_state \<Rightarrow> ctrl_state" where
  "modem_ctrl_ipc_init s = s\<lparr>client_fd := replicate MAX_CLIENT_NUM (-1), s_rdyFds := {},
     s_ipc_evt_watch_table := replicate IPC_EVT_MAX_WATCH \<lparr>evt_fd = 0, evt_type = IPC_EVT_TYPE_NONE, evt_valid = False\<rparr>\<rparr>"

text \<open>The loops that look for the first entry with some property.\<close>

fun first_index :: "('a \<Rightarrow> bool) \<Rightarrow> 'a list \<Rightarrow> nat option" where
  "first_index P [] = None"
| "first_index P (x # xs) = (if P x then Some 0 else map_option Suc (first_index P xs))"

definition fill_client :: "int \<Rightarrow> ctrl_state \<Rightarrow> ctrl_state" where
  "fill_client fd s =
     (case first_index (\<lambda>c. c = -1) (client_fd s) of
        None \<Rightarrow> s
      | Some i \<Rightarrow> s\<lparr>client_fd := (client_fd s)[i := fd]\<rparr>)"

definition ipc_watch_fd_add :: "int \<Rightarrow> evt_type \<Rightarrow> ctrl_state \<Rightarrow> ctrl_state" where
  "ipc_watch_fd_add fd type s =
     (case first_index (\<lambda>e. \<not> evt_valid e) (s_ipc_evt_watch_table s) of
        None \<Rightarrow> s\<lparr>closed_fds := closed_fds s @ [fd]\<rparr>
      | Some i \<Rightarrow>
          let s = s\<lparr>s_ipc_evt_watch_table := (s_ipc_evt_watch_table s)[i := \<lparr>evt_fd = fd, evt_type = type, evt_valid = True\<rparr>],
                    s_rdyFds := insert fd (s_rdyFds s),
                    s_maxfd := (if s_maxfd s \<le> fd then fd + 1 else s_maxfd s)\<rparr>
          in if type \<noteq> IPC_EVT_TYPE_CLIENT then s else fill_client fd s)"

definition ipc_watch_fd_remove :: "int \<Rightarrow> ctrl_state \<Rightarrow> ctrl_state" where
  "ipc_watch_fd_remove fd s =
     (case first_index (\<lambda>e. evt_valid e \<and> evt_fd e = fd) (s_ipc_evt_watch_table s) of
        None \<Rightarrow> s
      | Some i \<Rightarrow>
          let table = (s_ipc_evt_watch_table s)[i := \<lparr>evt_fd = -1, evt_type = IPC_EVT_TYPE_NONE, evt_valid = False\<rparr>];
              s = s\<lparr>s_rdyFds := s_rdyFds s - {fd}, s_ipc_evt_watch_table := table\<rparr>
          in if fd + 1 = s_maxfd s
             then s\<lparr>s_maxfd := foldl (\<lambda>n e. if evt_valid e \<and> n < evt_fd e then evt_fd e else n) 0 table + 1\<rparr>
             else s)"

definition ipc_client_fd_close :: "int \<Rightarrow> ctrl_state \<Rightarrow> ctrl_state" where
  "ipc_client_fd_close fd s =
     (let s = ipc_watch_fd_remove fd s;
          s = (case first_index (\<lambda>c. c = fd) (client_fd s) of
                 None \<Rightarrow> s
               | Some i \<Rightarrow> s\<lparr>client_fd := (client_fd s)[i := -1]\<rparr>)
      in s\<lparr>closed_fds := closed_fds s @ [fd]\<rparr>)"

definition process_listen :: "int \<Rightarrow> ctrl_state \<Rightarrow> ctrl_state" where
  "process_listen n s = (if n < 0 then s else ipc_watch_fd_add n IPC_EVT_TYPE_CLIENT s)"


definition char_bytes :: "string \<Rightarrow> byte list" where
  "char_bytes str = map of_char str"

text \<open>\<open>strncmp(m, str, strlen(str)) == 0\<close>, also \<open>memcmp\<close>, on an array at least as long.\<close>

definition starts :: "byte list \<Rightarrow> string \<Rightarrow> bool" where
  "starts m str = (take (length str) m = char_bytes str)"



section \<open>Broadcasts\<close>

fun ipc_blocking_write :: "write_answer list \<Rightarrow> byte list \<Rightarrow> (bool \<times> byte list \<times> write_answer list) outcome" where
  "ipc_blocking_write outs [] = Returned (True, [], outs)"
| "ipc_blocking_write [] bs = Waiting"
| "ipc_blocking_write (Retry # outs) bs = ipc_blocking_write outs bs"
| "ipc_blocking_write (Failed # outs) bs = Returned (False, [], outs)"
| "ipc_blocking_write (Wrote n # outs) bs =
     and_then (ipc_blocking_write outs (drop n bs)) (\<lambda>(ok, written, outs).
       Returned (ok, take n bs @ written, outs))"

fun broadcast_loop :: "nat list \<Rightarrow> byte list \<Rightarrow> ctrl_state \<Rightarrow> ctrl_state outcome" where
  "broadcast_loop [] message s = Returned s"
| "broadcast_loop (i # is) message s =
     (if 0 < client_fd s ! i then
        and_then (ipc_blocking_write (write_answers s) message) (\<lambda>(ok, written, outs).
        let fd = client_fd s ! i;
            s = s\<lparr>write_answers := outs, delivered := delivered s @ [(fd, written)]\<rparr>
        in broadcast_loop is message (if ok then s else ipc_client_fd_close fd s))
      else broadcast_loop is message s)"

definition broadcast_modem_state :: "byte list \<Rightarrow> ctrl_state \<Rightarrow> ctrl_state outcome" where
  "broadcast_modem_state message s = broadcast_loop [0..<MAX_CLIENT_NUM] message s"

section \<open>The state of the modem\<close>

definition MODEM_ALIVE_STR :: string where "MODEM_ALIVE_STR = ''Modem Alive''"
definition LTE_MODEM_ASSERT_STR :: string where "LTE_MODEM_ASSERT_STR = ''LTE Modem Assert''"
definition TD_MODEM_ASSERT_STR :: string where "TD_MODEM_ASSERT_STR = ''_TD Modem Assert''"
definition MODEM_ASSERT_STR :: string where "MODEM_ASSERT_STR = ''Modem Assert''"
definition LTE_MODEM_RESET_STR :: string where "LTE_MODEM_RESET_STR = ''LTE Modem _Reset''"
definition WTD_MODEM_RESET_STR :: string where "WTD_MODEM_RESET_STR = ''WDG Modem _Reset''"
definition MODEM_RESET_STR :: string where "MODEM_RESET_STR = ''Modem Reset''"

definition MODEM_INTF_EVENT_ASSERT :: int where "MODEM_INTF_EVENT_ASSERT = 0"
definition MODEM_INTF_EVENT_ALIVE :: int where "MODEM_INTF_EVENT_ALIVE = 1"
definition MODEM_INTF_EVENT_CP_REQ_RESET :: int where "MODEM_INTF_EVENT_CP_REQ_RESET = 2"
definition MODEM_INTF_EVENT_SHUTDOWN :: int where "MODEM_INTF_EVENT_SHUTDOWN = 4"
definition MODEM_INTF_EVENT_FORCE_RESET :: int where "MODEM_INTF_EVENT_FORCE_RESET = 8"
definition MODEM_INTF_EVENT_WDG_RESET :: int where "MODEM_INTF_EVENT_WDG_RESET = 16"

definition TEST_BUFFER_SIZE :: nat where "TEST_BUFFER_SIZE = 300"

text \<open>
  \<open>sscanf(message, "%d", &mask)\<close> on the 128-byte buffer.  Without a number \<open>mask\<close> is not assigned,
  and a number that does not fit is undefined too.
\<close>

definition translate_modem_state_message :: "byte list \<Rightarrow> int option" where
  "translate_modem_state_message message =
     (if 0 \<notin> set message then None
      else let str = dropWhile (\<lambda>b. b = 32 \<or> 9 \<le> b \<and> b \<le> 13) (takeWhile (\<lambda>b. b \<noteq> 0) message);
               negative = (str \<noteq> [] \<and> str ! 0 = 45);
               str = (if str \<noteq> [] \<and> (str ! 0 = 45 \<or> str ! 0 = 43) then drop 1 str else str);
               digits = takeWhile (\<lambda>b. 48 \<le> b \<and> b \<le> 57) str;
               v = foldl (\<lambda>n b. 10 * n + (uint b - 48)) 0 digits;
               v = (if negative then - v else v)
           in if digits = [] \<or> v < - (2 ^ 31) \<or> 2 ^ 31 \<le> v then None else Some v)"

definition chk_assert_info_string :: "byte list \<Rightarrow> bool" where
  "chk_assert_info_string message =
     (starts message LTE_MODEM_ASSERT_STR \<or> starts message TD_MODEM_ASSERT_STR \<or> starts message MODEM_ASSERT_STR
      \<or> starts message LTE_MODEM_RESET_STR \<or> starts message MODEM_RESET_STR)"

definition set_modem_assert_information :: "byte list \<Rightarrow> ctrl_state \<Rightarrow> ctrl_state option" where
  "set_modem_assert_information assert_info s = do {
     buf \<leftarrow> mem_write (replicate TEST_BUFFER_SIZE 0) 0 assert_info;
     Some (s\<lparr>assert_info_buffer := buf\<rparr>) }"

text \<open>
  The loop of \<open>get_modem_assert_information\<close> over the reads of the serial line (empty ones where it
  has no data): at most 100001 of them.
\<close>

fun assert_loop :: "byte list list \<Rightarrow> nat \<Rightarrow> nat \<Rightarrow> nat \<Rightarrow> byte list \<Rightarrow> (nat \<times> byte list) outcome" where
  "assert_loop [] timeout read_len sz buf = Waiting"
| "assert_loop (r # rs) timeout read_len sz buf =
     (let bs = take sz r; timeout = timeout + 1 in
      and_then (checked (mem_write buf read_len bs)) (\<lambda>buf.
        if 100000 < timeout \<or> sz - length bs = 0 then Returned (read_len + length bs, buf)
        else assert_loop rs timeout (read_len + length bs) (sz - length bs) buf))"

text \<open>\<open>line\<close> is what the serial line delivers, nothing if it cannot be opened.\<close>

definition get_modem_assert_information :: "byte list list option \<Rightarrow> nat \<Rightarrow> byte list \<Rightarrow>
    (nat \<times> byte list \<times> byte list) outcome" where
  "get_modem_assert_information line sz buf =
     (if sz = 0 then Returned (0, buf, [])
      else case line of
          None \<Rightarrow> Returned (0, buf, [])
        | Some rs \<Rightarrow>
            let out = [of_char (CHR ''P'')] in
            and_then (assert_loop rs 0 0 sz buf) (\<lambda>(read_len, buf).
              Returned (read_len, buf, out @ [of_char (CHR ''O'')])))"

text \<open>\<open>strlen(assert_info_buffer)\<close> and the bytes before the terminator.\<close>

definition info_string :: "byte list \<Rightarrow> byte list option" where
  "info_string buf = (if 0 \<in> set buf then Some (takeWhile (\<lambda>b. b \<noteq> 0) buf) else None)"

text \<open>The update of \<open>flash_less_flag\<close>, and whether this is the first alive.\<close>

definition first_alive :: "int \<Rightarrow> bool \<Rightarrow> int \<times> bool" where
  "first_alive flag alive_status =
     (if flag = 0xff then (if alive_status then (0, True) else (1, False))
      else if flag = 1 then (if alive_status then (2, True) else (1, False))
      else (flag, False))"

definition signal_monitor :: "int \<Rightarrow> monitor_signal \<Rightarrow> ctrl_state \<Rightarrow> ctrl_state" where
  "signal_monitor pid sig s = (if 0 < pid then s\<lparr>signals := signals s @ [sig]\<rparr> else s)"

text \<open>The branch for \<open>MODEM_STA_ALIVE\<close> and \<open>MODEM_INTF_EVENT_ASSERT\<close>.\<close>

definition modem_asserted :: "byte list list option \<Rightarrow> bool \<Rightarrow> ctrl_state \<Rightarrow> ctrl_state outcome" where
  "modem_asserted line charger s =
     (let s = s\<lparr>modem_state := MODEM_STA_ASSERT, assert_info_buffer := replicate 300 0\<rparr> in
      and_then (get_modem_assert_information line 256 (assert_info_buffer s)) (\<lambda>(ret, buf, out).
      let s = s\<lparr>assert_info_buffer := buf, uart_out := uart_out s @ out\<rparr> in
      and_then (checked (info_string buf)) (\<lambda>info.
      and_then (broadcast_modem_state (if chk_assert_info_string buf then info else char_bytes MODEM_ASSERT_STR) s) (\<lambda>s.
        Returned (if charger then s\<lparr>crashed := True\<rparr> else s)))))"

text \<open>
  \<open>pid\<close> is the result of \<open>get_task_pid\<close>, \<open>charger\<close> that of \<open>poweron_by_charger\<close> together with a trigger
  file that opens.
\<close>

definition process_modem_state_message ::
  "byte list list option \<Rightarrow> bool \<Rightarrow> int \<Rightarrow> byte list \<Rightarrow> ctrl_state \<Rightarrow> ctrl_state outcome" where
  "process_modem_state_message line charger pid message s =
     and_then (checked (translate_modem_state_message message)) (\<lambda>evt.
     if evt < 0 then Returned s
     else let (flag, first) = first_alive (flash_less_flag s) (odd evt);
              s = s\<lparr>flash_less_flag := flag\<rparr>
       in if evt = MODEM_INTF_EVENT_FORCE_RESET then
            Returned ((signal_monitor pid SIGUSR1 s)\<lparr>modem_state := MODEM_STA_BOOT\<rparr>)
          else (case modem_state s of
              MODEM_STA_INIT \<Rightarrow>
                if evt = MODEM_INTF_EVENT_ALIVE then
                  let s = s\<lparr>modem_state := MODEM_STA_ALIVE\<rparr>
                  in Returned (if first then s else signal_monitor pid SIGUSR2 s)
                else if evt = MODEM_INTF_EVENT_SHUTDOWN then Returned (s\<lparr>modem_state := MODEM_STA_BOOT\<rparr>)
                else Returned s
            | MODEM_STA_ASSERT \<Rightarrow>
                if evt = MODEM_INTF_EVENT_CP_REQ_RESET then broadcast_modem_state (char_bytes MODEM_RESET_STR) s
                else Returned s
            | MODEM_STA_BOOTCOMP \<Rightarrow>
                if evt = MODEM_INTF_EVENT_ALIVE then
                  and_then (broadcast_modem_state (char_bytes MODEM_ALIVE_STR) (s\<lparr>modem_state := MODEM_STA_ALIVE\<rparr>)) (\<lambda>s.
                    Returned (if first then s else signal_monitor pid SIGUSR2 s))
                else if evt = MODEM_INTF_EVENT_CP_REQ_RESET then broadcast_modem_state (char_bytes MODEM_RESET_STR) s
                else Returned s
            | MODEM_STA_ALIVE \<Rightarrow>
                if evt = MODEM_INTF_EVENT_ASSERT then modem_asserted line charger s
                else if evt = MODEM_INTF_EVENT_CP_REQ_RESET then broadcast_modem_state (char_bytes MODEM_RESET_STR) s
                else if evt = MODEM_INTF_EVENT_WDG_RESET then broadcast_modem_state (char_bytes WTD_MODEM_RESET_STR) s
                else Returned s
            | _ \<Rightarrow> Returned s))"

text \<open>
  One round of the loop of \<open>main\<close>: \<open>bs\<close> are the bytes of the state file, none if it could not be read.
  The result of \<open>modem_boot\<close> is ignored.
\<close>

record round_input =
  in_line :: "byte list list option"
  in_charger :: bool
  in_pid :: int
  in_state :: "byte list"
  in_uart :: uart_env
  in_passes :: "boot_pass list"

definition main_round :: "round_input \<Rightarrow> ctrl_state \<Rightarrow> ctrl_state outcome" where
  "main_round r s =
     and_then (let bs = take 128 (in_state r) in
       if bs = [] then Returned s
       else process_modem_state_message (in_line r) (in_charger r) (in_pid r) (bs @ replicate (128 - length bs) 0) s) (\<lambda>s.
     if modem_state s = MODEM_STA_BOOT then
       and_then (modem_boot (in_uart r) (in_passes r) (modem s)) (\<lambda>(_, m).
         Returned (s\<lparr>modem := m, modem_state := MODEM_STA_BOOTCOMP\<rparr>))
     else Returned s)"

section \<open>The two tables\<close>



definition watched :: "ctrl_state \<Rightarrow> modem_ctrl_ipc_evt multiset" where
  "watched s = filter_mset evt_valid (mset (s_ipc_evt_watch_table s))"

definition watched_clients :: "ctrl_state \<Rightarrow> modem_ctrl_ipc_evt multiset" where
  "watched_clients s = filter_mset (\<lambda>e. evt_type e = IPC_EVT_TYPE_CLIENT) (watched s)"

definition clients :: "ctrl_state \<Rightarrow> int multiset" where
  "clients s = filter_mset (\<lambda>c. c \<noteq> -1) (mset (client_fd s))"

text \<open>
  The tables agree: one listening socket is watched, the clients are exactly the other watched
  sockets, no descriptor is watched twice, and \<open>select\<close> is given all of them.
\<close>

definition tables_ok :: "ctrl_state \<Rightarrow> bool" where
  "tables_ok s = (length (s_ipc_evt_watch_table s) = IPC_EVT_MAX_WATCH \<and> length (client_fd s) = MAX_CLIENT_NUM
     \<and> size (watched s) = size (watched_clients s) + 1
     \<and> clients s = image_mset evt_fd (watched_clients s)
     \<and> (\<forall>fd. count (image_mset evt_fd (watched s)) fd \<le> 1)
     \<and> (\<forall>e \<in># watched s. 0 \<le> evt_fd e \<and> evt_fd e < s_maxfd s)
     \<and> s_rdyFds s = set_mset (image_mset evt_fd (watched s)))"


lemma tables_ok_cong:
  assumes "s_ipc_evt_watch_table s' = s_ipc_evt_watch_table s" "client_fd s' = client_fd s"
    "s_maxfd s' = s_maxfd s" "s_rdyFds s' = s_rdyFds s"
  shows "tables_ok s' = tables_ok s"
  using assms by (simp add: tables_ok_def watched_def watched_clients_def clients_def)






section \<open>Runs\<close>

lemma broadcast_loop_keeps:
  assumes "broadcast_loop is message s = Returned s'"
  shows "modem_state s' = modem_state s"
  using assms
proof (induction "is" arbitrary: s)
  case (Cons i "is")
  have "modem_state (ipc_client_fd_close fd s) = modem_state s" for fd s
    by (auto simp: ipc_client_fd_close_def ipc_watch_fd_remove_def Let_def split: option.split)
  then show ?case using Cons by (auto simp: and_then_Returned_iff Let_def split: if_splits)
qed simp



lemma tables_ok_updates [simp]:
  "tables_ok (s\<lparr>modem_state := a\<rparr>) = tables_ok s" "tables_ok (s\<lparr>flash_less_flag := b\<rparr>) = tables_ok s"
  "tables_ok (s\<lparr>assert_info_buffer := c\<rparr>) = tables_ok s" "tables_ok (s\<lparr>crashed := d\<rparr>) = tables_ok s"
  "tables_ok (s\<lparr>uart_out := e\<rparr>) = tables_ok s" "tables_ok (s\<lparr>modem := f\<rparr>) = tables_ok s"
  "tables_ok (s\<lparr>write_answers := g\<rparr>) = tables_ok s" "tables_ok (signal_monitor pid sig s) = tables_ok s"
  by (rule tables_ok_cong; simp add: signal_monitor_def)+









definition demo_modem :: modem_system where
  "demo_modem = \<lparr>radio = demo_powered, channel = \<lparr>send_buffer = [], max_transfer_size = 0, wire = [], writes = [], reads = [],
     test_buffer = [], download_image_info = [], modem_images_count = 0, capabilities_flag = 0xff, uart_dev = ''/dev/ttyS2'',
     fdl_cp_poweron_delay = 160000, image_files = Map.empty, properties = (\<lambda>_. [])\<rparr>\<rparr>"

definition demo_ctrl :: ctrl_state where
  "demo_ctrl = \<lparr>s_ipc_evt_watch_table = [], s_maxfd = 0, s_rdyFds = {}, client_fd = [], closed_fds = [], write_answers = [],
     delivered = [], modem_state = MODEM_STA_INIT, flash_less_flag = 0xff, assert_info_buffer = replicate 300 0, uart_out = [],
     modem = demo_modem, signals = [], crashed = False\<rparr>"

text \<open>The process with a listening socket and one client.\<close>

definition demo_served :: ctrl_state where
  "demo_served = process_listen 7 (ipc_watch_fd_add 4 IPC_EVT_TYPE_LISTEN (modem_ctrl_ipc_init demo_ctrl))"

lemma demo_served_fields:
  "s_rdyFds (ipc_watch_fd_add 4 IPC_EVT_TYPE_LISTEN (modem_ctrl_ipc_init demo_ctrl)) = {4}"
  "client_fd demo_served = 7 # replicate 9 (-1)"
  by code_simp+


section \<open>The automaton\<close>

text \<open>What the process is meant to follow: the state and the broadcast on each event.\<close>

fun next_state :: "MODEM_STA \<Rightarrow> int \<Rightarrow> MODEM_STA" where
  "next_state st evt =
     (if evt < 0 then st else if evt = 8 then MODEM_STA_BOOT
      else if st = MODEM_STA_INIT \<and> evt = 4 then MODEM_STA_BOOT
      else if (st = MODEM_STA_INIT \<or> st = MODEM_STA_BOOTCOMP) \<and> evt = 1 then MODEM_STA_ALIVE
      else if st = MODEM_STA_ALIVE \<and> evt = 0 then MODEM_STA_ASSERT
      else st)"

lemmas event_defs = MODEM_INTF_EVENT_ASSERT_def MODEM_INTF_EVENT_ALIVE_def MODEM_INTF_EVENT_CP_REQ_RESET_def
  MODEM_INTF_EVENT_SHUTDOWN_def MODEM_INTF_EVENT_FORCE_RESET_def MODEM_INTF_EVENT_WDG_RESET_def

lemma broadcast_state: "broadcast_modem_state message s = Returned s' \<Longrightarrow> modem_state s' = modem_state s"
  unfolding broadcast_modem_state_def by (rule broadcast_loop_keeps)

lemma modem_asserted_state: "modem_asserted line charger s = Returned s' \<Longrightarrow> modem_state s' = MODEM_STA_ASSERT"
  by (auto simp: modem_asserted_def and_then_Returned_iff Let_def dest!: broadcast_state)

lemma signal_monitor_state [simp]: "modem_state (signal_monitor pid sig s) = modem_state s"
  by (simp add: signal_monitor_def)

lemma process_message_state:
  assumes "translate_modem_state_message message = Some evt"
    and "process_modem_state_message line charger pid message s = Returned s'"
  shows "modem_state s' = next_state (modem_state s) evt"
  using assms(2) unfolding process_modem_state_message_def assms(1)
  by (cases "modem_state s")
    (auto simp: and_then_Returned_iff Let_def case_prod_beta' event_defs split: if_splits
      dest!: broadcast_state modem_asserted_state)

text \<open>Rounds of the main loop, with what the serial line, the process list and the state file give in each.\<close>

fun main_rounds :: "round_input list \<Rightarrow> ctrl_state \<Rightarrow> ctrl_state outcome" where
  "main_rounds [] s = Returned s"
| "main_rounds (r # rs) s = and_then (main_round r s) (main_rounds rs)"

definition event_of :: "byte list \<Rightarrow> int option" where
  "event_of bs = (let bs = take 128 bs in
     if bs = [] then None else translate_modem_state_message (bs @ replicate (128 - length bs) 0))"

definition settle :: "MODEM_STA \<Rightarrow> MODEM_STA" where
  "settle st = (if st = MODEM_STA_BOOT then MODEM_STA_BOOTCOMP else st)"

definition follow :: "MODEM_STA \<Rightarrow> byte list \<Rightarrow> MODEM_STA" where
  "follow st bs = settle (case event_of bs of None \<Rightarrow> st | Some evt \<Rightarrow> next_state st evt)"

lemma main_round_state:
  assumes "main_round r s = Returned s'"
  shows "modem_state s' = follow (modem_state s) (in_state r)"
proof -
  let ?m = "take 128 (in_state r) @ replicate (128 - length (take 128 (in_state r))) 0"
  obtain t where t: "(if take 128 (in_state r) = [] then Returned s
      else process_modem_state_message (in_line r) (in_charger r) (in_pid r) ?m s) = Returned t"
    and b: "(if modem_state t = MODEM_STA_BOOT then
       and_then (modem_boot (in_uart r) (in_passes r) (modem t)) (\<lambda>(_, m).
         Returned (t\<lparr>modem := m, modem_state := MODEM_STA_BOOTCOMP\<rparr>))
       else Returned t) = Returned s'"
    using assms unfolding main_round_def Let_def and_then_Returned_iff by blast
  have s': "modem_state s' = settle (modem_state t)"
    using b by (auto simp: settle_def and_then_Returned_iff split: if_splits)
  show ?thesis
  proof (cases "take 128 (in_state r) = []")
    case True
    then show ?thesis using t s' by (simp add: follow_def event_of_def)
  next
    case False
    then have p: "process_modem_state_message (in_line r) (in_charger r) (in_pid r) ?m s = Returned t" using t by simp
    obtain evt where e: "translate_modem_state_message ?m = Some evt"
      using p by (auto simp: process_modem_state_message_def and_then_Returned_iff)
    then have "event_of (in_state r) = Some evt" using False by (simp add: event_of_def Let_def)
    then show ?thesis using process_message_state [OF e p] s' unfolding follow_def by (simp only: option.case)
  qed
qed

lemma follow_assert: "event_of bs \<noteq> Some 8 \<Longrightarrow> follow MODEM_STA_ASSERT bs = MODEM_STA_ASSERT"
  by (auto simp: follow_def settle_def split: option.split)

text \<open>C33. The main loop follows its automaton: in every run the state of the modem is the one the event
  sequence prescribes.  In particular a modem that has asserted stays down, whatever else is reported,
  until a forced reset.\<close>

theorem modem_state_automaton:
  assumes "main_rounds rs s = Returned s'"
  shows "modem_state s' = foldl follow (modem_state s) (map in_state rs)
    \<and> (modem_state s = MODEM_STA_ASSERT \<longrightarrow> (\<forall>r \<in> set rs. event_of (in_state r) \<noteq> Some 8) \<longrightarrow> modem_state s' = MODEM_STA_ASSERT)"
  using assms
proof (induction rs arbitrary: s)
  case (Cons r rs)
  obtain t where t: "main_round r s = Returned t" "main_rounds rs t = Returned s'"
    using Cons.prems by (auto simp: and_then_Returned_iff)
  show ?case
    using Cons.IH [OF t(2)] main_round_state [OF t(1)] follow_assert [of "in_state r"] by auto
qed simp

lemma alive_bytes: "event_of [49, 10] = Some 1"
  by code_simp

definition demo_round :: "byte list \<Rightarrow> round_input" where
  "demo_round bs = \<lparr>in_line = None, in_charger = False, in_pid = 0, in_state = bs, in_uart = demo_dead,
     in_passes = [demo_pass, demo_pass\<lparr>first_open := -1\<rparr>]\<rparr>"

theorem modem_state_automaton_witness:
  "\<exists>s'. main_rounds [demo_round [49, 10]] (modem_ctrl_ipc_init demo_ctrl) = Returned s' \<and> modem_state s' = MODEM_STA_ALIVE"
proof -
  let ?s = "modem_ctrl_ipc_init demo_ctrl"
  have "case process_modem_state_message None False 0 ([49, 10] @ replicate 126 0) ?s of
      Returned t \<Rightarrow> modem_state t \<noteq> MODEM_STA_BOOT | _ \<Rightarrow> False" by code_simp
  then obtain s' where "process_modem_state_message None False 0 ([49, 10] @ replicate 126 0) ?s = Returned s'"
    "modem_state s' \<noteq> MODEM_STA_BOOT" by (auto split: outcome.splits)
  then have s': "main_rounds [demo_round [49, 10]] ?s = Returned s'" by (simp add: main_round_def demo_round_def)
  have "modem_state ?s = MODEM_STA_INIT" by (simp add: modem_ctrl_ipc_init_def demo_ctrl_def)
  then have "modem_state s' = MODEM_STA_ALIVE"
    using modem_state_automaton [OF s'] by (simp add: demo_round_def follow_def alive_bytes settle_def)
  then show ?thesis using s' by blast
qed

section \<open>Forced reset\<close>

lemma event_bytes:
  assumes "event_of bs = Some evt"
  shows "take 128 bs \<noteq> []" "translate_modem_state_message (take 128 bs @ replicate (128 - length (take 128 bs)) 0) = Some evt"
  using assms by (auto simp: event_of_def Let_def split: if_splits)

lemma force_reset_message:
  assumes "translate_modem_state_message message = Some 8"
  obtains t where "process_modem_state_message line charger pid message s = Returned t"
    "modem_state t = MODEM_STA_BOOT" "modem t = modem s" "delivered t = delivered s" "client_fd t = client_fd s"
proof
  let ?t = "(signal_monitor pid SIGUSR1 (s\<lparr>flash_less_flag := fst (first_alive (flash_less_flag s) False)\<rparr>))
      \<lparr>modem_state := MODEM_STA_BOOT\<rparr>"
  show "process_modem_state_message line charger pid message s = Returned ?t"
    by (simp add: process_modem_state_message_def assms event_defs Let_def case_prod_beta')
qed (simp_all add: signal_monitor_def)

text \<open>C31. A forced reset boots the modem, in whatever state the process is: when the round that reads it
  ends, \<open>modem_boot\<close> has run on the system as it was, no client was told anything, and the process
  expects the modem to come alive.  The last holds as well if the boot has failed: the result of
  \<open>modem_boot\<close> is not looked at, although it tells whether all images were sent.\<close>

theorem forced_reset_boots:
  assumes "event_of (in_state r) = Some 8" "main_round r s = Returned s'"
  shows "modem_state s' = MODEM_STA_BOOTCOMP \<and> delivered s' = delivered s \<and> client_fd s' = client_fd s
    \<and> (\<exists>ret. modem_boot (in_uart r) (in_passes r) (modem s) = Returned (ret, modem s')
      \<and> (ret = -1 \<and> (\<exists>p \<in> set (in_passes r). first_open p < 0 \<or> second_open p < 0)
        \<or> ret = 0 \<and> (\<exists>p \<in> set (in_passes r). images_complete p (channel (modem s)) (channel (modem s')))))"
proof -
  note e = event_bytes [OF assms(1)]
  obtain t where t: "process_modem_state_message (in_line r) (in_charger r) (in_pid r)
      (take 128 (in_state r) @ replicate (128 - length (take 128 (in_state r))) 0) s = Returned t"
    "modem_state t = MODEM_STA_BOOT" "modem t = modem s" "delivered t = delivered s" "client_fd t = client_fd s"
    using e(2) by (rule force_reset_message)
  obtain ret m where m: "modem_boot (in_uart r) (in_passes r) (modem s) = Returned (ret, m)"
    "s' = t\<lparr>modem := m, modem_state := MODEM_STA_BOOTCOMP\<rparr>"
    using assms(2) e(1) t by (auto simp: main_round_def Let_def and_then_Returned_iff)
  then show ?thesis
    using boot_passes_done [of "in_uart r" "in_passes r" False "modem s" ret m] t(4,5) by (auto simp: modem_boot_def)
qed

lemma reset_bytes: "event_of [56, 10] = Some 8"
  by code_simp

theorem forced_reset_boots_witness:
  "\<exists>s'. main_round (demo_round [56, 10]) demo_ctrl = Returned s' \<and> modem_state s' = MODEM_STA_BOOTCOMP
    \<and> (\<exists>m. modem_boot demo_dead [demo_pass, demo_pass\<lparr>first_open := -1\<rparr>] demo_modem = Returned (-1, m))"
proof -
  have e: "event_of (in_state (demo_round [56, 10])) = Some 8" by (simp add: demo_round_def reset_bytes)
  obtain m where m: "modem_boot demo_dead [demo_pass, demo_pass\<lparr>first_open := -1\<rparr>] demo_modem = Returned (-1, m)"
    by (simp add: modem_boot_def boot_once_def demo_pass_def demo_dead_def try_to_connect_modem_def Let_def)
  have "translate_modem_state_message ([56, 10] @ replicate 126 0) = Some 8" using event_bytes(2) [OF reset_bytes] by simp
  then obtain t where "process_modem_state_message None False 0 ([56, 10] @ replicate 126 0) demo_ctrl = Returned t"
    "modem_state t = MODEM_STA_BOOT" "modem t = modem demo_ctrl"
    by (rule force_reset_message)
  then have "main_round (demo_round [56, 10]) demo_ctrl = Returned (t\<lparr>modem := m, modem_state := MODEM_STA_BOOTCOMP\<rparr>)"
    using m by (simp add: main_round_def demo_round_def demo_ctrl_def)
  from forced_reset_boots [OF e this] this m show ?thesis by blast
qed

section \<open>Stalled clients\<close>

lemma write_stalls: "set outs \<subseteq> {Retry} \<Longrightarrow> message \<noteq> [] \<Longrightarrow> ipc_blocking_write outs message = Waiting"
proof (induction outs)
  case Nil
  then show ?case by (cases message) auto
next
  case (Cons a outs)
  then show ?case by (cases message) auto
qed

lemma broadcast_loop_stalls:
  assumes "set (write_answers s) \<subseteq> {Retry}" "message \<noteq> []" "\<exists>i \<in> set is. 0 < client_fd s ! i"
  shows "broadcast_loop is message s = Waiting"
  using assms(3) by (induction "is") (auto simp: write_stalls [OF assms(1,2)])

text \<open>One client that stops reading stops the modem control.  The sockets do not block, a full one
  answers \<open>EAGAIN\<close>, and \<open>ipc_blocking_write\<close> tries again at once: as long as a connected client's socket is
  full, the main thread is in \<open>broadcast_modem_state\<close> and handles no event, not even a forced reset.\<close>

theorem stalled_client_blocks_modem_control:
  assumes "modem_state s = MODEM_STA_BOOTCOMP" "event_of (in_state r) = Some 1"
    and "\<exists>i < MAX_CLIENT_NUM. 0 < client_fd s ! i" "set (write_answers s) \<subseteq> {Retry}"
  shows "main_rounds (r # rs) s = Waiting"
proof -
  let ?m = "take 128 (in_state r) @ replicate (128 - length (take 128 (in_state r))) 0"
  have m: "take 128 (in_state r) \<noteq> []" "translate_modem_state_message ?m = Some 1"
    using assms(2) by (auto simp: event_of_def Let_def split: if_splits)
  have "char_bytes MODEM_ALIVE_STR \<noteq> []" by (simp add: char_bytes_def MODEM_ALIVE_STR_def)
  then have "broadcast_modem_state (char_bytes MODEM_ALIVE_STR) (s\<lparr>flash_less_flag := f, modem_state := MODEM_STA_ALIVE\<rparr>) = Waiting" for f
    using assms(3,4) unfolding broadcast_modem_state_def by (intro broadcast_loop_stalls) auto
  then have "process_modem_state_message (in_line r) (in_charger r) (in_pid r) ?m s = Waiting"
    using assms(1) unfolding process_modem_state_message_def m(2) by (simp add: event_defs Let_def case_prod_beta')
  then show ?thesis using m(1) by (simp add: main_round_def Let_def)
qed

theorem stalled_client_blocks_modem_control_witness:
  "main_rounds [demo_round [49, 10]] (demo_served\<lparr>modem_state := MODEM_STA_BOOTCOMP, write_answers := [Retry, Retry]\<rparr>) = Waiting"
  by (rule stalled_client_blocks_modem_control)
    (auto simp: demo_round_def alive_bytes demo_served_fields MAX_CLIENT_NUM_def intro!: exI [of _ 0])

end
