(* ===== verification/CmrMsg.thy ===== *)
theory CmrMsg
  imports DeviceIo
begin

text \<open>
  The message queues and worker threads of the camera library,
  \<^verbatim>\<open>src/libs/libcamera/common/src/cmr_msg.c\<close>.  A queue is a ring of slots; a pointer into it is
  the index of the slot.  The sections under the queue mutex are functions on the queue; a call
  that has to wait for a semaphore is \<^term>\<open>Waiting\<close>, and the interleavings of several posters with
  the worker thread are the steps of \<open>cmr_step\<close> below.  Counters are natural numbers:
  \<open>msg_number + 1\<close> never exceeds the 32-bit \<open>msg_count\<close>.
\<close>

section \<open>Queues\<close>

definition CMR_MSG_MAGIC_CODE :: u32 where "CMR_MSG_MAGIC_CODE = 0xEFFEA55A"

definition CMR_MSG_SUCCESS :: int where "CMR_MSG_SUCCESS = 0"
definition CMR_MSG_PARAM_ERR :: int where "CMR_MSG_PARAM_ERR = 1"
definition CMR_MSG_INVALID_HANDLE :: int where "CMR_MSG_INVALID_HANDLE = 2"
definition CMR_MSG_NO_OTHER_MSG :: int where "CMR_MSG_NO_OTHER_MSG = 3"
definition CMR_MSG_NO_MEM :: int where "CMR_MSG_NO_MEM = 4"
definition CMR_MSG_OVERFLOW :: int where "CMR_MSG_OVERFLOW = 5"
definition CMR_MSG_UNDERFLOW :: int where "CMR_MSG_UNDERFLOW = 6"

definition CMR_MSG_SYNC_NONE :: u32 where "CMR_MSG_SYNC_NONE = 0"
definition CMR_MSG_SYNC_RECEIVED :: u32 where "CMR_MSG_SYNC_RECEIVED = 1"
definition CMR_MSG_SYNC_PROCESSED :: u32 where "CMR_MSG_SYNC_PROCESSED = 2"

text \<open>\<open>dat\<close> is the \<open>data\<close> pointer, 0 for \<open>NULL\<close>; \<open>cmr_priv\<close> the slot a message came from.\<close>

record cmr_msg =
  msg_type :: u32
  sub_msg_type :: u32
  dat :: nat
  alloc_flag :: u32
  sync_flag :: u32
  cmr_priv :: "nat option"

record cmr_msg_in =
  slot_msg :: cmr_msg
  slot_sem :: nat
  sync_f :: u32

record cmr_msg_cxt =
  msg_sem :: nat
  msg_count :: nat
  msg_number :: nat
  msg_magic :: u32
  msg_slots :: "cmr_msg_in list"
  msg_write :: nat
  msg_read :: nat

definition MSG_INIT :: cmr_msg where
  "MSG_INIT = \<lparr>msg_type = 0, sub_msg_type = 0, dat = 0, alloc_flag = 0, sync_flag = 0, cmr_priv = None\<rparr>"

definition zero_slot :: cmr_msg_in where
  "zero_slot = \<lparr>slot_msg = MSG_INIT, slot_sem = 0, sync_f = 0\<rparr>"

text \<open>
  The two flags are the results of the allocations; \<open>slot_size\<close> is the size of a
  \<open>struct cmr_msg_in\<close>.  The size of the second allocation wraps at 32 bits while the loop over the
  semaphores does not.
\<close>

definition cmr_msg_queue_create :: "nat \<Rightarrow> bool \<Rightarrow> bool \<Rightarrow> nat \<Rightarrow> (int \<times> cmr_msg_cxt option) outcome" where
  "cmr_msg_queue_create slot_size mem1 mem2 count =
     (if count = 0 then Returned (- CMR_MSG_PARAM_ERR, None)
      else if \<not> mem1 then Returned (- CMR_MSG_NO_MEM, None)
      else if \<not> mem2 then Returned (- CMR_MSG_NO_MEM, None)
      else if 2 ^ 32 \<le> count * slot_size then Undefined
      else Returned (CMR_MSG_SUCCESS, Some \<lparr>msg_sem = 0, msg_count = count, msg_number = 0,
        msg_magic = CMR_MSG_MAGIC_CODE, msg_slots = replicate count zero_slot,
        msg_write = 0, msg_read = 0\<rparr>))"

text \<open>\<open>p++; if (p > msg_head + msg_count - 1) p = msg_head;\<close>\<close>

definition next_slot :: "cmr_msg_cxt \<Rightarrow> nat \<Rightarrow> nat" where
  "next_slot q p = (let p = p + 1 in if msg_count q - 1 < p then 0 else p)"

text \<open>\<open>sem_post(&msg_cur->sem)\<close>.\<close>

definition slot_post :: "nat \<Rightarrow> cmr_msg_cxt \<Rightarrow> cmr_msg_cxt" where
  "slot_post i q = q\<lparr>msg_slots := (msg_slots q)[i := (msg_slots q ! i)\<lparr>slot_sem := slot_sem (msg_slots q ! i) + 1\<rparr>]\<rparr>"

text \<open>The section of \<open>cmr_msg_get\<close> under the mutex, \<open>msg_cur\<close> included.\<close>

definition get_locked :: "cmr_msg \<Rightarrow> cmr_msg_cxt \<Rightarrow> int \<times> cmr_msg \<times> nat option \<times> cmr_msg_cxt" where
  "get_locked message q =
     (if msg_number q = 0 then (CMR_MSG_UNDERFLOW, message, None, q)
      else if msg_read q \<noteq> msg_write q then
        let cur = msg_read q;
            message = (slot_msg (msg_slots q ! cur))\<lparr>cmr_priv := Some cur\<rparr>;
            q = q\<lparr>msg_slots := (msg_slots q)[cur := (msg_slots q ! cur)\<lparr>slot_msg := MSG_INIT\<rparr>]\<rparr>;
            q = q\<lparr>msg_read := next_slot q (msg_read q)\<rparr>;
            q = q\<lparr>msg_number := msg_number q - 1\<rparr>
        in (CMR_MSG_SUCCESS, message, Some cur, q)
      else (CMR_MSG_SUCCESS, message, None, q))"

definition notify_received :: "nat option \<Rightarrow> cmr_msg_cxt \<Rightarrow> cmr_msg_cxt" where
  "notify_received msg_cur q =
     (case msg_cur of None \<Rightarrow> q
      | Some i \<Rightarrow> if sync_f (msg_slots q ! i) = CMR_MSG_SYNC_RECEIVED then slot_post i q else q)"

definition cmr_msg_get :: "cmr_msg_cxt option \<Rightarrow> cmr_msg option \<Rightarrow> (int \<times> cmr_msg option \<times> cmr_msg_cxt option) outcome" where
  "cmr_msg_get queue_handle message =
     (case (queue_handle, message) of
        (Some q, Some m) \<Rightarrow>
          if msg_magic q \<noteq> CMR_MSG_MAGIC_CODE then Returned (CMR_MSG_INVALID_HANDLE, message, queue_handle)
          else if msg_sem q = 0 then Waiting
          else let q = q\<lparr>msg_sem := msg_sem q - 1\<rparr>;
                   (code, m, msg_cur, q) = get_locked m q
               in if code = CMR_MSG_UNDERFLOW then Returned (code, Some m, Some q)
                  else Returned (CMR_MSG_SUCCESS, Some m, Some (notify_received msg_cur q))
      | _ \<Rightarrow> Returned (- CMR_MSG_PARAM_ERR, message, queue_handle))"

text \<open>
  The deadline of \<open>cmr_msg_timedget\<close>.  \<open>sem_timedwait\<close> answers \<open>EINVAL\<close> at once when it has to
  wait with nanoseconds outside \<open>[0, 1000000000)\<close>; otherwise it fails at the deadline unless a
  post wakes it before, with the queue \<open>woken\<close>.
\<close>

definition CMR_MSG_POLLING_PERIOD :: int where "CMR_MSG_POLLING_PERIOD = 200000000"

definition poll_deadline :: "int \<times> int \<Rightarrow> int \<times> int" where
  "poll_deadline ts =
     (let (tv_sec, tv_nsec) = ts;
          tv_nsec = tv_nsec + CMR_MSG_POLLING_PERIOD
      in if 1000000000 < tv_nsec then (tv_sec + 1, tv_nsec - 1000000000) else (tv_sec, tv_nsec))"

text \<open>The locked section of \<open>cmr_msg_timedget\<close>: no \<open>cmr_priv\<close>, and the count always goes down.\<close>

definition timedget_locked :: "cmr_msg \<Rightarrow> cmr_msg_cxt \<Rightarrow> int \<times> cmr_msg \<times> nat option \<times> cmr_msg_cxt" where
  "timedget_locked message q =
     (if msg_number q = 0 then (CMR_MSG_UNDERFLOW, message, None, q)
      else
        let (message, msg_cur, q) =
              (if msg_read q \<noteq> msg_write q then
                 let cur = msg_read q;
                     message = slot_msg (msg_slots q ! cur);
                     q = q\<lparr>msg_slots := (msg_slots q)[cur := (msg_slots q ! cur)\<lparr>slot_msg := MSG_INIT\<rparr>]\<rparr>;
                     q = q\<lparr>msg_read := next_slot q (msg_read q)\<rparr>
                 in (message, Some cur, q)
               else (message, None, q))
        in (CMR_MSG_SUCCESS, message, msg_cur, q\<lparr>msg_number := msg_number q - 1\<rparr>))"

definition cmr_msg_timedget :: "int \<times> int \<Rightarrow> cmr_msg_cxt option \<Rightarrow> cmr_msg_cxt option \<Rightarrow> cmr_msg option \<Rightarrow>
    int \<times> cmr_msg option \<times> cmr_msg_cxt option" where
  "cmr_msg_timedget ts woken queue_handle message =
     (case (queue_handle, message) of
        (Some q, Some m) \<Rightarrow>
          if msg_magic q \<noteq> CMR_MSG_MAGIC_CODE then (CMR_MSG_INVALID_HANDLE, message, queue_handle)
          else if fst ts < 0 \<or> snd ts < 0 \<or> 1000000000 \<le> snd ts then (- CMR_MSG_PARAM_ERR, message, queue_handle)
          else
            (case (if 0 < msg_sem q then Some q
                   else if 1000000000 \<le> snd (poll_deadline ts) then None else woken) of
               None \<Rightarrow> (CMR_MSG_NO_OTHER_MSG, message, queue_handle)
             | Some q \<Rightarrow>
                 let q = q\<lparr>msg_sem := msg_sem q - 1\<rparr>;
                     (code, m, msg_cur, q) = timedget_locked m q
                 in if code = CMR_MSG_UNDERFLOW then (code, Some m, Some q)
                    else (CMR_MSG_SUCCESS, Some m, Some (notify_received msg_cur q)))
      | _ \<Rightarrow> (- CMR_MSG_PARAM_ERR, message, queue_handle))"

text \<open>The locked section of \<open>cmr_msg_post\<close>; \<open>ori_node\<close> is \<open>msg_write\<close> as read before the lock.\<close>

definition post_locked :: "nat \<Rightarrow> cmr_msg \<Rightarrow> cmr_msg_cxt \<Rightarrow> int \<times> nat option \<times> cmr_msg_cxt" where
  "post_locked ori_node message q =
     (if msg_count q \<le> msg_number q + 1 then (CMR_MSG_OVERFLOW, None, q)
      else
        let cur = msg_write q;
            q = q\<lparr>msg_slots := (msg_slots q)[cur := (msg_slots q ! cur)\<lparr>sync_f := sync_flag message, slot_msg := message\<rparr>]\<rparr>;
            q = q\<lparr>msg_write := next_slot q (msg_write q)\<rparr>;
            q = (if msg_write q = msg_read q then q\<lparr>msg_write := ori_node\<rparr> else q);
            q = q\<lparr>msg_number := msg_number q + 1\<rparr>
        in (CMR_MSG_SUCCESS, Some cur, q))"

text \<open>What remains after the call: to return a code, or to wait for the semaphore of a slot.\<close>

datatype post_result = Rtn int | WaitSlot nat

definition cmr_msg_post :: "cmr_msg_cxt option \<Rightarrow> cmr_msg option \<Rightarrow> post_result \<times> cmr_msg_cxt option" where
  "cmr_msg_post queue_handle message =
     (case (queue_handle, message) of
        (Some q, Some m) \<Rightarrow>
          if msg_magic q \<noteq> CMR_MSG_MAGIC_CODE then (Rtn CMR_MSG_INVALID_HANDLE, queue_handle)
          else
            (case post_locked (msg_write q) m q of
               (code, None, q) \<Rightarrow> (Rtn code, Some q)
             | (code, Some cur, q) \<Rightarrow>
                 let q = q\<lparr>msg_sem := msg_sem q + 1\<rparr>
                 in (if sync_f (msg_slots q ! cur) \<noteq> CMR_MSG_SYNC_NONE then WaitSlot cur else Rtn CMR_MSG_SUCCESS,
                     Some q))
      | _ \<Rightarrow> (Rtn (- CMR_MSG_PARAM_ERR), queue_handle))"

text \<open>The handle after the call: the context is freed, whatever the queue still holds.\<close>

definition cmr_msg_queue_destroy :: "cmr_msg_cxt option \<Rightarrow> int \<times> cmr_msg_cxt option" where
  "cmr_msg_queue_destroy queue_handle =
     (case queue_handle of
        None \<Rightarrow> (- CMR_MSG_PARAM_ERR, None)
      | Some q \<Rightarrow>
          if msg_magic q \<noteq> CMR_MSG_MAGIC_CODE then (CMR_MSG_INVALID_HANDLE, queue_handle)
          else (CMR_MSG_SUCCESS, None))"

section \<open>Worker threads\<close>

definition CMR_THREAD_MAGIC_CODE :: u32 where "CMR_THREAD_MAGIC_CODE = 0x5AA5FEEF"
definition CMR_THREAD_INIT_EVT :: u32 where "CMR_THREAD_INIT_EVT = 0x00FFFFFF"
definition CMR_THREAD_EXIT_EVT :: u32 where "CMR_THREAD_EXIT_EVT = 0x01FFFFFF"
definition CMR_THREAD_EXIT :: int where "CMR_THREAD_EXIT = 0x1000"

text \<open>
  One round of \<open>cmr_common_routine\<close> after \<open>cmr_msg_get\<close>: dispatch, wake the sender, free the data
  (\<open>freed\<close> collects the pointers), and whether the thread goes on.  \<open>proc_cb\<close> is the callback.
\<close>

definition dispatch :: "(cmr_msg \<Rightarrow> int) \<Rightarrow> cmr_msg \<Rightarrow> int" where
  "dispatch proc_cb message =
     (if msg_type message = CMR_THREAD_INIT_EVT then CMR_MSG_SUCCESS
      else if msg_type message = CMR_THREAD_EXIT_EVT then CMR_THREAD_EXIT
      else proc_cb message)"

definition notify_processed :: "cmr_msg \<Rightarrow> cmr_msg_cxt \<Rightarrow> cmr_msg_cxt" where
  "notify_processed message q =
     (case cmr_priv message of None \<Rightarrow> q
      | Some i \<Rightarrow> if sync_f (msg_slots q ! i) = CMR_MSG_SYNC_PROCESSED then slot_post i q else q)"

definition finish_round :: "(cmr_msg \<Rightarrow> int) \<Rightarrow> cmr_msg \<Rightarrow> cmr_msg_cxt \<Rightarrow> bool \<times> nat list \<times> cmr_msg_cxt" where
  "finish_round proc_cb message q =
     (dispatch proc_cb message \<noteq> CMR_THREAD_EXIT,
      if alloc_flag message \<noteq> 0 \<and> dat message \<noteq> 0 then [dat message] else [],
      notify_processed message q)"

text \<open>The routine on the messages that are there: until it has to wait or ends.\<close>

fun cmr_common_routine :: "nat \<Rightarrow> (cmr_msg \<Rightarrow> int) \<Rightarrow> cmr_msg \<Rightarrow> cmr_msg_cxt \<Rightarrow> bool \<times> nat list \<times> cmr_msg_cxt" where
  "cmr_common_routine 0 proc_cb message q = (True, [], q)"
| "cmr_common_routine (Suc fuel) proc_cb message q =
     (case cmr_msg_get (Some q) (Some message) of
        Returned (ret, Some message, Some q) \<Rightarrow>
          if ret \<noteq> 0 then (False, [], q)
          else
            (case finish_round proc_cb message q of
               (True, fr, q) \<Rightarrow>
                 (case cmr_common_routine fuel proc_cb message q of (run, fr', q) \<Rightarrow> (run, fr @ fr', q))
             | (False, fr, q) \<Rightarrow> (False, fr, q))
      | _ \<Rightarrow> (True, [], q))"

text \<open>
  A thread as its creator leaves it: the queue it works on (\<open>None\<close> once freed) and whether the
  POSIX thread runs.
\<close>

record cmr_thread =
  queue_handle :: "cmr_msg_cxt option"
  magic :: u32
  running :: bool

text \<open>
  \<open>cmr_thread_create\<close> up to the wait for the start message; \<open>mem\<close>, \<open>mem1\<close>, \<open>mem2\<close> are the results
  of the allocations and \<open>pt\<close> the one of \<open>pthread_create\<close>.  The result carries the thread structure
  also where the code has freed it, with \<open>queue_handle\<close> \<open>None\<close>.
\<close>

definition cmr_thread_create :: "nat \<Rightarrow> bool \<Rightarrow> bool \<Rightarrow> bool \<Rightarrow> int \<Rightarrow> nat \<Rightarrow> bool \<Rightarrow>
    (post_result \<times> cmr_thread option) outcome" where
  "cmr_thread_create slot_size mem mem1 mem2 pt queue_length has_cb =
     (if queue_length = 0 \<or> \<not> has_cb then Returned (Rtn CMR_MSG_PARAM_ERR, None)
      else if \<not> mem then Returned (Rtn CMR_MSG_NO_MEM, None)
      else
        and_then (cmr_msg_queue_create slot_size mem1 mem2 queue_length) (\<lambda>(rtn, q).
        if rtn \<noteq> 0 then Returned (Rtn rtn, None)
        else if pt \<noteq> 0 then Returned (Rtn pt, Some \<lparr>queue_handle = None, magic = CMR_THREAD_MAGIC_CODE, running = False\<rparr>)
        else
          let message = MSG_INIT\<lparr>msg_type := CMR_THREAD_INIT_EVT, sync_flag := CMR_MSG_SYNC_PROCESSED\<rparr>;
              (rtn, q) = cmr_msg_post q (Some message)
          in case rtn of
               Rtn r \<Rightarrow> Returned (rtn, Some \<lparr>queue_handle = if r \<noteq> 0 then None else q, magic = CMR_THREAD_MAGIC_CODE, running = True\<rparr>)
             | WaitSlot i \<Rightarrow> Returned (rtn, Some \<lparr>queue_handle = q, magic = CMR_THREAD_MAGIC_CODE, running = True\<rparr>)))"

definition cmr_thread_msg_send :: "cmr_thread option \<Rightarrow> cmr_msg option \<Rightarrow> post_result \<times> cmr_thread option" where
  "cmr_thread_msg_send thread_handle message =
     (case (thread_handle, message) of
        (Some t, Some m) \<Rightarrow>
          (case cmr_msg_post (queue_handle t) message of (ret, q) \<Rightarrow> (ret, Some (t\<lparr>queue_handle := q\<rparr>)))
      | _ \<Rightarrow> (Rtn CMR_MSG_PARAM_ERR, thread_handle))"

text \<open>
  The two halves of \<open>cmr_thread_destroy\<close>: the exit message, and what follows once its sender has
  been woken or the send has failed.
\<close>

definition cmr_thread_destroy_send :: "cmr_thread option \<Rightarrow> post_result \<times> cmr_thread option" where
  "cmr_thread_destroy_send thread_handle =
     cmr_thread_msg_send thread_handle
       (Some (MSG_INIT\<lparr>msg_type := CMR_THREAD_EXIT_EVT, sync_flag := CMR_MSG_SYNC_PROCESSED\<rparr>))"

definition cmr_thread_destroy_free :: "cmr_thread option \<Rightarrow> cmr_thread option" where
  "cmr_thread_destroy_free thread_handle =
     (case thread_handle of None \<Rightarrow> None
      | Some t \<Rightarrow> Some (t\<lparr>queue_handle := snd (cmr_msg_queue_destroy (queue_handle t))\<rparr>))"

section \<open>Posters and the worker\<close>

text \<open>
  Where a thread in \<open>cmr_msg_post\<close> with its message is: \<open>msg_write\<close> read, message stored,
  \<open>msg_sem\<close> posted, and waiting for the semaphore of its slot.
\<close>

datatype poster = Idle | Entered cmr_msg nat | Stored cmr_msg nat | Signalled cmr_msg nat | Blocked cmr_msg nat

datatype worker = Fetching | Processing cmr_msg | Stopped

record cmr_sys =
  que :: cmr_msg_cxt
  poster :: "nat \<Rightarrow> poster"
  worker :: worker

inductive cmr_step :: "(cmr_msg \<Rightarrow> int) \<Rightarrow> cmr_sys \<Rightarrow> cmr_sys \<Rightarrow> bool" for proc_cb where
  enter: "poster s p = Idle \<Longrightarrow>
    cmr_step proc_cb s (s\<lparr>poster := (poster s)(p := Entered m (msg_write (que s)))\<rparr>)"
| store: "poster s p = Entered m w \<Longrightarrow> post_locked w m (que s) = (code, Some cur, q) \<Longrightarrow>
    cmr_step proc_cb s (s\<lparr>que := q, poster := (poster s)(p := Stored m cur)\<rparr>)"
| overflow: "poster s p = Entered m w \<Longrightarrow> post_locked w m (que s) = (code, None, q) \<Longrightarrow>
    cmr_step proc_cb s (s\<lparr>que := q, poster := (poster s)(p := Idle)\<rparr>)"
| signal: "poster s p = Stored m i \<Longrightarrow>
    cmr_step proc_cb s (s\<lparr>que := (que s)\<lparr>msg_sem := msg_sem (que s) + 1\<rparr>, poster := (poster s)(p := Signalled m i)\<rparr>)"
| check: "poster s p = Signalled m i \<Longrightarrow>
    cmr_step proc_cb s (s\<lparr>poster := (poster s)(p :=
      if sync_f (msg_slots (que s) ! i) \<noteq> CMR_MSG_SYNC_NONE then Blocked m i else Idle)\<rparr>)"
| wake: "poster s p = Blocked m i \<Longrightarrow> 0 < slot_sem (msg_slots (que s) ! i) \<Longrightarrow>
    cmr_step proc_cb s (s\<lparr>que := (que s)\<lparr>msg_slots := (msg_slots (que s))[i := (msg_slots (que s) ! i)\<lparr>slot_sem := slot_sem (msg_slots (que s) ! i) - 1\<rparr>]\<rparr>,
      poster := (poster s)(p := Idle)\<rparr>)"
| fetch: "worker s = Fetching \<Longrightarrow> cmr_msg_get (Some (que s)) (Some m0) = Returned (ret, Some m, Some q) \<Longrightarrow>
    cmr_step proc_cb s (s\<lparr>que := q, worker := if ret \<noteq> 0 then Stopped else Processing m\<rparr>)"
| finish: "worker s = Processing m \<Longrightarrow> finish_round proc_cb m (que s) = (goes_on, fr, q) \<Longrightarrow>
    cmr_step proc_cb s (s\<lparr>que := q, worker := if goes_on then Fetching else Stopped\<rparr>)"

text \<open>A thread right after its creation, with nothing posted.\<close>

definition fresh_queue :: "nat \<Rightarrow> cmr_msg_cxt" where
  "fresh_queue count = \<lparr>msg_sem = 0, msg_count = count, msg_number = 0, msg_magic = CMR_MSG_MAGIC_CODE,
     msg_slots = replicate count zero_slot, msg_write = 0, msg_read = 0\<rparr>"

definition fresh_sys :: "nat \<Rightarrow> cmr_sys" where
  "fresh_sys count = \<lparr>que = fresh_queue count, poster = \<lambda>p. Idle, worker = Fetching\<rparr>"

section \<open>A bounded first-in first-out buffer\<close>

datatype 'm qop = Put 'm | Take
datatype 'm qans = Accepted | Full | Took 'm | Empty

fun run_queue :: "('m \<Rightarrow> 'q \<Rightarrow> 'q option) \<Rightarrow> ('q \<Rightarrow> ('m \<times> 'q) option) \<Rightarrow> 'm qop list \<Rightarrow> 'q \<Rightarrow> 'm qans list" where
  "run_queue put tak [] q = []"
| "run_queue put tak (Put m # ops) q =
     (case put m q of None \<Rightarrow> Full # run_queue put tak ops q
      | Some q' \<Rightarrow> Accepted # run_queue put tak ops q')"
| "run_queue put tak (Take # ops) q =
     (case tak q of None \<Rightarrow> Empty # run_queue put tak ops q
      | Some (m, q') \<Rightarrow> Took m # run_queue put tak ops q')"

definition list_put :: "nat \<Rightarrow> 'm \<Rightarrow> 'm list \<Rightarrow> 'm list option" where
  "list_put cap m ms = (if length ms < cap then Some (ms @ [m]) else None)"

definition list_take :: "'m list \<Rightarrow> ('m \<times> 'm list) option" where
  "list_take ms = (case ms of [] \<Rightarrow> None | m # ms \<Rightarrow> Some (m, ms))"

locale bounded_fifo =
  fixes put :: "'m \<Rightarrow> 'q \<Rightarrow> 'q option"
    and tak :: "'q \<Rightarrow> ('m \<times> 'q) option"
    and items :: "'q \<Rightarrow> 'm list"
    and cap :: "'q \<Rightarrow> nat"
    and inv :: "'q \<Rightarrow> bool"
  assumes put_full: "inv q \<Longrightarrow> cap q \<le> length (items q) \<Longrightarrow> put m q = None"
    and put_room: "inv q \<Longrightarrow> length (items q) < cap q \<Longrightarrow>
      \<exists>q'. put m q = Some q' \<and> inv q' \<and> cap q' = cap q \<and> items q' = items q @ [m]"
    and take_empty: "inv q \<Longrightarrow> items q = [] \<Longrightarrow> tak q = None"
    and take_first: "inv q \<Longrightarrow> items q = m # ms \<Longrightarrow>
      \<exists>q'. tak q = Some (m, q') \<and> inv q' \<and> cap q' = cap q \<and> items q' = ms"
begin

lemma refines_list:
  "inv q \<Longrightarrow> run_queue put tak ops q = run_queue (list_put (cap q)) list_take ops (items q)"
proof (induction ops arbitrary: q)
  case (Cons a ops)
  show ?case
  proof (cases a)
    case (Put m)
    show ?thesis
    proof (cases "length (items q) < cap q")
      case True
      then obtain q' where "put m q = Some q'" "inv q'" "cap q' = cap q" "items q' = items q @ [m]"
        using put_room [OF Cons.prems True] by blast
      then show ?thesis using Cons.IH [of q'] True by (simp add: Put list_put_def)
    next
      case False
      then show ?thesis using put_full [OF Cons.prems, of m] Cons.IH [OF Cons.prems] by (simp add: Put list_put_def)
    qed
  next
    case Take
    show ?thesis
    proof (cases "items q")
      case Nil
      then show ?thesis using take_empty [OF Cons.prems Nil] Cons.IH [OF Cons.prems] by (simp add: Take list_take_def)
    next
      case (Cons m ms)
      then obtain q' where "tak q = Some (m, q')" "inv q'" "cap q' = cap q" "items q' = ms"
        using take_first [OF Cons.prems Cons] by blast
      then show ?thesis using Cons.IH [of q'] Cons by (simp add: Take list_take_def)
    qed
  qed
qed simp

end

section \<open>The ring\<close>

definition ring_ok :: "cmr_msg_cxt \<Rightarrow> bool" where
  "ring_ok q = (msg_magic q = CMR_MSG_MAGIC_CODE \<and> length (msg_slots q) = msg_count q
     \<and> msg_read q < msg_count q \<and> msg_number q < msg_count q
     \<and> msg_write q = (msg_read q + msg_number q) mod msg_count q)"

text \<open>The slot of the \<open>k\<close>-th waiting message.\<close>

definition slot_at :: "cmr_msg_cxt \<Rightarrow> nat \<Rightarrow> nat" where
  "slot_at q k = (msg_read q + k) mod msg_count q"

lemma next_slot_mod: "p < msg_count q \<Longrightarrow> next_slot q p = (p + 1) mod msg_count q"
  by (auto simp: next_slot_def Let_def mod_if)

lemma mod_shift_inj:
  assumes "(r + a) mod n = (r + b) mod n" "a < n" "b < (n :: nat)"
  shows "a = b"
proof -
  have *: "a = b" if "a \<le> b" "(r + b) mod n = (r + a) mod n" "b < n" for a b
  proof -
    have "n dvd (r + b) - (r + a)" using that(1,2) by (subst mod_eq_dvd_iff_nat [symmetric]) auto
    then have "n dvd b - a" by simp
    then show ?thesis using that(1,3) by (metis diff_is_0_eq dvd_imp_le le_antisym less_imp_diff_less linorder_not_less zero_less_diff)
  qed
  show ?thesis using *[of a b] *[of b a] assms by (cases "a \<le> b") auto
qed

lemma slot_at_inj: "ring_ok q \<Longrightarrow> a < msg_count q \<Longrightarrow> b < msg_count q \<Longrightarrow> slot_at q a = slot_at q b \<longleftrightarrow> a = b"
  unfolding slot_at_def using mod_shift_inj by blast

lemma ring_facts:
  assumes "ring_ok q"
  shows "slot_at q 0 = msg_read q" "slot_at q (msg_number q) = msg_write q" "msg_write q < msg_count q"
    "slot_at q k < msg_count q" "slot_at q k < length (msg_slots q)"
    "msg_read q = msg_write q \<longleftrightarrow> msg_number q = 0"
proof -
  have c: "0 < msg_count q" using assms by (auto simp: ring_ok_def)
  show 1: "slot_at q 0 = msg_read q" "slot_at q (msg_number q) = msg_write q" "msg_write q < msg_count q"
    using assms c by (auto simp: ring_ok_def slot_at_def)
  show "slot_at q k < msg_count q" "slot_at q k < length (msg_slots q)"
    using assms c by (auto simp: ring_ok_def slot_at_def)
  show "msg_read q = msg_write q \<longleftrightarrow> msg_number q = 0"
    using slot_at_inj [OF assms, of 0 "msg_number q"] 1 assms by (auto simp: ring_ok_def)
qed

text \<open>The content of the ring as the users see it.\<close>

type_synonym payload = "u32 \<times> u32 \<times> nat \<times> u32 \<times> u32"

definition payload :: "cmr_msg \<Rightarrow> payload" where
  "payload m = (msg_type m, sub_msg_type m, dat m, alloc_flag m, sync_flag m)"

definition of_payload :: "payload \<Rightarrow> cmr_msg" where
  "of_payload pl = (case pl of (t, st, d, a, sy) \<Rightarrow>
     \<lparr>msg_type = t, sub_msg_type = st, dat = d, alloc_flag = a, sync_flag = sy, cmr_priv = None\<rparr>)"

lemma payload_of_payload [simp]: "payload (of_payload pl) = pl" "payload (m\<lparr>cmr_priv := x\<rparr>) = payload m"
  by (simp_all add: payload_def of_payload_def split: prod.split)

definition queued :: "cmr_msg_cxt \<Rightarrow> payload list" where
  "queued q = map (\<lambda>k. payload (slot_msg (msg_slots q ! slot_at q k))) [0..<msg_number q]"

lemma length_queued [simp]: "length (queued q) = msg_number q"
  by (simp add: queued_def)

text \<open>Storing a message, when there is room: the wrap-around to \<open>ori_node\<close> never happens.\<close>

definition stored :: "cmr_msg \<Rightarrow> cmr_msg_cxt \<Rightarrow> cmr_msg_cxt" where
  "stored m q = q\<lparr>msg_slots := (msg_slots q)[msg_write q := (msg_slots q ! msg_write q)\<lparr>sync_f := sync_flag m, slot_msg := m\<rparr>],
     msg_write := (msg_write q + 1) mod msg_count q, msg_number := msg_number q + 1\<rparr>"

lemma stored_simps [simp]:
  "msg_count (stored m q) = msg_count q" "msg_read (stored m q) = msg_read q" "msg_number (stored m q) = msg_number q + 1"
  "msg_sem (stored m q) = msg_sem q" "slot_at (stored m q) = slot_at q" "msg_magic (stored m q) = msg_magic q"
  by (simp_all add: stored_def slot_at_def fun_eq_iff)

lemma stored_ok:
  assumes "ring_ok q" "msg_number q + 1 < msg_count q"
  shows "ring_ok (stored m q)"
  using assms by (auto simp: ring_ok_def stored_def mod_Suc_eq mod_simps)

lemma post_locked_room:
  assumes "ring_ok q" "msg_number q + 1 < msg_count q"
  shows "post_locked w m q = (CMR_MSG_SUCCESS, Some (msg_write q), stored m q)"
proof -
  have "(msg_write q + 1) mod msg_count q \<noteq> msg_read q"
    using ring_facts(6) [OF stored_ok [OF assms, of m]] by (auto simp: stored_def)
  moreover have "next_slot (q\<lparr>msg_slots := ss\<rparr>) (msg_write q) = (msg_write q + 1) mod msg_count q" for ss
    using next_slot_mod [of "msg_write q" "q\<lparr>msg_slots := ss\<rparr>"] ring_facts(3) [OF assms(1)] by simp
  ultimately show ?thesis
    using assms(2) by (simp add: post_locked_def stored_def Let_def)
qed

lemma post_locked_full:
  "msg_count q \<le> msg_number q + 1 \<Longrightarrow> post_locked w m q = (CMR_MSG_OVERFLOW, None, q)"
  by (simp add: post_locked_def)

lemma post_locked_SomeD:
  assumes "ring_ok q" "post_locked w m q = (code, Some cur, q')"
  shows "msg_number q + 1 < msg_count q \<and> cur = msg_write q \<and> q' = stored m q"
  using post_locked_full [of q w m] post_locked_room [OF assms(1), of w m] assms(2)
  by (cases "msg_number q + 1 < msg_count q") auto

lemma post_locked_NoneD:
  assumes "ring_ok q" "post_locked w m q = (code, None, q')"
  shows "q' = q"
  using post_locked_full [of q w m] post_locked_room [OF assms(1), of w m] assms(2)
  by (cases "msg_number q + 1 < msg_count q") auto

lemma queued_stored:
  assumes "ring_ok q" "msg_number q + 1 < msg_count q"
  shows "queued (stored m q) = queued q @ [payload m]"
proof -
  have "msg_write q \<noteq> slot_at q k" if "k < msg_number q" for k
    using slot_at_inj [OF assms(1), of k "msg_number q"] ring_facts(2) [OF assms(1)] that assms(2) by auto
  moreover have "slot_at q (msg_number q) = msg_write q" "msg_write q < length (msg_slots q)"
    using ring_facts [OF assms(1)] assms(1) by (auto simp: ring_ok_def)
  ultimately show ?thesis
    by (auto simp: queued_def) (auto simp: stored_def)
qed

text \<open>Fetching the first message.\<close>

definition unqueued :: "cmr_msg_cxt \<Rightarrow> cmr_msg_cxt" where
  "unqueued q = q\<lparr>msg_slots := (msg_slots q)[msg_read q := (msg_slots q ! msg_read q)\<lparr>slot_msg := MSG_INIT\<rparr>],
     msg_read := (msg_read q + 1) mod msg_count q, msg_number := msg_number q - 1\<rparr>"

lemma nth_update_same:
  "f (g (xs ! j)) = f (xs ! j) \<Longrightarrow> f (xs[j := g (xs ! j)] ! i) = f (xs ! i)"
  by (cases "j < length xs"; cases "i = j") (simp_all add: list_update_beyond)

lemma unqueued_simps [simp]:
  "msg_count (unqueued q) = msg_count q" "msg_number (unqueued q) = msg_number q - 1"
  "msg_sem (unqueued q) = msg_sem q" "msg_magic (unqueued q) = msg_magic q"
  "sync_f (msg_slots (unqueued q) ! i) = sync_f (msg_slots q ! i)"
  by (simp_all add: unqueued_def nth_update_same [where g = "\<lambda>s. s\<lparr>slot_msg := MSG_INIT\<rparr>"])

lemma unqueued_ok:
  assumes "ring_ok q" "0 < msg_number q"
  shows "ring_ok (unqueued q)"
proof -
  have "(msg_read q + 1) mod msg_count q + (msg_number q - 1) = (msg_read q + 1) mod msg_count q + msg_number q - 1"
    using assms(2) by simp
  moreover have "((msg_read q + 1) mod msg_count q + (msg_number q - 1)) mod msg_count q = (msg_read q + msg_number q) mod msg_count q"
    using assms(2) by (subst mod_add_left_eq) simp
  ultimately show ?thesis using assms by (auto simp: ring_ok_def unqueued_def)
qed

lemma get_locked_some:
  assumes "ring_ok q" "0 < msg_number q"
  shows "get_locked m q = (CMR_MSG_SUCCESS, (slot_msg (msg_slots q ! msg_read q))\<lparr>cmr_priv := Some (msg_read q)\<rparr>,
    Some (msg_read q), unqueued q)"
proof -
  have "msg_read q \<noteq> msg_write q" using ring_facts(6) [OF assms(1)] assms(2) by simp
  moreover have "next_slot (q\<lparr>msg_slots := ss\<rparr>) (msg_read q) = (msg_read q + 1) mod msg_count q" for ss
    using next_slot_mod [of "msg_read q" "q\<lparr>msg_slots := ss\<rparr>"] assms(1) by (simp add: ring_ok_def)
  ultimately show ?thesis
    using assms(2) by (simp add: get_locked_def unqueued_def Let_def)
qed

lemma slot_at_unqueued: "slot_at (unqueued q) k = slot_at q (Suc k)"
  by (simp add: slot_at_def unqueued_def mod_simps)

lemma queued_unqueued:
  assumes "ring_ok q" "0 < msg_number q"
  shows "queued q = payload (slot_msg (msg_slots q ! msg_read q)) # queued (unqueued q)"
proof -
  have "msg_read q \<noteq> slot_at q (Suc k)" if "Suc k < msg_number q" for k
    using slot_at_inj [OF assms(1), of "Suc k" 0] ring_facts(1) [OF assms(1)] that assms(1) by (auto simp: ring_ok_def)
  then have "queued (unqueued q) = map (\<lambda>k. payload (slot_msg (msg_slots q ! slot_at q (Suc k)))) [0..<msg_number q - 1]"
    by (auto simp: queued_def slot_at_unqueued) (auto simp: unqueued_def)
  moreover have "[0..<msg_number q] = 0 # map Suc [0..<msg_number q - 1]"
    using assms(2) by (simp add: map_Suc_upt upt_conv_Cons)
  ultimately show ?thesis using ring_facts(1) [OF assms(1)] by (simp add: queued_def)
qed

section \<open>The queue is a bounded first-in first-out buffer\<close>

text \<open>The two calls as a user sees them: a post is accepted or not, a get delivers or has to wait.\<close>

definition cmr_put :: "payload \<Rightarrow> cmr_msg_cxt \<Rightarrow> cmr_msg_cxt option" where
  "cmr_put pl q =
     (case cmr_msg_post (Some q) (Some (of_payload pl)) of
        (Rtn code, q') \<Rightarrow> if code = CMR_MSG_SUCCESS then q' else None
      | (WaitSlot i, q') \<Rightarrow> q')"

definition cmr_take :: "cmr_msg_cxt \<Rightarrow> (payload \<times> cmr_msg_cxt) option" where
  "cmr_take q =
     (case cmr_msg_get (Some q) (Some MSG_INIT) of
        Returned (code, Some m, Some q') \<Rightarrow> if code = CMR_MSG_SUCCESS then Some (payload m, q') else None
      | _ \<Rightarrow> None)"

definition idle_ok :: "cmr_msg_cxt \<Rightarrow> bool" where
  "idle_ok q = (ring_ok q \<and> msg_sem q = msg_number q)"

lemma slot_post_simps [simp]:
  "msg_count (slot_post i q) = msg_count q" "msg_read (slot_post i q) = msg_read q"
  "msg_number (slot_post i q) = msg_number q" "msg_sem (slot_post i q) = msg_sem q"
  "msg_write (slot_post i q) = msg_write q" "msg_magic (slot_post i q) = msg_magic q"
  "length (msg_slots (slot_post i q)) = length (msg_slots q)"
  "slot_msg (msg_slots (slot_post i q) ! k) = slot_msg (msg_slots q ! k)"
  "sync_f (msg_slots (slot_post i q) ! k) = sync_f (msg_slots q ! k)"
  by (simp_all add: slot_post_def nth_update_same [where g = "\<lambda>s. s\<lparr>slot_sem := slot_sem s + 1\<rparr>", simplified])

lemma notify_simps [simp]:
  "msg_count (notify_received c q) = msg_count q" "msg_number (notify_received c q) = msg_number q"
  "msg_sem (notify_received c q) = msg_sem q" "msg_read (notify_received c q) = msg_read q"
  "sync_f (msg_slots (notify_received c q) ! k) = sync_f (msg_slots q ! k)"
  "slot_msg (msg_slots (notify_received c q) ! k) = slot_msg (msg_slots q ! k)"
  "ring_ok (notify_received c q) = ring_ok q" "queued (notify_received c q) = queued q"
  by (auto simp: notify_received_def ring_ok_def queued_def slot_at_def split: option.split)

lemma ring_ok_sem [simp]: "ring_ok (q\<lparr>msg_sem := n\<rparr>) = ring_ok q" "queued (q\<lparr>msg_sem := n\<rparr>) = queued q"
  by (simp_all add: ring_ok_def queued_def slot_at_def)

lemma unqueued_sem: "unqueued (q\<lparr>msg_sem := n\<rparr>) = (unqueued q)\<lparr>msg_sem := n\<rparr>"
  by (simp add: unqueued_def)

lemma cmr_msg_get_some:
  assumes "ring_ok q" "0 < msg_number q" "0 < msg_sem q"
  shows "cmr_msg_get (Some q) (Some m0) = Returned (CMR_MSG_SUCCESS,
    Some ((slot_msg (msg_slots q ! msg_read q))\<lparr>cmr_priv := Some (msg_read q)\<rparr>),
    Some (notify_received (Some (msg_read q)) ((unqueued q)\<lparr>msg_sem := msg_sem q - 1\<rparr>)))"
proof -
  have "get_locked m0 (q\<lparr>msg_sem := msg_sem q - 1\<rparr>) = (CMR_MSG_SUCCESS,
      (slot_msg (msg_slots q ! msg_read q))\<lparr>cmr_priv := Some (msg_read q)\<rparr>, Some (msg_read q), (unqueued q)\<lparr>msg_sem := msg_sem q - 1\<rparr>)"
    using get_locked_some [of "q\<lparr>msg_sem := msg_sem q - 1\<rparr>" m0] assms by (simp add: unqueued_sem)
  moreover have "msg_magic q = CMR_MSG_MAGIC_CODE" using assms(1) by (simp add: ring_ok_def)
  ultimately show ?thesis
    using assms(3) by (simp add: cmr_msg_get_def CMR_MSG_SUCCESS_def CMR_MSG_UNDERFLOW_def)
qed

lemma cmr_put_full: "idle_ok q \<Longrightarrow> msg_count q - 1 \<le> msg_number q \<Longrightarrow> cmr_put pl q = None"
  using post_locked_full [of q "msg_write q" "of_payload pl"]
  by (auto simp: cmr_put_def cmr_msg_post_def idle_ok_def ring_ok_def CMR_MSG_SUCCESS_def CMR_MSG_OVERFLOW_def)

lemma cmr_put_room:
  assumes "idle_ok q" "msg_number q < msg_count q - 1"
  shows "cmr_put pl q = Some ((stored (of_payload pl) q)\<lparr>msg_sem := msg_sem q + 1\<rparr>)"
proof -
  have "ring_ok q" "msg_number q + 1 < msg_count q" using assms by (auto simp: idle_ok_def)
  from post_locked_room [OF this, of "msg_write q" "of_payload pl"] this
  show ?thesis by (simp add: cmr_put_def cmr_msg_post_def ring_ok_def CMR_MSG_SUCCESS_def)
qed

interpretation cmr: bounded_fifo cmr_put cmr_take queued "\<lambda>q. msg_count q - 1" idle_ok
proof (unfold_locales, goal_cases)
  case (1 q m)
  then show ?case by (simp add: cmr_put_full)
next
  case (2 q m)
  then have "ring_ok q" "msg_number q + 1 < msg_count q" by (auto simp: idle_ok_def)
  then show ?case
    using 2 cmr_put_room [of q m] stored_ok [of q "of_payload m"] queued_stored [of q "of_payload m"]
    by (simp add: idle_ok_def)
next
  case (3 q)
  then have "msg_number q = 0" "msg_sem q = 0" "msg_magic q = CMR_MSG_MAGIC_CODE"
    using length_queued [of q] by (simp_all add: idle_ok_def ring_ok_def)
  then show ?case by (simp add: cmr_take_def cmr_msg_get_def)
next
  case (4 q m ms)
  then have n: "0 < msg_number q" "0 < msg_sem q" and r: "ring_ok q"
    using length_queued [of q] by (simp_all add: idle_ok_def)
  show ?case
    using 4 cmr_msg_get_some [OF r n, of MSG_INIT] queued_unqueued [OF r n(1)] unqueued_ok [OF r n(1)]
    by (simp add: cmr_take_def idle_ok_def)
qed

lemma fresh_idle: "0 < count \<Longrightarrow> idle_ok (fresh_queue count) \<and> queued (fresh_queue count) = [] \<and> msg_count (fresh_queue count) = count"
  by (simp add: idle_ok_def ring_ok_def fresh_queue_def queued_def)

lemma create_fresh:
  assumes "0 < count" "count * slot_size < 2 ^ 32"
  shows "cmr_msg_queue_create slot_size True True count = Returned (CMR_MSG_SUCCESS, Some (fresh_queue count))"
  using assms by (simp add: cmr_msg_queue_create_def fresh_queue_def)

text \<open>C34. A queue from \<open>cmr_msg_queue_create\<close> with \<open>count\<close> slots implements a first-in first-out
  buffer of \<open>count - 1\<close> messages: for every sequence of posts and gets, the posts that are accepted
  or overflow and the messages delivered are those of the list specification.\<close>

theorem cmr_queue_fifo:
  assumes "cmr_msg_queue_create slot_size mem1 mem2 count = Returned (CMR_MSG_SUCCESS, Some q)"
  shows "run_queue cmr_put cmr_take ops q = run_queue (list_put (count - 1)) list_take ops []"
proof -
  have "0 < count" "q = fresh_queue count"
    using assms by (auto simp: cmr_msg_queue_create_def fresh_queue_def CMR_MSG_SUCCESS_def CMR_MSG_PARAM_ERR_def CMR_MSG_NO_MEM_def split: if_splits)
  then show ?thesis using cmr.refines_list [of q ops] fresh_idle [of count] by simp
qed

theorem cmr_queue_fifo_witness:
  "run_queue cmr_put cmr_take [Put (1, 0, 0, 0, 0), Put (2, 0, 0, 0, 1), Put (3, 0, 0, 0, 0), Take, Take, Take] (fresh_queue 3)
    = run_queue (list_put (3 - 1)) list_take [Put (1, 0, 0, 0, 0), Put (2, 0, 0, 0, 1), Put (3, 0, 0, 0, 0), Take, Take, Take] []"
  by (rule cmr_queue_fifo [of 32 True True]) (simp add: create_fresh)

section \<open>The slot of the message being processed\<close>

definition unsignalled :: "cmr_sys \<Rightarrow> nat set" where
  "unsignalled s = {p. \<exists>m i. poster s p = Stored m i}"

definition slots_ok :: "cmr_msg_cxt \<Rightarrow> bool" where
  "slots_ok q = (\<forall>k<msg_number q. sync_f (msg_slots q ! slot_at q k) = sync_flag (slot_msg (msg_slots q ! slot_at q k)))"

text \<open>The message was taken from the slot before \<open>msg_read\<close>, which still has its synchronisation flag.\<close>

definition holds_slot :: "cmr_msg \<Rightarrow> cmr_msg_cxt \<Rightarrow> bool" where
  "holds_slot m q = (case cmr_priv m of None \<Rightarrow> False
     | Some i \<Rightarrow> i < msg_count q \<and> (i + 1) mod msg_count q = msg_read q \<and> sync_f (msg_slots q ! i) = sync_flag m)"

definition sys_ok :: "cmr_sys \<Rightarrow> bool" where
  "sys_ok s = (ring_ok (que s) \<and> slots_ok (que s) \<and> finite (unsignalled s)
     \<and> msg_sem (que s) + card (unsignalled s) = msg_number (que s)
     \<and> (\<forall>m. worker s = Processing m \<longrightarrow> holds_slot m (que s)))"

lemma slots_ok_stored:
  assumes "ring_ok q" "msg_number q + 1 < msg_count q" "slots_ok q"
  shows "slots_ok (stored m q)"
proof -
  have "msg_write q \<noteq> slot_at q k" if "k < msg_number q" for k
    using slot_at_inj [OF assms(1), of k "msg_number q"] ring_facts(2) [OF assms(1)] that assms(2) by auto
  moreover have "slot_at q (msg_number q) = msg_write q" "msg_write q < length (msg_slots q)"
    using ring_facts [OF assms(1)] assms(1) by (auto simp: ring_ok_def)
  ultimately show ?thesis
    using assms(3) by (auto simp: slots_ok_def less_Suc_eq) (auto simp: stored_def)
qed

lemma slots_ok_unqueued:
  assumes "ring_ok q" "0 < msg_number q" "slots_ok q"
  shows "slots_ok (unqueued q)"
proof -
  have "msg_read q \<noteq> slot_at q (Suc k)" if "Suc k < msg_number q" for k
    using slot_at_inj [OF assms(1), of "Suc k" 0] ring_facts(1) [OF assms(1)] that assms(1) by (auto simp: ring_ok_def)
  then show ?thesis
    using assms(2,3) by (auto simp: slots_ok_def slot_at_unqueued) (auto simp: unqueued_def)
qed

lemma holds_slot_stored:
  assumes "ring_ok q" "msg_number q + 1 < msg_count q" "holds_slot m q"
  shows "holds_slot m (stored m' q)"
proof -
  have "(msg_write q + 1) mod msg_count q \<noteq> msg_read q"
    using ring_facts(6) [OF stored_ok [OF assms(1,2), of m]] by (auto simp: stored_def)
  then have "sync_f (msg_slots (stored m' q) ! i) = sync_f (msg_slots q ! i)" if "cmr_priv m = Some i" for i
    using assms(3) that by (cases "i = msg_write q") (auto simp: holds_slot_def stored_def)
  then show ?thesis using assms(3) by (auto simp: holds_slot_def split: option.splits)
qed

lemma fetch_ok:
  assumes "sys_ok s" "cmr_msg_get (Some (que s)) (Some m0) = Returned (ret, Some m, Some q)"
  shows "ret = 0" "ring_ok q" "slots_ok q" "holds_slot m q" "msg_number q = msg_number (que s) - 1"
    "msg_sem q = msg_sem (que s) - 1" "0 < msg_sem (que s)"
proof -
  have r: "ring_ok (que s)" and so: "slots_ok (que s)" using assms(1) by (auto simp: sys_ok_def)
  then have "msg_magic (que s) = CMR_MSG_MAGIC_CODE" by (simp add: ring_ok_def)
  then show sem: "0 < msg_sem (que s)" using assms(2) by (auto simp: cmr_msg_get_def split: if_splits)
  then have n: "0 < msg_number (que s)" using assms(1) by (simp add: sys_ok_def)
  let ?q = "que s"
  have eq: "ret = CMR_MSG_SUCCESS" "m = (slot_msg (msg_slots ?q ! msg_read ?q))\<lparr>cmr_priv := Some (msg_read ?q)\<rparr>"
    "q = notify_received (Some (msg_read ?q)) ((unqueued ?q)\<lparr>msg_sem := msg_sem ?q - 1\<rparr>)"
    using cmr_msg_get_some [OF r n sem, of m0] assms(2) by simp_all
  show "ret = 0" by (simp add: eq(1) CMR_MSG_SUCCESS_def)
  show "ring_ok q" "msg_number q = msg_number ?q - 1" "msg_sem q = msg_sem ?q - 1"
    using unqueued_ok [OF r n] by (simp_all add: eq(3))
  show "slots_ok q" using slots_ok_unqueued [OF r n so] by (simp add: eq(3) slots_ok_def slot_at_def)
  have "msg_read ?q < msg_count ?q" "slot_at ?q 0 = msg_read ?q" using r ring_facts(1) [OF r] by (simp_all add: ring_ok_def)
  moreover have "sync_f (msg_slots ?q ! slot_at ?q 0) = sync_flag (slot_msg (msg_slots ?q ! slot_at ?q 0))"
    using so n unfolding slots_ok_def by blast
  ultimately show "holds_slot m q"
    by (simp add: eq(2,3) holds_slot_def) (simp add: unqueued_def)
qed

lemma slot_post_ok [simp]:
  "ring_ok (slot_post i q) = ring_ok q" "slots_ok (slot_post i q) = slots_ok q" "holds_slot m (slot_post i q) = holds_slot m q"
  by (simp_all add: ring_ok_def slots_ok_def holds_slot_def slot_at_def split: option.split)

lemma notify_processed_simps [simp]:
  "ring_ok (notify_processed m q) = ring_ok q" "slots_ok (notify_processed m q) = slots_ok q"
  "msg_sem (notify_processed m q) = msg_sem q" "msg_number (notify_processed m q) = msg_number q"
  by (auto simp: notify_processed_def split: option.split)

lemma sem_wait_slot:
  fixes q :: cmr_msg_cxt and i n :: nat
  defines "q' \<equiv> q\<lparr>msg_slots := (msg_slots q)[i := (msg_slots q ! i)\<lparr>slot_sem := n\<rparr>]\<rparr>"
  shows "ring_ok q' = ring_ok q" "slots_ok q' = slots_ok q" "holds_slot m q' = holds_slot m q"
proof -
  have "sync_f (msg_slots q' ! k) = sync_f (msg_slots q ! k)" "slot_msg (msg_slots q' ! k) = slot_msg (msg_slots q ! k)" for k
    by (simp_all add: q'_def nth_update_same [where g = "\<lambda>s. s\<lparr>slot_sem := n\<rparr>"])
  moreover have "slot_at q' = slot_at q" "msg_count q' = msg_count q" "msg_read q' = msg_read q" "msg_number q' = msg_number q"
    "msg_magic q' = msg_magic q" "msg_write q' = msg_write q" "length (msg_slots q') = length (msg_slots q)"
    by (simp_all add: q'_def slot_at_def fun_eq_iff)
  ultimately show "slots_ok q' = slots_ok q" "holds_slot m q' = holds_slot m q" "ring_ok q' = ring_ok q"
    by (simp_all only: slots_ok_def holds_slot_def ring_ok_def)
qed

lemma sem_ok: "slots_ok (q\<lparr>msg_sem := n\<rparr>) = slots_ok q" "holds_slot m (q\<lparr>msg_sem := n\<rparr>) = holds_slot m q"
  by (simp_all add: slots_ok_def holds_slot_def slot_at_def split: option.split)

lemma unsignalled_other:
  assumes "\<nexists>m i. poster s p = Stored m i" "\<nexists>m i. x = Stored m i"
  shows "{p'. \<exists>m i. ((poster s)(p := x)) p' = Stored m i} = unsignalled s"
  using assms by (auto simp: unsignalled_def)

lemma cmr_step_ok: "cmr_step proc_cb s s' \<Longrightarrow> sys_ok s \<Longrightarrow> sys_ok s'"
proof (induction rule: cmr_step.induct)
  case (enter s p m)
  then show ?case using unsignalled_other [of s p "Entered m (msg_write (que s))"] by (simp add: sys_ok_def unsignalled_def)
next
  case (store s p m w code cur q)
  from store.prems have r: "ring_ok (que s)" by (simp add: sys_ok_def)
  from post_locked_SomeD [OF r store.hyps(2)] have room: "msg_number (que s) + 1 < msg_count (que s)" and q: "q = stored m (que s)"
    by simp_all
  have "{p'. \<exists>m' i. ((poster s)(p := Stored m cur)) p' = Stored m' i} = insert p (unsignalled s)"
    by (auto simp: unsignalled_def)
  moreover have "p \<notin> unsignalled s" using store.hyps(1) by (simp add: unsignalled_def)
  ultimately show ?case
    using store.prems stored_ok [OF r room] slots_ok_stored [OF r room] holds_slot_stored [OF r room]
    by (simp add: sys_ok_def q) (simp add: unsignalled_def)
next
  case (overflow s p m w code q)
  from overflow.prems have r: "ring_ok (que s)" by (simp add: sys_ok_def)
  from post_locked_NoneD [OF r overflow.hyps(2)] have "q = que s" .
  then show ?case
    using overflow unsignalled_other [of s p Idle] by (simp add: sys_ok_def unsignalled_def)
next
  case (signal s p m i)
  have "{p'. \<exists>m' i'. ((poster s)(p := Signalled m i)) p' = Stored m' i'} = unsignalled s - {p}"
    by (auto simp: unsignalled_def)
  moreover have "p \<in> unsignalled s" using signal.hyps by (auto simp: unsignalled_def)
  then have "Suc (card (unsignalled s - {p})) = card (unsignalled s)"
    using signal.prems by (intro card_Suc_Diff1) (simp_all add: sys_ok_def)
  ultimately show ?case
    using signal.prems by (simp add: sys_ok_def sem_ok unsignalled_def [of "_\<lparr>que := _, poster := _\<rparr>"])
next
  case (check s p m i)
  then show ?case
    using unsignalled_other [of s p "Blocked m i"] unsignalled_other [of s p Idle]
    by (simp add: sys_ok_def unsignalled_def)
next
  case (wake s p m i)
  then show ?case
    using unsignalled_other [of s p Idle] by (simp add: sys_ok_def sem_wait_slot) (simp add: unsignalled_def)
next
  case (fetch s m0 ret m q)
  then show ?case
    using fetch_ok [OF fetch.prems fetch.hyps(2)] by (auto simp: sys_ok_def unsignalled_def)
next
  case (finish s m goes_on fr q)
  then show ?case by (auto simp: sys_ok_def finish_round_def unsignalled_def split: if_splits)
qed

lemma cmr_reach_ok: "(cmr_step proc_cb)\<^sup>*\<^sup>* s s' \<Longrightarrow> sys_ok s \<Longrightarrow> sys_ok s'"
  by (induction rule: rtranclp_induct) (auto intro: cmr_step_ok)

lemma cmr_step_count: "cmr_step proc_cb s s' \<Longrightarrow> sys_ok s \<Longrightarrow> msg_count (que s') = msg_count (que s)"
proof (induction rule: cmr_step.induct)
  case (store s p m w code cur q)
  then have "ring_ok (que s)" by (simp add: sys_ok_def)
  from post_locked_SomeD [OF this store.hyps(2)] show ?case by simp
next
  case (overflow s p m w code q)
  then have "ring_ok (que s)" by (simp add: sys_ok_def)
  from post_locked_NoneD [OF this overflow.hyps(2)] show ?case by simp
next
  case (fetch s m0 ret m q)
  have "0 < msg_sem (que s)" "ring_ok (que s)" "0 < msg_number (que s)"
    using fetch_ok [OF fetch.prems fetch.hyps(2)] fetch.prems by (auto simp: sys_ok_def)
  with cmr_msg_get_some [of "que s" m0] fetch.hyps(2) show ?case by auto
next
  case (finish s m goes_on fr q)
  then show ?case by (auto simp: finish_round_def notify_processed_def split: option.splits if_splits)
qed simp_all

lemma cmr_reach_count: "(cmr_step proc_cb)\<^sup>*\<^sup>* s s' \<Longrightarrow> sys_ok s \<Longrightarrow> msg_count (que s') = msg_count (que s)"
  by (induction rule: rtranclp_induct) (auto dest: cmr_step_count cmr_reach_ok)

lemma fresh_sys_ok: "0 < count \<Longrightarrow> sys_ok (fresh_sys count)"
  using fresh_idle [of count] by (auto simp: sys_ok_def fresh_sys_def unsignalled_def slots_ok_def idle_ok_def fresh_queue_def)

text \<open>C35. In every interleaving of posters with the worker, the slot a message was taken from keeps
  its synchronisation flag while the message is processed, since one slot of the ring always stays
  free.  So a sender that waits for its message to be processed gets its semaphore posted when the
  worker finishes it.\<close>

theorem cmr_sender_notified:
  assumes "(cmr_step proc_cb)\<^sup>*\<^sup>* (fresh_sys count) s" "0 < count" "worker s = Processing m"
  shows "\<exists>i<count. cmr_priv m = Some i \<and> sync_f (msg_slots (que s) ! i) = sync_flag m
    \<and> (sync_flag m = CMR_MSG_SYNC_PROCESSED \<longrightarrow>
        slot_sem (msg_slots (snd (snd (finish_round proc_cb m (que s)))) ! i) = slot_sem (msg_slots (que s) ! i) + 1)"
proof -
  have ok: "sys_ok s" using cmr_reach_ok [OF assms(1) fresh_sys_ok [OF assms(2)]] .
  have c: "msg_count (que s) = count"
    using cmr_reach_count [OF assms(1) fresh_sys_ok [OF assms(2)]] by (simp add: fresh_sys_def fresh_queue_def)
  obtain i where i: "cmr_priv m = Some i" "i < count" "sync_f (msg_slots (que s) ! i) = sync_flag m"
    using ok assms(3) c by (auto simp: sys_ok_def holds_slot_def split: option.splits)
  moreover have "i < length (msg_slots (que s))" using ok i(2) c by (simp add: sys_ok_def ring_ok_def)
  ultimately show ?thesis
    by (intro exI [of _ i]) (simp add: finish_round_def notify_processed_def slot_post_def)
qed

section \<open>A late look at the synchronisation flag\<close>

text \<open>Schedules, to exhibit interleavings.\<close>

datatype act = AEnter nat cmr_msg | AStore nat | ASignal nat | ACheck nat | AWake nat | AFetch | AFinish

fun perform :: "(cmr_msg \<Rightarrow> int) \<Rightarrow> act \<Rightarrow> cmr_sys \<Rightarrow> cmr_sys option" where
  "perform cb (AEnter p m) s = (case poster s p of
     Idle \<Rightarrow> Some (s\<lparr>poster := (poster s)(p := Entered m (msg_write (que s)))\<rparr>) | _ \<Rightarrow> None)"
| "perform cb (AStore p) s = (case poster s p of
     Entered m w \<Rightarrow> (case post_locked w m (que s) of
       (code, Some cur, q) \<Rightarrow> Some (s\<lparr>que := q, poster := (poster s)(p := Stored m cur)\<rparr>) | _ \<Rightarrow> None) | _ \<Rightarrow> None)"
| "perform cb (ASignal p) s = (case poster s p of
     Stored m i \<Rightarrow> Some (s\<lparr>que := (que s)\<lparr>msg_sem := msg_sem (que s) + 1\<rparr>, poster := (poster s)(p := Signalled m i)\<rparr>) | _ \<Rightarrow> None)"
| "perform cb (ACheck p) s = (case poster s p of
     Signalled m i \<Rightarrow> Some (s\<lparr>poster := (poster s)(p :=
       if sync_f (msg_slots (que s) ! i) \<noteq> CMR_MSG_SYNC_NONE then Blocked m i else Idle)\<rparr>) | _ \<Rightarrow> None)"
| "perform cb (AWake p) s = (case poster s p of
     Blocked m i \<Rightarrow> if 0 < slot_sem (msg_slots (que s) ! i)
       then Some (s\<lparr>que := (que s)\<lparr>msg_slots := (msg_slots (que s))[i := (msg_slots (que s) ! i)\<lparr>slot_sem := slot_sem (msg_slots (que s) ! i) - 1\<rparr>]\<rparr>,
         poster := (poster s)(p := Idle)\<rparr>) else None | _ \<Rightarrow> None)"
| "perform cb AFetch s = (case worker s of
     Fetching \<Rightarrow> (case cmr_msg_get (Some (que s)) (Some MSG_INIT) of
       Returned (ret, Some m, Some q) \<Rightarrow> Some (s\<lparr>que := q, worker := if ret \<noteq> 0 then Stopped else Processing m\<rparr>) | _ \<Rightarrow> None) | _ \<Rightarrow> None)"
| "perform cb AFinish s = (case worker s of
     Processing m \<Rightarrow> (case finish_round cb m (que s) of
       (goes_on, fr, q) \<Rightarrow> Some (s\<lparr>que := q, worker := if goes_on then Fetching else Stopped\<rparr>)) | _ \<Rightarrow> None)"

lemma perform_step:
  assumes "perform cb a s = Some s'"
  shows "cmr_step cb s s'"
proof (cases a)
  case (ACheck p)
  then obtain m i where p: "poster s p = Signalled m i" using assms by (auto split: poster.splits)
  from cmr_step.check [OF p] show ?thesis using assms ACheck p by (simp only: perform.simps poster.case option.inject)
next
  case AFetch
  then obtain ret m q where w: "worker s = Fetching" and g: "cmr_msg_get (Some (que s)) (Some MSG_INIT) = Returned (ret, Some m, Some q)"
    using assms by (auto split: worker.splits outcome.splits option.splits)
  from cmr_step.fetch [OF w g] show ?thesis
    using assms AFetch w g by (simp only: perform.simps worker.case outcome.case prod.case option.case option.inject)
next
  case AFinish
  then obtain m where w: "worker s = Processing m" using assms by (auto split: worker.splits)
  obtain go fr q where f: "finish_round cb m (que s) = (go, fr, q)" by (metis prod_cases3)
  from cmr_step.finish [OF w f] show ?thesis
    using assms AFinish w f by (simp only: perform.simps worker.case prod.case option.inject)
qed (use assms in \<open>auto split: poster.splits worker.splits prod.splits option.splits if_split_asm
      simp del: One_nat_def add_Suc_right simp: Suc_eq_plus1 intro: cmr_step.intros\<close>)

fun performs :: "(cmr_msg \<Rightarrow> int) \<Rightarrow> act list \<Rightarrow> cmr_sys \<Rightarrow> cmr_sys option" where
  "performs cb [] s = Some s"
| "performs cb (a # as) s = (case perform cb a s of None \<Rightarrow> None | Some s' \<Rightarrow> performs cb as s')"

lemma performs_reach: "performs cb as s = Some s' \<Longrightarrow> (cmr_step cb)\<^sup>*\<^sup>* s s'"
  by (induction as arbitrary: s) (auto split: option.splits dest: perform_step intro: converse_rtranclp_into_rtranclp)

definition async_msg :: cmr_msg where "async_msg = MSG_INIT\<lparr>msg_type := 1\<rparr>"
definition sync_msg :: cmr_msg where "sync_msg = MSG_INIT\<lparr>msg_type := 2, sync_flag := CMR_MSG_SYNC_PROCESSED\<rparr>"

definition late_check :: "act list" where
  "late_check =
     [AEnter 0 async_msg, AStore 0, ASignal 0, AFetch, AFinish,
      AEnter 1 async_msg, AStore 1, ASignal 1, ACheck 1, AFetch, AFinish,
      AEnter 1 sync_msg, AStore 1, ASignal 1, ACheck 1, ACheck 0, AFetch, AFinish, AWake 0]"

lemmas schedule_defs = fresh_sys_def fresh_queue_def post_locked_def cmr_msg_get_def get_locked_def next_slot_def
  finish_round_def notify_processed_def notify_received_def slot_post_def dispatch_def zero_slot_def
  async_msg_def sync_msg_def MSG_INIT_def CMR_MSG_SUCCESS_def CMR_MSG_UNDERFLOW_def CMR_THREAD_EXIT_def
  CMR_THREAD_INIT_EVT_def CMR_THREAD_EXIT_EVT_def CMR_MSG_SYNC_NONE_def CMR_MSG_SYNC_RECEIVED_def CMR_MSG_SYNC_PROCESSED_def

lemma two_slots: "replicate 2 x = [x, x]"
  by (simp add: numeral_2_eq_2)

lemma late_check_runs:
  "case performs (\<lambda>m. 0) late_check (fresh_sys 2) of None \<Rightarrow> False
   | Some s \<Rightarrow> slot_sem (msg_slots (que s) ! 0) = 0 \<and> msg_number (que s) = 0 \<and> worker s = Fetching
       \<and> poster s = (\<lambda>p. Idle)(1 := Blocked sync_msg 0)"
  by (simp add: late_check_def schedule_defs two_slots) (rule ext, simp)

definition demo_busy :: cmr_sys where
  "demo_busy = the (performs (\<lambda>m. 0) [AEnter 0 sync_msg, AStore 0, ASignal 0, AFetch] (fresh_sys 2))"

lemma demo_busy: "performs (\<lambda>m. 0) [AEnter 0 sync_msg, AStore 0, ASignal 0, AFetch] (fresh_sys 2) = Some demo_busy"
  "worker demo_busy = Processing (sync_msg\<lparr>cmr_priv := Some 0\<rparr>)"
  unfolding demo_busy_def by (simp_all add: schedule_defs two_slots)

theorem cmr_sender_notified_witness:
  "\<exists>i<2. cmr_priv (sync_msg\<lparr>cmr_priv := Some 0\<rparr>) = Some i
    \<and> sync_f (msg_slots (que demo_busy) ! i) = sync_flag (sync_msg\<lparr>cmr_priv := Some 0\<rparr>)
    \<and> (sync_flag (sync_msg\<lparr>cmr_priv := Some 0\<rparr>) = CMR_MSG_SYNC_PROCESSED \<longrightarrow>
        slot_sem (msg_slots (snd (snd (finish_round (\<lambda>m. 0) (sync_msg\<lparr>cmr_priv := Some 0\<rparr>) (que demo_busy)))) ! i)
          = slot_sem (msg_slots (que demo_busy) ! i) + 1)"
  by (rule cmr_sender_notified [OF performs_reach [OF demo_busy(1)] _ demo_busy(2)]) simp

text \<open>C36. A post reads the synchronisation flag of its slot after it has released the lock.  There is
  a schedule on a queue of two slots in which a late asynchronous post finds the flag of a later
  message there, waits for that message and takes its wake-up: in the end the sender of the
  synchronous message waits although its message has been processed, nothing is queued and no other
  thread is in a call.\<close>

theorem cmr_lost_wakeup:
  "\<exists>s. (cmr_step (\<lambda>m. 0))\<^sup>*\<^sup>* (fresh_sys 2) s \<and> poster s = (\<lambda>p. Idle)(1 := Blocked sync_msg 0)
     \<and> slot_sem (msg_slots (que s) ! 0) = 0 \<and> msg_number (que s) = 0 \<and> worker s = Fetching"
  using late_check_runs performs_reach by (fastforce split: option.splits)

text \<open>
  Three calls at their limits: a thread with a queue of one slot cannot be started, and its
  creator frees the queue the new thread waits on; a full queue is destroyed under the worker; and
  a poll that starts 800 ms into a second ends at once.
\<close>

lemma cmr_thread_create_one_slot:
  assumes "slot_size < 2 ^ 32"
  shows "cmr_thread_create slot_size True True True 0 1 True = Returned (Rtn CMR_MSG_OVERFLOW,
    Some \<lparr>queue_handle = None, magic = CMR_THREAD_MAGIC_CODE, running = True\<rparr>)"
  using assms by (simp add: cmr_thread_create_def cmr_msg_queue_create_def cmr_msg_post_def post_locked_def CMR_MSG_SUCCESS_def CMR_MSG_OVERFLOW_def)

lemma cmr_thread_destroy_full:
  assumes "queue_handle t = Some q" "ring_ok q" "msg_count q = msg_number q + 1" "running t"
  shows "cmr_thread_destroy_send (Some t) = (Rtn CMR_MSG_OVERFLOW, Some t)
    \<and> (\<exists>t'. cmr_thread_destroy_free (Some t) = Some t' \<and> queue_handle t' = None \<and> running t')"
  using assms by (simp add: cmr_thread_destroy_send_def cmr_thread_msg_send_def cmr_msg_post_def post_locked_def
      cmr_thread_destroy_free_def cmr_msg_queue_destroy_def ring_ok_def)

lemma cmr_msg_timedget_boundary:
  assumes "msg_magic q = CMR_MSG_MAGIC_CODE" "msg_sem q = 0" "0 \<le> sec"
  shows "cmr_msg_timedget (sec, 800000000) woken (Some q) (Some m) = (CMR_MSG_NO_OTHER_MSG, Some m, Some q)"
  using assms by (simp add: cmr_msg_timedget_def poll_deadline_def CMR_MSG_POLLING_PERIOD_def)

end
