(* ===== verification/WcndSm.thy ===== *)
theory WcndSm
  imports Prelude
begin

text \<open>
  The state machine of the WLAN/Bluetooth/FM co-processor daemon,
  \<^verbatim>\<open>src/apps/wcnd/wcnd_sm.c\<close>, with the client table and the notifications of
  \<^verbatim>\<open>src/apps/wcnd/wcnd.c\<close> it works on, in the configuration of \<^verbatim>\<open>src/apps/wcnd/wcnd_config.h\<close>.

  The manager record has the fields of \<open>WcndManager\<close> that take part, and five that stand for its
  sockets and devices: \<open>selfcmd_stream\<close> are the bytes written to \<open>selfcmd_sockets[0]\<close> and not yet
  read from \<open>selfcmd_sockets[1]\<close> (a stream socket pair), \<open>broken\<close> the client sockets whose writes
  fail, \<open>outbox\<close> the messages sent to clients so far, \<open>download_log\<close> the commands sent to the download
  service and \<open>atcmd_log\<close> the ones written to the AT interface.
\<close>

section \<open>States, events, clients\<close>

datatype wcnd_state =
    WCND_STATE_CP2_STARTED | WCND_STATE_CP2_STARTING | WCND_STATE_CP2_STOPPED
  | WCND_STATE_CP2_STOPPING | WCND_STATE_CP2_ASSERT

definition WCND_EVENT_BT_OPEN :: u32 where "WCND_EVENT_BT_OPEN = 0x0001"
definition WCND_EVENT_WIFI_OPEN :: u32 where "WCND_EVENT_WIFI_OPEN = 0x0002"
definition WCND_EVENT_BT_CLOSE :: u32 where "WCND_EVENT_BT_CLOSE = 0x0004"
definition WCND_EVENT_WIFI_CLOSE :: u32 where "WCND_EVENT_WIFI_CLOSE = 0x0008"
definition WCND_EVENT_CP2_OK :: u32 where "WCND_EVENT_CP2_OK = 0x0010"
definition WCND_EVENT_CP2_ASSERT :: u32 where "WCND_EVENT_CP2_ASSERT = 0x0020"
definition WCND_EVENT_CP2_DOWN :: u32 where "WCND_EVENT_CP2_DOWN = 0x0040"
definition WCND_EVENT_PENGING_EVENT :: u32 where "WCND_EVENT_PENGING_EVENT = 0x0080"
definition WCND_EVENT_CP2POWERON_REQ :: u32 where "WCND_EVENT_CP2POWERON_REQ = 0x0100"
definition WCND_EVENT_CP2POWEROFF_REQ :: u32 where "WCND_EVENT_CP2POWEROFF_REQ = 0x0200"

definition WCND_BTWIFI_STATE_BT_ON :: u32 where "WCND_BTWIFI_STATE_BT_ON = 0x01"
definition WCND_BTWIFI_STATE_WIFI_ON :: u32 where "WCND_BTWIFI_STATE_WIFI_ON = 0x02"

definition WCND_CLIENT_TYPE_SLEEP :: u32 where "WCND_CLIENT_TYPE_SLEEP = 0x30"
definition WCND_CLIENT_TYPE_NOTIFY :: u32 where "WCND_CLIENT_TYPE_NOTIFY = 0x00"
definition WCND_CLIENT_TYPE_CMD :: u32 where "WCND_CLIENT_TYPE_CMD = 0x10"
definition WCND_CLIENT_TYPE_CMD_PENDING :: u32 where "WCND_CLIENT_TYPE_CMD_PENDING = 0x20"
definition WCND_CLIENT_TYPE_CMD_SUBTYPE_CLOSE :: u32 where "WCND_CLIENT_TYPE_CMD_SUBTYPE_CLOSE = 0x11"
definition WCND_CLIENT_TYPE_CMD_SUBTYPE_OPEN :: u32 where "WCND_CLIENT_TYPE_CMD_SUBTYPE_OPEN = 0x12"
definition WCND_CLIENT_TYPE_CMD_MASK :: u32 where "WCND_CLIENT_TYPE_CMD_MASK = 0xF0"

definition WCND_MAX_CLIENT_NUM :: nat where "WCND_MAX_CLIENT_NUM = 10"

lemmas event_defs = WCND_EVENT_BT_OPEN_def WCND_EVENT_WIFI_OPEN_def WCND_EVENT_BT_CLOSE_def
  WCND_EVENT_WIFI_CLOSE_def WCND_EVENT_CP2_OK_def WCND_EVENT_CP2_ASSERT_def WCND_EVENT_CP2_DOWN_def
  WCND_EVENT_PENGING_EVENT_def WCND_EVENT_CP2POWERON_REQ_def WCND_EVENT_CP2POWEROFF_REQ_def

lemmas client_type_defs = WCND_CLIENT_TYPE_SLEEP_def WCND_CLIENT_TYPE_NOTIFY_def WCND_CLIENT_TYPE_CMD_def
  WCND_CLIENT_TYPE_CMD_PENDING_def WCND_CLIENT_TYPE_CMD_SUBTYPE_CLOSE_def
  WCND_CLIENT_TYPE_CMD_SUBTYPE_OPEN_def WCND_CLIENT_TYPE_CMD_MASK_def

definition WCND_CMD_RESPONSE_STRING :: string where "WCND_CMD_RESPONSE_STRING = ''WCNBTWIFI-CMD''"

definition WCND_SELF_CMD_START_CP2 :: string where "WCND_SELF_CMD_START_CP2 = ''startcp2''"
definition WCND_SELF_CMD_STOP_CP2 :: string where "WCND_SELF_CMD_STOP_CP2 = ''stopcp2''"
definition WCND_SELF_CMD_PENDINGEVENT :: string where "WCND_SELF_CMD_PENDINGEVENT = ''pendingevent''"

record WcndMessage =
  event :: u32
  replyto_fd :: int

record WcndClient =
  sockfd :: int
  client_type :: u32

record WcndManager =
  clients :: "WcndClient list"
  notify_count :: nat
  doing_reset :: bool
  is_cp2_error :: bool
  state :: wcnd_state
  btwifi_state :: u32
  saved_btwifi_state :: u32
  pending_events :: u32
  selfcmd_socket :: int
  notify_enabled :: bool
  cp2_version_info :: string
  store_cp2_versin_done :: bool
  eng_cmd_queue :: "(int \<times> string) list"
  is_wcn_modem_enabled :: bool
  is_eng_mode_only :: bool
  is_in_userdebug :: bool
  is_cp2log_opened :: bool
  wait_wifi_driver_unloaded :: bool
  selfcmd_stream :: string
  broken :: "int list"
  outbox :: "(int \<times> string) list"
  download_log :: "string list"
  atcmd_log :: "string list"

section \<open>Messages\<close>

definition wcnd_send_selfcmd :: "string \<Rightarrow> WcndManager \<Rightarrow> WcndManager" where
  "wcnd_send_selfcmd cmd m = m\<lparr>selfcmd_stream := selfcmd_stream m @ cmd\<rparr>"

text \<open>
  \<open>wcnd_send_notify_to_client\<close>: every client of the type is sent the text by \<open>send_msg\<close>; a client
  whose socket fails is dropped from the table, one that waited for a command goes to sleep.
\<close>

definition addressed :: "u32 \<Rightarrow> WcndClient \<Rightarrow> bool" where
  "addressed notify_type c = (0 \<le> sockfd c \<and> (client_type c = notify_type
     \<or> notify_type = WCND_CLIENT_TYPE_CMD \<and> client_type c AND WCND_CLIENT_TYPE_CMD_MASK = notify_type))"

definition after_send :: "u32 \<Rightarrow> int list \<Rightarrow> WcndClient \<Rightarrow> WcndClient" where
  "after_send notify_type bad c =
     (if sockfd c \<in> set bad then c\<lparr>sockfd := -1, client_type := WCND_CLIENT_TYPE_NOTIFY\<rparr>
      else if notify_type = WCND_CLIENT_TYPE_CMD \<or> notify_type = WCND_CLIENT_TYPE_CMD_PENDING
        \<or> notify_type AND WCND_CLIENT_TYPE_CMD_MASK = WCND_CLIENT_TYPE_CMD
      then c\<lparr>client_type := WCND_CLIENT_TYPE_SLEEP\<rparr>
      else c)"

definition wcnd_send_notify_to_client :: "string \<Rightarrow> u32 \<Rightarrow> WcndManager \<Rightarrow> WcndManager" where
  "wcnd_send_notify_to_client info_str notify_type m =
     (if notify_type = WCND_CLIENT_TYPE_NOTIFY \<and> \<not> notify_enabled m then m
      else
        let tos = filter (addressed notify_type) (clients m) in
        m\<lparr>clients := map (\<lambda>c. if addressed notify_type c then after_send notify_type (broken m) c else c) (clients m),
          notify_count := notify_count m + length tos,
          outbox := outbox m @ map (\<lambda>c. (sockfd c, info_str)) (filter (\<lambda>c. sockfd c \<notin> set (broken m)) tos)\<rparr>)"

abbreviation reply :: "string \<Rightarrow> u32 \<Rightarrow> WcndManager \<Rightarrow> WcndManager" where
  "reply res t m \<equiv> wcnd_send_notify_to_client (WCND_CMD_RESPONSE_STRING @ res) t m"

text \<open>The loops that give the client that sent a message another type.\<close>

fun mark_client :: "int \<Rightarrow> u32 \<Rightarrow> WcndClient list \<Rightarrow> WcndClient list" where
  "mark_client fd t [] = []"
| "mark_client fd t (c # cs) = (if sockfd c = fd then c\<lparr>client_type := t\<rparr> # cs else c # mark_client fd t cs)"

section \<open>The handlers\<close>

definition wcn_state_cp2_stopped :: "WcndMessage \<Rightarrow> WcndManager \<Rightarrow> WcndManager" where
  "wcn_state_cp2_stopped msg m =
     (let m = m\<lparr>notify_enabled := False\<rparr> in
      if event msg = WCND_EVENT_BT_OPEN \<or> event msg = WCND_EVENT_WIFI_OPEN then
        let m = (if event msg = WCND_EVENT_BT_OPEN
                 then m\<lparr>btwifi_state := btwifi_state m OR WCND_BTWIFI_STATE_BT_ON\<rparr>
                 else m\<lparr>btwifi_state := btwifi_state m OR WCND_BTWIFI_STATE_WIFI_ON\<rparr>);
            m = m\<lparr>state := WCND_STATE_CP2_STARTING\<rparr>
        in wcnd_send_selfcmd (''wcn '' @ WCND_SELF_CMD_START_CP2) m
      else if event msg = WCND_EVENT_BT_CLOSE \<or> event msg = WCND_EVENT_WIFI_CLOSE \<or> event msg = WCND_EVENT_CP2POWEROFF_REQ then
        reply '' OK'' WCND_CLIENT_TYPE_CMD m
      else if event msg = WCND_EVENT_PENGING_EVENT then
        let m = (if pending_events m AND WCND_EVENT_BT_OPEN \<noteq> 0
                 then m\<lparr>btwifi_state := btwifi_state m OR WCND_BTWIFI_STATE_BT_ON\<rparr> else m);
            m = (if pending_events m AND WCND_EVENT_WIFI_OPEN \<noteq> 0
                 then m\<lparr>btwifi_state := btwifi_state m OR WCND_BTWIFI_STATE_WIFI_ON\<rparr> else m)
        in if btwifi_state m \<noteq> 0 \<or> pending_events m AND WCND_EVENT_CP2POWERON_REQ \<noteq> 0
           then wcnd_send_selfcmd (''wcn '' @ WCND_SELF_CMD_START_CP2) (m\<lparr>state := WCND_STATE_CP2_STARTING\<rparr>)
           else m
      else if event msg = WCND_EVENT_CP2POWERON_REQ then
        wcnd_send_selfcmd (''wcn '' @ WCND_SELF_CMD_START_CP2) (m\<lparr>state := WCND_STATE_CP2_STARTING\<rparr>)
      else if event msg = WCND_EVENT_CP2_OK then
        m\<lparr>state := WCND_STATE_CP2_STARTED, notify_enabled := True\<rparr>
      else m)"

definition wcn_state_cp2_starting :: "WcndMessage \<Rightarrow> WcndManager \<Rightarrow> WcndManager" where
  "wcn_state_cp2_starting msg m =
     (let m = m\<lparr>notify_enabled := False\<rparr> in
      if event msg = WCND_EVENT_BT_CLOSE \<or> event msg = WCND_EVENT_WIFI_CLOSE then
        reply '' OK'' WCND_CLIENT_TYPE_CMD m
      else if event msg = WCND_EVENT_BT_OPEN then
        m\<lparr>btwifi_state := btwifi_state m OR WCND_BTWIFI_STATE_BT_ON\<rparr>
      else if event msg = WCND_EVENT_WIFI_OPEN then
        m\<lparr>btwifi_state := btwifi_state m OR WCND_BTWIFI_STATE_WIFI_ON\<rparr>
      else if event msg = WCND_EVENT_CP2_OK then
        let m = m\<lparr>state := WCND_STATE_CP2_STARTED\<rparr>;
            m = reply '' OK'' WCND_CLIENT_TYPE_CMD m;
            m = reply '' OK'' WCND_CLIENT_TYPE_CMD_PENDING m
        in m\<lparr>notify_enabled := True\<rparr>
      else if event msg = WCND_EVENT_CP2_DOWN then
        let m = m\<lparr>state := WCND_STATE_CP2_STOPPED\<rparr>;
            m = reply '' FAIL'' WCND_CLIENT_TYPE_CMD m
        in reply '' FAIL'' WCND_CLIENT_TYPE_CMD_PENDING m
      else if event msg = WCND_EVENT_CP2POWEROFF_REQ then
        reply '' OK'' WCND_CLIENT_TYPE_CMD m
      else m)"

definition wcn_state_cp2_started :: "WcndMessage \<Rightarrow> WcndManager \<Rightarrow> WcndManager" where
  "wcn_state_cp2_started msg m =
     (let m = m\<lparr>notify_enabled := True\<rparr> in
      if event msg = WCND_EVENT_BT_CLOSE \<or> event msg = WCND_EVENT_WIFI_CLOSE \<or> event msg = WCND_EVENT_CP2POWEROFF_REQ then
        if saved_btwifi_state m \<noteq> 0 then
          let m = (if event msg = WCND_EVENT_BT_CLOSE
                   then m\<lparr>saved_btwifi_state := saved_btwifi_state m AND NOT WCND_BTWIFI_STATE_BT_ON\<rparr>
                   else if event msg = WCND_EVENT_WIFI_CLOSE
                   then m\<lparr>saved_btwifi_state := saved_btwifi_state m AND NOT WCND_BTWIFI_STATE_WIFI_ON\<rparr>
                   else m)
          in reply '' OK'' WCND_CLIENT_TYPE_CMD m
        else
          let m = (if event msg = WCND_EVENT_BT_CLOSE
                   then m\<lparr>btwifi_state := btwifi_state m AND NOT WCND_BTWIFI_STATE_BT_ON\<rparr>
                   else if event msg = WCND_EVENT_WIFI_CLOSE
                   then m\<lparr>btwifi_state := btwifi_state m AND NOT WCND_BTWIFI_STATE_WIFI_ON\<rparr>
                   else m)
          in if btwifi_state m = 0
             then wcnd_send_selfcmd (''wcn '' @ WCND_SELF_CMD_STOP_CP2) (m\<lparr>state := WCND_STATE_CP2_STOPPING\<rparr>)
             else reply '' OK'' WCND_CLIENT_TYPE_CMD m
      else if event msg = WCND_EVENT_BT_OPEN \<or> event msg = WCND_EVENT_WIFI_OPEN \<or> event msg = WCND_EVENT_CP2POWERON_REQ then
        let m = (if event msg = WCND_EVENT_BT_OPEN
                 then m\<lparr>btwifi_state := btwifi_state m OR WCND_BTWIFI_STATE_BT_ON\<rparr>
                 else if event msg = WCND_EVENT_WIFI_OPEN
                 then m\<lparr>btwifi_state := btwifi_state m OR WCND_BTWIFI_STATE_WIFI_ON\<rparr>
                 else m)
        in reply '' OK'' WCND_CLIENT_TYPE_CMD m
      else if event msg = WCND_EVENT_CP2_ASSERT then
        m\<lparr>saved_btwifi_state := btwifi_state m, state := WCND_STATE_CP2_ASSERT\<rparr>
      else if event msg = WCND_EVENT_CP2_DOWN then
        m\<lparr>state := WCND_STATE_CP2_STOPPED\<rparr>
      else m)"

definition wcn_state_cp2_assert :: "WcndMessage \<Rightarrow> WcndManager \<Rightarrow> WcndManager" where
  "wcn_state_cp2_assert msg m =
     (let m = m\<lparr>notify_enabled := True\<rparr> in
      if event msg = WCND_EVENT_BT_CLOSE \<or> event msg = WCND_EVENT_WIFI_CLOSE then
        let m = (if saved_btwifi_state m \<noteq> 0 then
                   if event msg = WCND_EVENT_BT_CLOSE
                   then m\<lparr>saved_btwifi_state := saved_btwifi_state m AND NOT WCND_BTWIFI_STATE_BT_ON\<rparr>
                   else m\<lparr>saved_btwifi_state := saved_btwifi_state m AND NOT WCND_BTWIFI_STATE_WIFI_ON\<rparr>
                 else m);
            m = m\<lparr>clients := mark_client (replyto_fd msg) WCND_CLIENT_TYPE_CMD_SUBTYPE_CLOSE (clients m)\<rparr>
        in reply '' OK'' WCND_CLIENT_TYPE_CMD_SUBTYPE_CLOSE m
      else if event msg = WCND_EVENT_BT_OPEN \<or> event msg = WCND_EVENT_WIFI_OPEN then
        let m = (if event msg = WCND_EVENT_BT_OPEN
                 then m\<lparr>btwifi_state := btwifi_state m OR WCND_BTWIFI_STATE_BT_ON\<rparr>
                 else m\<lparr>btwifi_state := btwifi_state m OR WCND_BTWIFI_STATE_WIFI_ON\<rparr>)
        in m\<lparr>clients := mark_client (replyto_fd msg) WCND_CLIENT_TYPE_CMD_SUBTYPE_OPEN (clients m)\<rparr>
      else if event msg = WCND_EVENT_CP2_OK then
        reply '' OK'' WCND_CLIENT_TYPE_CMD (m\<lparr>state := WCND_STATE_CP2_STARTED\<rparr>)
      else if event msg = WCND_EVENT_CP2_DOWN then
        reply '' FAIL'' WCND_CLIENT_TYPE_CMD (m\<lparr>state := WCND_STATE_CP2_STOPPED\<rparr>)
      else m)"

definition wcn_state_cp2_stopping :: "WcndMessage \<Rightarrow> WcndManager \<Rightarrow> WcndManager" where
  "wcn_state_cp2_stopping msg m =
     (let m = m\<lparr>notify_enabled := False\<rparr> in
      if event msg = WCND_EVENT_BT_OPEN \<or> event msg = WCND_EVENT_WIFI_OPEN \<or> event msg = WCND_EVENT_CP2POWERON_REQ then
        m\<lparr>clients := mark_client (replyto_fd msg) WCND_CLIENT_TYPE_CMD_PENDING (clients m),
          pending_events := pending_events m OR event msg\<rparr>
      else if event msg = WCND_EVENT_CP2_DOWN then
        let m = m\<lparr>state := WCND_STATE_CP2_STOPPED\<rparr>;
            m = reply '' OK'' WCND_CLIENT_TYPE_CMD m
        in if pending_events m \<noteq> 0
           then wcnd_send_selfcmd (''wcn '' @ WCND_SELF_CMD_PENDINGEVENT) m
           else m
      else m)"

definition wcnd_sm_step :: "WcndMessage \<Rightarrow> WcndManager \<Rightarrow> WcndManager" where
  "wcnd_sm_step msg m =
     (if \<not> is_wcn_modem_enabled m then m
      else case state m of
        WCND_STATE_CP2_STOPPED \<Rightarrow> wcn_state_cp2_stopped msg m
      | WCND_STATE_CP2_STARTING \<Rightarrow> wcn_state_cp2_starting msg m
      | WCND_STATE_CP2_STARTED \<Rightarrow> wcn_state_cp2_started msg m
      | WCND_STATE_CP2_ASSERT \<Rightarrow> wcn_state_cp2_assert msg m
      | WCND_STATE_CP2_STOPPING \<Rightarrow> wcn_state_cp2_stopping msg m)"

definition wcnd_sm_init :: "WcndManager \<Rightarrow> WcndManager" where
  "wcnd_sm_init m =
     (if \<not> is_wcn_modem_enabled m
      then m\<lparr>state := WCND_STATE_CP2_STARTED, notify_enabled := True,
        btwifi_state := btwifi_state m OR (WCND_BTWIFI_STATE_BT_ON OR WCND_BTWIFI_STATE_WIFI_ON)\<rparr>
      else m\<lparr>state := WCND_STATE_CP2_STOPPED, notify_enabled := False\<rparr>)"

end
