(* ===== verification/WcndCmd.thy ===== *)
theory WcndCmd
  imports WcndSm
begin

text \<open>
  The commands of the co-processor daemon: the tokeniser and the dispatch of
  \<^verbatim>\<open>src/apps/wcnd/wcnd.c\<close>, the \<open>wcn\<close> commands of \<^verbatim>\<open>src/apps/wcnd/wcnd_cmd.c\<close>, starting, stopping and
  resetting the co-processor with the download service of \<^verbatim>\<open>src/apps/wcnd/wcnd_download.c\<close> (the
  \<open>USE_MARLIN\<close> build of the makefile), and the engineering-mode queue of
  \<^verbatim>\<open>src/apps/wcnd/wcnd_worker.c\<close>.

  What the devices answer while one command runs is an argument: \<open>cp2_io\<close> gives, for every attempt
  and every poll, the results of the system calls the code makes; an empty string stands for a read
  that brought nothing. The answer to the loop check fits its buffer of 32 bytes with its terminator.
\<close>

section \<open>Strings\<close>

definition strstr :: "string \<Rightarrow> string \<Rightarrow> bool" where
  "strstr hay needle = list_ex (\<lambda>i. take (length needle) (drop i hay) = needle) [0..<Suc (length hay)]"

definition tolower :: "char \<Rightarrow> char" where
  "tolower c = (if 65 \<le> (of_char c :: nat) \<and> (of_char c :: nat) \<le> 90 then char_of ((of_char c :: nat) + 32) else c)"

definition strcasestr :: "string \<Rightarrow> string \<Rightarrow> bool" where
  "strcasestr hay needle = strstr (map tolower hay) (map tolower needle)"

definition cstr :: "string \<Rightarrow> string" where
  "cstr s = takeWhile (\<lambda>c. c \<noteq> CHR 0x00) s"

section \<open>Answers of the devices\<close>

record download_answer =
  connects :: "nat \<Rightarrow> int"
  wrote :: int
  response :: string

record loop_answer =
  loop_fd :: int
  loop_wrote :: int
  loop_read :: string

record at_answer =
  atcmd_fd :: int
  at_wrote :: int
  at_read :: "nat \<Rightarrow> string"

record cp2_io =
  download :: "nat \<Rightarrow> download_answer"
  loops :: "nat \<Rightarrow> nat \<Rightarrow> loop_answer"
  atcmd :: at_answer
  dump :: download_answer
  reset_prop :: int

section \<open>Replies\<close>

definition write_to :: "int \<Rightarrow> string \<Rightarrow> WcndManager \<Rightarrow> WcndManager" where
  "write_to fd str m = (if fd \<in> set (broken m) then m else m\<lparr>outbox := outbox m @ [(fd, str)]\<rparr>)"

definition send_back_cmd_result :: "int \<Rightarrow> string option \<Rightarrow> bool \<Rightarrow> WcndManager \<Rightarrow> WcndManager" where
  "send_back_cmd_result client_fd str isOK m =
     (if client_fd < 0 then m
      else let ok = (if isOK then ''OK'' else ''FAIL'') in
        write_to client_fd (take 254 (case str of None \<Rightarrow> ok | Some s \<Rightarrow> ok @ '' '' @ s)) m)"

section \<open>The download service\<close>

datatype download_cmd =
    WCN_DOWNLOAD_CMDID_REBOOT_WCN | WCN_DOWNLOAD_CMDID_DUMP_WCN
  | WCN_DOWNLOAD_CMDID_START_WCN | WCN_DOWNLOAD_CMDID_STOP_WCN

fun download_strings :: "download_cmd \<Rightarrow> string \<times> string" where
  "download_strings WCN_DOWNLOAD_CMDID_REBOOT_WCN = (''rebootwcn'', ''rebootwcn-ok'')"
| "download_strings WCN_DOWNLOAD_CMDID_DUMP_WCN = (''dumpwcn'', ''dumpwcn-ok'')"
| "download_strings WCN_DOWNLOAD_CMDID_START_WCN = (''startwcn'', ''startwcn-ok'')"
| "download_strings WCN_DOWNLOAD_CMDID_STOP_WCN = (''stopwcn'', ''stopwcn-ok'')"

fun connect_retry :: "nat \<Rightarrow> nat \<Rightarrow> (nat \<Rightarrow> int) \<Rightarrow> int" where
  "connect_retry 0 k cs = cs k"
| "connect_retry (Suc retry_count) k cs = (if cs k < 0 then connect_retry retry_count (Suc k) cs else cs k)"

definition connect_download :: "(nat \<Rightarrow> int) \<Rightarrow> int" where
  "connect_download cs = connect_retry 20 0 cs"

definition do_download_cmd :: "download_cmd \<Rightarrow> download_answer \<Rightarrow> WcndManager \<Rightarrow> int \<times> WcndManager" where
  "do_download_cmd cmd_id a m =
     (let (cmd_str, expect_resp_str) = download_strings cmd_id in
      if connect_download (connects a) < 0 then (-1, m)
      else if wrote a < 0 then (-1, m)
      else
        (if strstr (cstr (take 127 (response a))) expect_resp_str then 0 else -1,
         m\<lparr>download_log := download_log m @ [cmd_str]\<rparr>))"

definition wcnd_reboot_cp2 :: "download_answer \<Rightarrow> WcndManager \<Rightarrow> int \<times> WcndManager" where
  "wcnd_reboot_cp2 a m = do_download_cmd WCN_DOWNLOAD_CMDID_REBOOT_WCN a m"

definition wcnd_stop_cp2 :: "download_answer \<Rightarrow> WcndManager \<Rightarrow> int \<times> WcndManager" where
  "wcnd_stop_cp2 a m = do_download_cmd WCN_DOWNLOAD_CMDID_STOP_WCN a m"

definition wcnd_start_cp2 :: "download_answer \<Rightarrow> WcndManager \<Rightarrow> int \<times> WcndManager" where
  "wcnd_start_cp2 a m = do_download_cmd WCN_DOWNLOAD_CMDID_START_WCN a m"

definition wcnd_before_reset :: "cp2_io \<Rightarrow> WcndManager \<Rightarrow> int \<times> WcndManager" where
  "wcnd_before_reset io m =
     (let m = (if is_in_userdebug m \<or> reset_prop io = 0
               then snd (do_download_cmd WCN_DOWNLOAD_CMDID_DUMP_WCN (dump io) m) else m)
      in if reset_prop io = 0 then (-1, m) else (0, m\<lparr>doing_reset := True\<rparr>))"

section \<open>AT commands\<close>

definition WCND_CP2_CLOSED_STRING :: string where "WCND_CP2_CLOSED_STRING = ''WCN-CP2-CLOSED''"
definition WCND_CP2_EXCEPTION_STRING :: string where "WCND_CP2_EXCEPTION_STRING = ''WCN-CP2-EXCEPTION''"
definition WCND_CP2_RESET_START_STRING :: string where "WCND_CP2_RESET_START_STRING = ''WCN-CP2-RESET-START''"
definition WCND_CP2_RESET_END_STRING :: string where "WCND_CP2_RESET_END_STRING = ''WCN-CP2-RESET-END''"
definition WCND_CP2_ALIVE_STRING :: string where "WCND_CP2_ALIVE_STRING = ''WCN-CP2-ALIVE''"

definition WCND_ATCMD_CP2_SLEEP :: string where "WCND_ATCMD_CP2_SLEEP = ''at+cp2sleep'' @ [CHR 0x0D]"
definition WCND_ATCMD_CP2_DISABLE_LOG :: string where "WCND_ATCMD_CP2_DISABLE_LOG = ''AT+ARMLOG=0'' @ [CHR 0x0D]"
definition WCND_ATCMD_CP2_ENABLE_LOG :: string where "WCND_ATCMD_CP2_ENABLE_LOG = ''AT+ARMLOG=1'' @ [CHR 0x0D]"
definition WCND_ATCMD_CP2_GET_VERSION :: string where "WCND_ATCMD_CP2_GET_VERSION = ''at+spatgetcp2info'' @ [CHR 0x0D]"

datatype atcmd_id = WCND_ATCMD_CMDID_OTHERS | WCND_ATCMD_CMDID_GET_VERSION | WCND_ATCMD_CMDID_SLEEP

definition before_send_atcmd :: "int \<Rightarrow> string \<Rightarrow> WcndManager \<Rightarrow> int \<times> atcmd_id \<times> WcndManager" where
  "before_send_atcmd client_fd atcmd_str m =
     (let atid = (if strcasestr atcmd_str ''spatgetcp2info'' then WCND_ATCMD_CMDID_GET_VERSION
                  else if atcmd_str = WCND_ATCMD_CP2_SLEEP then WCND_ATCMD_CMDID_SLEEP
                  else WCND_ATCMD_CMDID_OTHERS);
          m = (if strcasestr atcmd_str ''at+armlog=0'' then m\<lparr>is_cp2log_opened := False\<rparr>
               else if strcasestr atcmd_str ''at+armlog=1'' then m\<lparr>is_cp2log_opened := True\<rparr>
               else m)
      in if state m \<noteq> WCND_STATE_CP2_STARTED then
           if atid = WCND_ATCMD_CMDID_GET_VERSION then
             (-1, atid, if 0 < client_fd then write_to client_fd (take 253 (cp2_version_info m)) m else m)
           else if atid \<noteq> WCND_ATCMD_CMDID_SLEEP then
             (-1, atid, send_back_cmd_result client_fd (Some WCND_CP2_CLOSED_STRING) False m)
           else (0, atid, m)
         else if is_cp2_error m then
           (-1, atid, send_back_cmd_result client_fd (Some WCND_CP2_EXCEPTION_STRING) False m)
         else (0, atid, m))"

text \<open>The reads of the answer: six tries, \<open>None\<close> when none of them brings data.\<close>

function at_tries :: "at_answer \<Rightarrow> nat \<Rightarrow> string option" where
  "at_tries a try_counts =
     (if 5 < try_counts then None
      else if at_read a try_counts = [] then at_tries a (Suc try_counts)
      else Some (cstr (take 254 (at_read a try_counts))))"
  by auto
termination by (relation "measure (\<lambda>(a, k). 6 - k)") auto

definition wcnd_process_atcmd :: "int \<Rightarrow> string \<Rightarrow> at_answer \<Rightarrow> WcndManager \<Rightarrow> int \<times> WcndManager" where
  "wcnd_process_atcmd client_fd atcmd_str a m =
     (if \<not> is_wcn_modem_enabled m then (-1, send_back_cmd_result client_fd (Some ''WCN Disabled'') False m)
      else
        let (ok, atid, m) = before_send_atcmd client_fd atcmd_str m in
        if ok < 0 then (-1, m)
        else
          let buffer = take 254 atcmd_str;
              buffer = (if length atcmd_str < 254 \<and> last buffer \<noteq> CHR 0x0D then buffer @ [CHR 0x0D] else buffer)
          in if atcmd_fd a < 0 then (-1, send_back_cmd_result client_fd (Some ''Send atcmd fail'') False m)
             else if at_wrote a < 0 then (-1, send_back_cmd_result client_fd (Some ''Send atcmd fail'') False m)
             else
               let m = m\<lparr>atcmd_log := atcmd_log m @ [buffer]\<rparr>;
                   (ret_value, buffer, m) =
                     (case at_tries a 0 of
                        None \<Rightarrow>
                          if atid = WCND_ATCMD_CMDID_GET_VERSION then (0, take 253 (cp2_version_info m), m)
                          else (-1, ''Fail: No data available'', m)
                      | Some buffer \<Rightarrow>
                          if strstr buffer ''fail'' \<or> strstr buffer ''FAIL'' then (-1, buffer, m)
                          else (0, buffer,
                            if atid = WCND_ATCMD_CMDID_GET_VERSION then m\<lparr>cp2_version_info := buffer\<rparr> else m))
               in if client_fd \<le> 0 then (ret_value, m)
                  else if client_fd \<in> set (broken m) then (-1, m)
                  else (ret_value, write_to client_fd buffer m))"

definition config_cp2_bootup :: "at_answer \<Rightarrow> WcndManager \<Rightarrow> WcndManager" where
  "config_cp2_bootup a m =
     (if is_eng_mode_only m then m
      else if \<not> is_wcn_modem_enabled m then m
      else if is_cp2log_opened m then snd (wcnd_process_atcmd (-1) WCND_ATCMD_CP2_ENABLE_LOG a m)
      else snd (wcnd_process_atcmd (-1) WCND_ATCMD_CP2_DISABLE_LOG a m))"

section \<open>Starting, stopping and resetting the co-processor\<close>

definition MAX_LOOP_TEST_COUNT :: nat where "MAX_LOOP_TEST_COUNT = 50"
definition RESET_FAIL_RETRY_COUNT :: nat where "RESET_FAIL_RETRY_COUNT = 3"

definition LOOP_TEST_ACK_STR :: string where "LOOP_TEST_ACK_STR = ''loopcheck_ack''"

definition is_cp2_alive_ok :: "loop_answer \<Rightarrow> int" where
  "is_cp2_alive_ok a =
     (if loop_fd a < 0 then -1
      else if loop_wrote a < 0 then -1
      else if loop_read a = [] \<or> \<not> strstr (cstr (take 32 (loop_read a))) LOOP_TEST_ACK_STR then -1
      else 0)"

function polling_test :: "(nat \<Rightarrow> loop_answer) \<Rightarrow> nat \<Rightarrow> int" where
  "polling_test loop loop_test_count =
     (if MAX_LOOP_TEST_COUNT < loop_test_count then -1
      else if is_cp2_alive_ok (loop loop_test_count) < 0 then polling_test loop (Suc loop_test_count)
      else 0)"
  by auto
termination by (relation "measure (\<lambda>(l, k). Suc MAX_LOOP_TEST_COUNT - k)") (auto simp: MAX_LOOP_TEST_COUNT_def)

definition polling_test_after_reset :: "(nat \<Rightarrow> loop_answer) \<Rightarrow> int" where
  "polling_test_after_reset loop = polling_test loop 0"

text \<open>The \<open>do_cp2reset\<close> loop of \<open>wcnd_open_cp2\<close>; the result is \<open>is_alive_ok\<close> at the label \<open>out\<close>.\<close>

function open_attempts :: "cp2_io \<Rightarrow> nat \<Rightarrow> WcndManager \<Rightarrow> bool \<times> WcndManager" where
  "open_attempts io reset_count m =
     (if RESET_FAIL_RETRY_COUNT < reset_count then (False, m\<lparr>doing_reset := False\<rparr>)
      else
        let m' = snd (wcnd_start_cp2 (download io reset_count) m) in
        if fst (wcnd_start_cp2 (download io reset_count) m) < 0 \<or> polling_test_after_reset (loops io reset_count) < 0
        then open_attempts io (Suc reset_count) m'
        else (True, m'\<lparr>doing_reset := False\<rparr>))"
  by auto
termination by (relation "measure (\<lambda>(io, k, m). Suc RESET_FAIL_RETRY_COUNT - k)") (auto simp: RESET_FAIL_RETRY_COUNT_def)

abbreviation self_message :: "u32 \<Rightarrow> WcndMessage" where
  "self_message ev \<equiv> \<lparr>event = ev, replyto_fd = -1\<rparr>"

definition wcnd_open_cp2 :: "cp2_io \<Rightarrow> WcndManager \<Rightarrow> WcndManager" where
  "wcnd_open_cp2 io m =
     (let (is_alive_ok, m) = open_attempts io 0 (m\<lparr>doing_reset := True\<rparr>);
          m = (if is_alive_ok
               then wcnd_sm_step (self_message WCND_EVENT_CP2_OK) (m\<lparr>is_cp2_error := False\<rparr>)
               else wcnd_sm_step (self_message WCND_EVENT_CP2_DOWN) m)
      in if is_alive_ok then config_cp2_bootup (atcmd io) m else m)"

definition wcnd_close_cp2 :: "cp2_io \<Rightarrow> WcndManager \<Rightarrow> WcndManager" where
  "wcnd_close_cp2 io m =
     wcnd_sm_step (self_message WCND_EVENT_CP2_DOWN) (snd (wcnd_stop_cp2 (download io 0) m))"

function reset_attempts :: "cp2_io \<Rightarrow> nat \<Rightarrow> WcndManager \<Rightarrow> bool \<times> WcndManager" where
  "reset_attempts io reset_count m =
     (if RESET_FAIL_RETRY_COUNT < reset_count then (False, m\<lparr>doing_reset := False\<rparr>)
      else
        let m' = wcnd_send_notify_to_client WCND_CP2_RESET_START_STRING WCND_CLIENT_TYPE_NOTIFY m;
            ret = fst (wcnd_reboot_cp2 (download io reset_count) m');
            m' = snd (wcnd_reboot_cp2 (download io reset_count) m');
            m' = wcnd_send_notify_to_client WCND_CP2_RESET_END_STRING WCND_CLIENT_TYPE_NOTIFY m'
        in if ret < 0 \<or> polling_test_after_reset (loops io reset_count) < 0
           then reset_attempts io (Suc reset_count) m'
           else (True, (wcnd_send_notify_to_client WCND_CP2_ALIVE_STRING WCND_CLIENT_TYPE_NOTIFY m')\<lparr>doing_reset := False\<rparr>))"
  by auto
termination by (relation "measure (\<lambda>(io, k, m). Suc RESET_FAIL_RETRY_COUNT - k)") (auto simp: RESET_FAIL_RETRY_COUNT_def)

definition prepare_cp2_recovery :: "WcndManager \<Rightarrow> WcndManager" where
  "prepare_cp2_recovery m = m\<lparr>wait_wifi_driver_unloaded := False\<rparr>"

definition wcnd_do_wcn_reset_process :: "cp2_io \<Rightarrow> WcndManager \<Rightarrow> WcndManager" where
  "wcnd_do_wcn_reset_process io m =
     (let m = prepare_cp2_recovery m;
          (before, m) = wcnd_before_reset io m
      in if before < 0 then m
         else
           let (is_alive_ok, m) = reset_attempts io 0 m;
               m = (if is_alive_ok
                    then wcnd_sm_step (self_message WCND_EVENT_CP2_OK) (m\<lparr>is_cp2_error := False\<rparr>)
                    else wcnd_sm_step (self_message WCND_EVENT_CP2_DOWN) m)
           in if is_alive_ok then config_cp2_bootup (atcmd io) m else m)"

declare at_tries.simps [simp del] polling_test.simps [simp del] open_attempts.simps [simp del]
  reset_attempts.simps [simp del]

section \<open>The wcn commands\<close>

definition set_cmd_client :: "int \<Rightarrow> WcndManager \<Rightarrow> WcndManager" where
  "set_cmd_client client_fd m = m\<lparr>clients := mark_client client_fd WCND_CLIENT_TYPE_CMD (clients m)\<rparr>"

definition wcn_process_btwificmd :: "int \<Rightarrow> string \<Rightarrow> WcndManager \<Rightarrow> WcndManager" where
  "wcn_process_btwificmd client_fd cmd_str m =
     (if \<not> is_wcn_modem_enabled m then reply '' OK'' WCND_CLIENT_TYPE_CMD m
      else
        let ev = (if cmd_str = ''BT-CLOSE'' then WCND_EVENT_BT_CLOSE
                  else if cmd_str = ''BT-OPEN'' then WCND_EVENT_BT_OPEN
                  else if cmd_str = ''WIFI-CLOSE'' then WCND_EVENT_WIFI_CLOSE
                  else if cmd_str = ''WIFI-OPEN'' then WCND_EVENT_WIFI_OPEN
                  else 0)
        in wcnd_sm_step \<lparr>event = ev, replyto_fd = client_fd\<rparr> m)"

text \<open>The branches of \<open>poweron\<close> and \<open>poweroff\<close>.\<close>

definition power_request :: "u32 \<Rightarrow> int \<Rightarrow> WcndManager \<Rightarrow> WcndManager" where
  "power_request ev client_fd m =
     (let m = set_cmd_client client_fd m in
      if \<not> is_wcn_modem_enabled m then reply '' OK'' WCND_CLIENT_TYPE_CMD m
      else wcnd_sm_step \<lparr>event = ev, replyto_fd = (if client_fd = selfcmd_socket m then -1 else client_fd)\<rparr> m)"

definition wcnd_runcommand :: "cp2_io \<Rightarrow> int \<Rightarrow> string list \<Rightarrow> WcndManager \<Rightarrow> WcndManager" where
  "wcnd_runcommand io client_fd argv m =
     (case argv of
        [] \<Rightarrow> send_back_cmd_result client_fd (Some ''Missing argument'') False m
      | cmd # _ \<Rightarrow>
          if cmd = ''reset'' then
            let m = (if client_fd \<noteq> selfcmd_socket m then send_back_cmd_result client_fd None True m else m)
            in if is_cp2_error m then wcnd_do_wcn_reset_process io m else m
          else if cmd = ''test'' then send_back_cmd_result client_fd None True m
          else if strstr cmd ''at+'' then snd (wcnd_process_atcmd client_fd cmd (atcmd io) m)
          else if strstr cmd ''BT'' \<or> strstr cmd ''WIFI'' then
            wcn_process_btwificmd client_fd cmd (set_cmd_client client_fd m)
          else if cmd = WCND_SELF_CMD_START_CP2 then wcnd_open_cp2 io m
          else if cmd = WCND_SELF_CMD_STOP_CP2 then wcnd_close_cp2 io m
          else if cmd = WCND_SELF_CMD_PENDINGEVENT then wcnd_sm_step (self_message WCND_EVENT_PENGING_EVENT) m
          else if cmd = ''cp2assert'' then wcnd_sm_step (self_message WCND_EVENT_CP2_ASSERT) m
          else if cmd = ''poweron'' then power_request WCND_EVENT_CP2POWERON_REQ client_fd m
          else if cmd = ''poweroff'' then power_request WCND_EVENT_CP2POWEROFF_REQ client_fd m
          else if cmd = ''configcp2'' then config_cp2_bootup (atcmd io) m
          else if cmd = ''getcp2version'' then
            (snd (wcnd_process_atcmd (-1) WCND_ATCMD_CP2_GET_VERSION (atcmd io) m))\<lparr>store_cp2_versin_done := True\<rparr>
          else if cmd = ''startengpc'' then send_back_cmd_result client_fd None True m
          else if cmd = ''stopengpc'' then send_back_cmd_result client_fd None True m
          else send_back_cmd_result client_fd (Some ''Not support cmd'') False m)"

text \<open>The engineering-mode executer; its three libraries are the argument \<open>submodule\<close>.\<close>

definition eng_runcommand ::
  "(string \<Rightarrow> int \<Rightarrow> string list \<Rightarrow> WcndManager \<Rightarrow> WcndManager) \<Rightarrow> int \<Rightarrow> string list \<Rightarrow> WcndManager \<Rightarrow> WcndManager" where
  "eng_runcommand submodule client_fd argv m =
     (case argv of
        [] \<Rightarrow> send_back_cmd_result client_fd (Some ''Missing argument'') False m
      | name # args \<Rightarrow>
          if name = ''iwnpi'' \<or> name = ''bt'' \<or> name = ''wifi'' then
            if args = [] then send_back_cmd_result client_fd (Some ''Missing argument'') False m
            else submodule name client_fd args m
          else send_back_cmd_result client_fd (Some ''Not support cmd'') False m)"

section \<open>The tokeniser and the dispatch\<close>

definition WCND_CMD_ARGS_MAX :: nat where "WCND_CMD_ARGS_MAX = 16"

text \<open>
  The loop of \<open>dispatch_command2\<close> over the characters of a command: \<open>tmp\<close> is what has been copied of
  the current argument (\<open>q - tmp\<close> characters, at most 254), \<open>argv\<close> the arguments before it. The left
  summand is the text of the error reply.
\<close>

fun parse_args :: "string \<Rightarrow> string \<Rightarrow> string list \<Rightarrow> bool \<Rightarrow> bool \<Rightarrow> string + string list" where
  "parse_args [] tmp argv esc quote =
     (if WCND_CMD_ARGS_MAX \<le> length argv then Inl ''Command too long''
      else if quote then Inl ''Unclosed quotes error''
      else Inr (argv @ [tmp]))"
| "parse_args (c # p) tmp argv esc quote =
     (if c = CHR 0x5C then
        if esc then
          if 254 \<le> length tmp then Inl ''Command too long''
          else parse_args p (tmp @ [CHR 0x5C]) argv False quote
        else parse_args p tmp argv True quote
      else if esc then
        if c = CHR 0x22 then
          if 254 \<le> length tmp then Inl ''Command too long''
          else parse_args p (tmp @ [CHR 0x22]) argv False quote
        else Inl ''Unsupported escape sequence''
      else if c = CHR 0x22 then parse_args p tmp argv esc (\<not> quote)
      else if 254 \<le> length tmp then Inl ''Command too long''
      else if \<not> quote \<and> c = CHR 0x20 then
        if WCND_CMD_ARGS_MAX \<le> length argv then Inl ''Command too long''
        else parse_args p [] (argv @ [tmp]) esc quote
      else parse_args p (tmp @ [c]) argv esc quote)"

type_synonym executer = "string \<times> (int \<Rightarrow> string list \<Rightarrow> WcndManager \<Rightarrow> WcndManager)"

definition dispatch_command2 :: "executer list \<Rightarrow> int \<Rightarrow> string \<Rightarrow> WcndManager \<Rightarrow> WcndManager" where
  "dispatch_command2 cmdexecuter_list client_fd data m =
     (case parse_args data [] [] False False of
        Inl err \<Rightarrow> send_back_cmd_result client_fd (Some err) False m
      | Inr argv \<Rightarrow>
          (case map_of cmdexecuter_list (hd argv) of
             None \<Rightarrow> send_back_cmd_result client_fd (Some ''Command not recognized'') False m
           | Some runcommand \<Rightarrow> runcommand client_fd (tl argv) m))"

definition wcnd_worker_dispatch :: "string \<Rightarrow> int \<Rightarrow> WcndManager \<Rightarrow> WcndManager" where
  "wcnd_worker_dispatch data fd m = m\<lparr>eng_cmd_queue := eng_cmd_queue m @ [(fd, data)]\<rparr>"

definition worker_dispatch :: "executer list \<Rightarrow> int \<Rightarrow> string \<Rightarrow> WcndManager \<Rightarrow> WcndManager" where
  "worker_dispatch cmdexecuter_list client_fd data m =
     (if strstr data ''eng'' then wcnd_worker_dispatch data client_fd m
      else dispatch_command2 cmdexecuter_list client_fd data m)"

text \<open>One round of the engineering-mode thread; an empty queue leaves it waiting.\<close>

definition eng_worker_thread :: "executer list \<Rightarrow> WcndManager \<Rightarrow> WcndManager" where
  "eng_worker_thread cmdexecuter_list m =
     (case eng_cmd_queue m of
        [] \<Rightarrow> m
      | (fd, data) # q \<Rightarrow> dispatch_command2 cmdexecuter_list fd data (m\<lparr>eng_cmd_queue := q\<rparr>))"

text \<open>
  The commands in one read: every character 0 ends one, and so does the end of the data, after which
  the buffer holds a 0; empty ones are skipped, and so are the blanks before the first.
\<close>

fun split_nul :: "string \<Rightarrow> string \<Rightarrow> string list" where
  "split_nul [] cur = (if cur = [] then [] else [cur])"
| "split_nul (c # cs) cur =
     (if c = CHR 0x00 then (if cur = [] then split_nul cs [] else cur # split_nul cs [])
      else split_nul cs (cur @ [c]))"

definition dispatch_command :: "executer list \<Rightarrow> int \<Rightarrow> string \<Rightarrow> WcndManager \<Rightarrow> WcndManager" where
  "dispatch_command cmdexecuter_list client_fd data m =
     (if 255 \<le> length data then m
      else fold (worker_dispatch cmdexecuter_list client_fd)
             (split_nul (dropWhile (\<lambda>c. c = CHR 0x20) data) []) m)"

text \<open>What one read of 254 bytes at most brings is passed on with the terminator behind it.\<close>

definition process_active_client_fd :: "executer list \<Rightarrow> int \<Rightarrow> string \<Rightarrow> WcndManager \<Rightarrow> WcndManager" where
  "process_active_client_fd cmdexecuter_list fd data m =
     dispatch_command cmdexecuter_list fd (take 254 data @ [CHR 0x00]) m"

text \<open>The round of \<open>client_listen_thread\<close> for the socket of the self commands.\<close>

definition self_round :: "executer list \<Rightarrow> WcndManager \<Rightarrow> WcndManager" where
  "self_round cmdexecuter_list m =
     (if selfcmd_stream m = [] then m
      else process_active_client_fd cmdexecuter_list (selfcmd_socket m) (selfcmd_stream m)
             (m\<lparr>selfcmd_stream := drop 254 (selfcmd_stream m)\<rparr>))"

text \<open>The same thread on a new connection and on a socket whose read fails.\<close>

fun store_client :: "int \<Rightarrow> WcndClient list \<Rightarrow> WcndClient list" where
  "store_client c [] = []"
| "store_client c (cl # cls) =
     (if sockfd cl = -1 then cl\<lparr>sockfd := c, client_type := WCND_CLIENT_TYPE_NOTIFY\<rparr> # cls
      else if sockfd cl = c then cl # cls
      else cl # store_client c cls)"

definition accept_client :: "int \<Rightarrow> WcndManager \<Rightarrow> WcndManager" where
  "accept_client c m = m\<lparr>clients := store_client c (clients m)\<rparr>"

fun remove_client :: "int \<Rightarrow> WcndClient list \<Rightarrow> WcndClient list" where
  "remove_client fd [] = []"
| "remove_client fd (cl # cls) =
     (if sockfd cl = fd then cl\<lparr>sockfd := -1, client_type := WCND_CLIENT_TYPE_NOTIFY\<rparr> # cls
      else cl # remove_client fd cls)"

definition zap_client :: "int \<Rightarrow> WcndManager \<Rightarrow> WcndManager" where
  "zap_client fd m = m\<lparr>clients := remove_client fd (clients m)\<rparr>"

section \<open>Exceptions of the co-processor\<close>

definition wcnd_notify_wifi_driver_cp2_state :: "int \<Rightarrow> int \<Rightarrow> int \<Rightarrow> int" where
  "wcnd_notify_wifi_driver_cp2_state fd ret st = (if fd < 0 then 0 else if ret < 0 then 0 else if st = 0x11 then 1 else 0)"

definition notify_cp2_exception :: "int \<Rightarrow> string \<Rightarrow> WcndManager \<Rightarrow> WcndManager" where
  "notify_cp2_exception driver info_str m =
     (let m = (if driver = 1 then m\<lparr>wait_wifi_driver_unloaded := True\<rparr> else m);
          m = wcnd_send_selfcmd (''wcn '' @ ''cp2assert'') m
      in wcnd_send_notify_to_client (take 254 (WCND_CP2_EXCEPTION_STRING @ '' '' @ info_str)) WCND_CLIENT_TYPE_NOTIFY m)"

definition handle_cp2_assert :: "int \<Rightarrow> string \<Rightarrow> WcndManager \<Rightarrow> WcndManager" where
  "handle_cp2_assert driver rdbuffer m =
     (let m = m\<lparr>is_cp2_error := True\<rparr> in
      if doing_reset m then m else notify_cp2_exception driver (cstr (take 200 rdbuffer)) m)"

definition handle_cp2_loop_check_fail :: "int \<Rightarrow> WcndManager \<Rightarrow> WcndManager" where
  "handle_cp2_loop_check_fail driver m =
     (let m = m\<lparr>is_cp2_error := True\<rparr> in
      if doing_reset m then m else notify_cp2_exception driver ''CP2 LOOP CHECK FAIL'' m)"

text \<open>One interval of the loop-check thread, with the answers to its two checks.\<close>

definition cp2_loop_check_round :: "int \<Rightarrow> loop_answer \<Rightarrow> loop_answer \<Rightarrow> WcndManager \<Rightarrow> WcndManager" where
  "cp2_loop_check_round driver a1 a2 m =
     (if \<not> notify_enabled m \<or> state m \<noteq> WCND_STATE_CP2_STARTED then m
      else if is_cp2_error m then m
      else if is_cp2_alive_ok a1 < 0 \<and> is_cp2_alive_ok a2 < 0 then handle_cp2_loop_check_fail driver m
      else m)"

section \<open>Initialisation\<close>

definition wcnd_init :: "int \<Rightarrow> bool \<Rightarrow> bool \<Rightarrow> bool \<Rightarrow> WcndManager" where
  "wcnd_init selfcmd is_eng_only modem_enabled userdebug =
     (wcnd_sm_init
        \<lparr>clients = replicate WCND_MAX_CLIENT_NUM \<lparr>sockfd = -1, client_type = 0\<rparr>, notify_count = 0,
         doing_reset = False, is_cp2_error = False, state = WCND_STATE_CP2_STARTED, btwifi_state = 0,
         saved_btwifi_state = 0, pending_events = 0, selfcmd_socket = selfcmd, notify_enabled = False,
         cp2_version_info = [], store_cp2_versin_done = False, eng_cmd_queue = [],
         is_wcn_modem_enabled = modem_enabled, is_eng_mode_only = is_eng_only, is_in_userdebug = userdebug,
         is_cp2log_opened = False, wait_wifi_driver_unloaded = False, selfcmd_stream = [], broken = [],
         outbox = [], download_log = [], atcmd_log = []\<rparr>)
     \<lparr>cp2_version_info := ''Fail: UNKNOW VERSION''\<rparr>"

type_synonym submodules = "string \<Rightarrow> int \<Rightarrow> string list \<Rightarrow> WcndManager \<Rightarrow> WcndManager"

text \<open>The two executers that \<open>main\<close> registers.\<close>

definition executers :: "cp2_io \<Rightarrow> submodules \<Rightarrow> executer list" where
  "executers io sub = [(''wcn'', wcnd_runcommand io), (''eng'', eng_runcommand sub)]"

section \<open>The tokeniser inverts quoting\<close>

text \<open>
  The text a client sends for a list of arguments: each in quotes, with the quotes and backslashes
  inside it escaped, and blanks between them.
\<close>

definition quote_char :: "char \<Rightarrow> string" where
  "quote_char c = (if c = CHR 0x5C \<or> c = CHR 0x22 then [CHR 0x5C, c] else [c])"

definition quote_arg :: "string \<Rightarrow> string" where
  "quote_arg a = [CHR 0x22] @ concat (map quote_char a) @ [CHR 0x22]"

fun quote_args :: "string list \<Rightarrow> string" where
  "quote_args [] = []"
| "quote_args [a] = quote_arg a"
| "quote_args (a # args) = quote_arg a @ [CHR 0x20] @ quote_args args"

lemma parse_quoted_chars:
  "length tmp + length a \<le> 254 \<Longrightarrow>
   parse_args (concat (map quote_char a) @ rest) tmp argv False True = parse_args rest (tmp @ a) argv False True"
proof (induction a arbitrary: tmp)
  case (Cons c a)
  have "parse_args (quote_char c @ concat (map quote_char a) @ rest) tmp argv False True
      = parse_args (concat (map quote_char a) @ rest) (tmp @ [c]) argv False True"
    using Cons.prems by (simp add: quote_char_def)
  then show ?case
    using Cons.IH [of "tmp @ [c]"] Cons.prems by simp
qed simp

lemma parse_quote_arg:
  "length a \<le> 254 \<Longrightarrow> parse_args (quote_arg a @ rest) [] argv False False = parse_args rest a argv False False"
  by (simp add: quote_arg_def parse_quoted_chars)

text \<open>
  C40. The tokeniser of the daemon inverts the quoting: for every list of one to sixteen arguments,
  of at most 253 characters each, whatever characters they hold, the text with each argument in
  quotes and its quotes and backslashes escaped is split into exactly these arguments.
\<close>

theorem parse_args_quoted:
  assumes "args \<noteq> []" and "length args \<le> WCND_CMD_ARGS_MAX" and "\<forall>a \<in> set args. length a \<le> 253"
  shows "parse_args (quote_args args) [] [] False False = Inr args"
proof -
  have "parse_args (quote_args args) [] argv False False = Inr (argv @ args)"
    if "args \<noteq> []" "length argv + length args \<le> WCND_CMD_ARGS_MAX" "\<forall>a \<in> set args. length a \<le> 253" for argv args
    using that
  proof (induction args arbitrary: argv rule: quote_args.induct)
    case (2 a)
    then show ?case
      using parse_quote_arg [of a "[]" argv] by simp
  next
    case (3 a b args)
    have "parse_args (quote_args (a # b # args)) [] argv False False
        = parse_args (quote_args (b # args)) [] (argv @ [a]) False False"
      using 3 by (simp add: parse_quote_arg)
    then show ?case
      using 3 by simp
  qed simp
  from this [of args "[]"] assms show ?thesis
    by simp
qed

theorem parse_args_quoted_witness:
  "parse_args (quote_args [''wcn'', ''at+x '' @ [CHR 0x22, CHR 0x5C]]) [] [] False False
     = Inr [''wcn'', ''at+x '' @ [CHR 0x22, CHR 0x5C]]"
  by (rule parse_args_quoted) (simp_all add: WCND_CMD_ARGS_MAX_def)

lemma parse_args_bounds:
  "parse_args p tmp argv esc quote = Inr args \<Longrightarrow> length tmp \<le> 254 \<Longrightarrow> \<forall>a \<in> set argv. length a \<le> 254 \<Longrightarrow>
   0 < length args \<and> length args \<le> WCND_CMD_ARGS_MAX \<and> (\<forall>a \<in> set args. length a \<le> 254)"
  by (induction p tmp argv esc quote rule: parse_args.induct) (auto split: if_splits)

end
