(* ===== verification/WcndRun.thy ===== *)
theory WcndRun
  imports WcndCmd
begin

text \<open>
  What the co-processor daemon does over time: every client that waits for its reply gets it. The
  invariant \<open>live\<close> ties the state to the self command that is under way, \<open>serves\<close> follows the clients that
  wait from one state to the next, and \<open>rank\<close> counts the self commands that are left.
\<close>

section \<open>Tokenising\<close>

definition requests :: "string list" where
  "requests = [''BT-OPEN'', ''BT-CLOSE'', ''WIFI-OPEN'', ''WIFI-CLOSE'', ''poweron'', ''poweroff'']"

definition self_commands :: "string list" where
  "self_commands = [''startcp2'', ''stopcp2'', ''pendingevent'']"

lemma plain_text:
  assumes "cmd \<in> set (requests @ self_commands)"
  shows "parse_args (''wcn '' @ cmd) [] [] False False = Inr [''wcn'', cmd]"
    and "\<not> strstr (''wcn '' @ cmd) ''eng''"
    and "split_nul (dropWhile (\<lambda>c. c = CHR 0x20) (take 254 (''wcn '' @ cmd) @ [CHR 0x00])) [] = [''wcn '' @ cmd]"
    and "length (take 254 (''wcn '' @ cmd) @ [CHR 0x00]) < 255"
proof -
  have "list_all (\<lambda>cmd. parse_args (''wcn '' @ cmd) [] [] False False = Inr [''wcn'', cmd]
    \<and> \<not> strstr (''wcn '' @ cmd) ''eng''
    \<and> split_nul (dropWhile (\<lambda>c. c = CHR 0x20) (take 254 (''wcn '' @ cmd) @ [CHR 0x00])) [] = [''wcn '' @ cmd]
    \<and> length (take 254 (''wcn '' @ cmd) @ [CHR 0x00]) < 255) (requests @ self_commands)"
    by code_simp
  from this [unfolded list_all_iff, THEN bspec, OF assms]
  show "parse_args (''wcn '' @ cmd) [] [] False False = Inr [''wcn'', cmd]"
    and "\<not> strstr (''wcn '' @ cmd) ''eng''"
    and "split_nul (dropWhile (\<lambda>c. c = CHR 0x20) (take 254 (''wcn '' @ cmd) @ [CHR 0x00])) [] = [''wcn '' @ cmd]"
    and "length (take 254 (''wcn '' @ cmd) @ [CHR 0x00]) < 255"
    by blast+
qed

lemma process_plain:
  assumes "cmd \<in> set (requests @ self_commands)"
  shows "process_active_client_fd (executers io sub) fd (''wcn '' @ cmd) m = wcnd_runcommand io fd [cmd] m"
proof -
  note plain = plain_text [OF assms]
  have "dispatch_command2 (executers io sub) fd (''wcn '' @ cmd) m = wcnd_runcommand io fd [cmd] m"
    by (simp only: dispatch_command2_def plain(1) sum.case list.sel executers_def map_of.simps
        fun_upd_apply fst_conv snd_conv if_True refl option.case)
  then have "worker_dispatch (executers io sub) fd (''wcn '' @ cmd) m = wcnd_runcommand io fd [cmd] m"
    by (simp only: worker_dispatch_def plain(2) if_False)
  then show ?thesis
    using plain(4) by (simp only: process_active_client_fd_def dispatch_command_def plain(3) not_le [symmetric]
        if_False fold.simps o_apply id_apply)
qed

section \<open>Replies\<close>

lemma send_notify_simps [simp]:
  "notify_enabled (wcnd_send_notify_to_client s t m) = notify_enabled m"
  "doing_reset (wcnd_send_notify_to_client s t m) = doing_reset m"
  "is_cp2_error (wcnd_send_notify_to_client s t m) = is_cp2_error m"
  "state (wcnd_send_notify_to_client s t m) = state m"
  "btwifi_state (wcnd_send_notify_to_client s t m) = btwifi_state m"
  "saved_btwifi_state (wcnd_send_notify_to_client s t m) = saved_btwifi_state m"
  "pending_events (wcnd_send_notify_to_client s t m) = pending_events m"
  "selfcmd_socket (wcnd_send_notify_to_client s t m) = selfcmd_socket m"
  "is_wcn_modem_enabled (wcnd_send_notify_to_client s t m) = is_wcn_modem_enabled m"
  "is_eng_mode_only (wcnd_send_notify_to_client s t m) = is_eng_mode_only m"
  "is_cp2log_opened (wcnd_send_notify_to_client s t m) = is_cp2log_opened m"
  "selfcmd_stream (wcnd_send_notify_to_client s t m) = selfcmd_stream m"
  "broken (wcnd_send_notify_to_client s t m) = broken m"
  by (simp_all add: wcnd_send_notify_to_client_def Let_def)

lemma selfcmd_simps [simp]:
  "clients (wcnd_send_selfcmd s m) = clients m"
  "doing_reset (wcnd_send_selfcmd s m) = doing_reset m"
  "is_cp2_error (wcnd_send_selfcmd s m) = is_cp2_error m"
  "state (wcnd_send_selfcmd s m) = state m"
  "btwifi_state (wcnd_send_selfcmd s m) = btwifi_state m"
  "saved_btwifi_state (wcnd_send_selfcmd s m) = saved_btwifi_state m"
  "pending_events (wcnd_send_selfcmd s m) = pending_events m"
  "selfcmd_socket (wcnd_send_selfcmd s m) = selfcmd_socket m"
  "is_wcn_modem_enabled (wcnd_send_selfcmd s m) = is_wcn_modem_enabled m"
  "selfcmd_stream (wcnd_send_selfcmd s m) = selfcmd_stream m @ s"
  "broken (wcnd_send_selfcmd s m) = broken m"
  "outbox (wcnd_send_selfcmd s m) = outbox m"
  by (simp_all add: wcnd_send_selfcmd_def)

text \<open>A client waits when it is connected and its last request has not been answered.\<close>

definition waiting :: "WcndClient \<Rightarrow> bool" where
  "waiting c = (addressed WCND_CLIENT_TYPE_CMD c \<or> addressed WCND_CLIENT_TYPE_CMD_PENDING c)"

definition answered :: "WcndManager \<Rightarrow> bool" where
  "answered m = (\<forall>c \<in> set (clients m). \<not> waiting c)"

definition none_of :: "u32 \<Rightarrow> WcndManager \<Rightarrow> bool" where
  "none_of t m = (\<forall>c \<in> set (clients m). \<not> addressed t c)"

lemma answered_iff:
  "answered m \<longleftrightarrow> none_of WCND_CLIENT_TYPE_CMD m \<and> none_of WCND_CLIENT_TYPE_CMD_PENDING m"
  by (auto simp: answered_def none_of_def waiting_def)

lemma notify_clients:
  "t \<noteq> WCND_CLIENT_TYPE_NOTIFY \<Longrightarrow> clients (wcnd_send_notify_to_client s t m)
     = map (\<lambda>c. if addressed t c then after_send t (broken m) c else c) (clients m)"
  by (simp add: wcnd_send_notify_to_client_def Let_def)

lemma after_send_quiet:
  assumes "t = WCND_CLIENT_TYPE_CMD \<or> t = WCND_CLIENT_TYPE_CMD_PENDING"
  shows "\<not> waiting (after_send t bad c)"
  using assms by (auto simp: waiting_def addressed_def after_send_def client_type_defs)

lemma notify_none_of [simp]:
  assumes "t = WCND_CLIENT_TYPE_CMD \<or> t = WCND_CLIENT_TYPE_CMD_PENDING"
  shows "none_of t (wcnd_send_notify_to_client s t m)"
proof -
  have "t \<noteq> WCND_CLIENT_TYPE_NOTIFY"
    using assms by (auto simp: client_type_defs)
  moreover have "\<not> addressed t (after_send t bad c)" for bad c
    using after_send_quiet [OF assms, of bad c] assms unfolding waiting_def by metis
  ultimately show ?thesis
    by (auto simp: none_of_def notify_clients)
qed

lemma notify_keeps_none_of:
  assumes "t = WCND_CLIENT_TYPE_CMD \<or> t = WCND_CLIENT_TYPE_CMD_PENDING"
    and "t' = WCND_CLIENT_TYPE_CMD \<or> t' = WCND_CLIENT_TYPE_CMD_PENDING"
    and "none_of t' m"
  shows "none_of t' (wcnd_send_notify_to_client s t m)"
proof -
  have "t \<noteq> WCND_CLIENT_TYPE_NOTIFY"
    using assms(1) by (auto simp: client_type_defs)
  moreover have "\<not> addressed t' (after_send t bad c)" for bad c
    using after_send_quiet [OF assms(1), of bad c] assms(2) unfolding waiting_def by metis
  ultimately show ?thesis
    using assms(3) by (auto simp: none_of_def notify_clients)
qed

lemma reply_both_answered:
  "answered (wcnd_send_notify_to_client s' WCND_CLIENT_TYPE_CMD_PENDING
     (wcnd_send_notify_to_client s WCND_CLIENT_TYPE_CMD m))"
  by (simp add: answered_iff notify_keeps_none_of)

lemma none_of_cong:
  "clients m' = clients m \<Longrightarrow> none_of t m' = none_of t m"
  by (simp add: none_of_def)

lemma answered_cong:
  "clients m' = clients m \<Longrightarrow> answered m' = answered m"
  by (simp add: answered_def)

lemma set_mark_client:
  "c \<in> set (mark_client fd t cl) \<Longrightarrow> c \<in> set cl \<or> client_type c = t"
  by (induction cl) (auto split: if_splits)

lemma mark_cmd_no_pending:
  assumes "none_of WCND_CLIENT_TYPE_CMD_PENDING m"
  shows "none_of WCND_CLIENT_TYPE_CMD_PENDING (m\<lparr>clients := mark_client fd WCND_CLIENT_TYPE_CMD (clients m)\<rparr>)"
  using assms by (auto simp: none_of_def addressed_def client_type_defs dest!: set_mark_client)


definition live :: "WcndManager \<Rightarrow> bool" where
  "live m =
     (is_wcn_modem_enabled m \<and> saved_btwifi_state m = 0
      \<and> (pending_events m \<noteq> 0 \<longrightarrow> pending_events m AND 0x103 \<noteq> 0)
      \<and> (case state m of
           WCND_STATE_CP2_STARTED \<Rightarrow> selfcmd_stream m = [] \<and> answered m
         | WCND_STATE_CP2_STARTING \<Rightarrow> selfcmd_stream m = ''wcn '' @ WCND_SELF_CMD_START_CP2
         | WCND_STATE_CP2_STOPPING \<Rightarrow> selfcmd_stream m = ''wcn '' @ WCND_SELF_CMD_STOP_CP2
             \<and> (pending_events m = 0 \<longrightarrow> none_of WCND_CLIENT_TYPE_CMD_PENDING m)
         | WCND_STATE_CP2_STOPPED \<Rightarrow> selfcmd_stream m = [] \<and> answered m
             \<or> selfcmd_stream m = ''wcn '' @ WCND_SELF_CMD_PENDINGEVENT \<and> pending_events m \<noteq> 0
         | WCND_STATE_CP2_ASSERT \<Rightarrow> False))"

lemma or_event_not_zero:
  fixes pe :: u32
  assumes "ev = WCND_EVENT_BT_OPEN \<or> ev = WCND_EVENT_WIFI_OPEN \<or> ev = WCND_EVENT_CP2POWERON_REQ"
  shows "(pe OR ev) AND 0x103 \<noteq> 0" and "pe OR ev \<noteq> 0"
proof -
  obtain n where n: "bit ev n" "bit (0x103 :: u32) n" "n < 32"
  proof -
    have "bit (0x1 :: u32) 0" "bit (0x2 :: u32) 1" "bit (0x100 :: u32) 8"
      "bit (0x103 :: u32) 0" "bit (0x103 :: u32) 1" "bit (0x103 :: u32) 8"
      by code_simp+
    then show ?thesis
      using assms that [of 0] that [of 1] that [of 8] by (auto simp: event_defs)
  qed
  then have "bit ((pe OR ev) AND 0x103) n" "bit (pe OR ev) n"
    by (simp_all add: bit_and_iff bit_or_iff)
  then show "(pe OR ev) AND 0x103 \<noteq> 0" and "pe OR ev \<noteq> 0"
    by (metis bit_0_eq bot_apply bot_bool_def)+
qed


definition open_events :: "u32 list" where
  "open_events = [WCND_EVENT_BT_OPEN, WCND_EVENT_WIFI_OPEN, WCND_EVENT_CP2POWERON_REQ]"

definition close_events :: "u32 list" where
  "close_events = [WCND_EVENT_BT_CLOSE, WCND_EVENT_WIFI_CLOSE, WCND_EVENT_CP2POWEROFF_REQ]"

lemma open_event_cases:
  assumes "ev \<in> set open_events"
  obtains "ev = WCND_EVENT_BT_OPEN" | "ev = WCND_EVENT_WIFI_OPEN" | "ev = WCND_EVENT_CP2POWERON_REQ"
  using assms by (auto simp: open_events_def)

lemma close_event_cases:
  assumes "ev \<in> set close_events"
  obtains "ev = WCND_EVENT_BT_CLOSE" | "ev = WCND_EVENT_WIFI_CLOSE" | "ev = WCND_EVENT_CP2POWEROFF_REQ"
  using assms by (auto simp: close_events_def)

definition turned_on :: "u32 \<Rightarrow> u32 \<Rightarrow> u32" where
  "turned_on ev b = (if ev = WCND_EVENT_BT_OPEN then b OR WCND_BTWIFI_STATE_BT_ON
     else if ev = WCND_EVENT_WIFI_OPEN then b OR WCND_BTWIFI_STATE_WIFI_ON else b)"

definition turned_off :: "u32 \<Rightarrow> u32 \<Rightarrow> u32" where
  "turned_off ev b = (if ev = WCND_EVENT_BT_CLOSE then b AND NOT WCND_BTWIFI_STATE_BT_ON
     else if ev = WCND_EVENT_WIFI_CLOSE then b AND NOT WCND_BTWIFI_STATE_WIFI_ON else b)"

text \<open>What the handlers do with the requests of the clients.\<close>

lemma stopped_opening:
  assumes "event msg \<in> set open_events"
  shows "wcn_state_cp2_stopped msg m = wcnd_send_selfcmd (''wcn '' @ WCND_SELF_CMD_START_CP2)
    (m\<lparr>notify_enabled := False, btwifi_state := turned_on (event msg) (btwifi_state m), state := WCND_STATE_CP2_STARTING\<rparr>)"
  using assms by (cases rule: open_event_cases)
    (cases m, simp add: wcn_state_cp2_stopped_def turned_on_def event_defs)+

lemma stopped_closing:
  assumes "event msg \<in> set close_events"
  shows "wcn_state_cp2_stopped msg m = reply '' OK'' WCND_CLIENT_TYPE_CMD (m\<lparr>notify_enabled := False\<rparr>)"
  using assms by (cases rule: close_event_cases) (simp add: wcn_state_cp2_stopped_def event_defs)+

lemma starting_opening:
  assumes "event msg \<in> set open_events"
  shows "wcn_state_cp2_starting msg m = m\<lparr>notify_enabled := False, btwifi_state := turned_on (event msg) (btwifi_state m)\<rparr>"
  using assms by (cases rule: open_event_cases)
    (cases m, simp add: wcn_state_cp2_starting_def turned_on_def event_defs)+

lemma starting_closing:
  assumes "event msg \<in> set close_events"
  shows "wcn_state_cp2_starting msg m = reply '' OK'' WCND_CLIENT_TYPE_CMD (m\<lparr>notify_enabled := False\<rparr>)"
  using assms by (cases rule: close_event_cases) (simp add: wcn_state_cp2_starting_def event_defs)+

lemma started_opening:
  assumes "event msg \<in> set open_events"
  shows "wcn_state_cp2_started msg m = reply '' OK'' WCND_CLIENT_TYPE_CMD
    (m\<lparr>notify_enabled := True, btwifi_state := turned_on (event msg) (btwifi_state m)\<rparr>)"
  using assms by (cases rule: open_event_cases)
    (cases m, simp add: wcn_state_cp2_started_def turned_on_def event_defs)+

lemma started_closing:
  assumes "event msg \<in> set close_events" and "saved_btwifi_state m = 0"
  shows "wcn_state_cp2_started msg m =
     (let m = m\<lparr>notify_enabled := True, btwifi_state := turned_off (event msg) (btwifi_state m)\<rparr> in
      if btwifi_state m = 0
      then wcnd_send_selfcmd (''wcn '' @ WCND_SELF_CMD_STOP_CP2) (m\<lparr>state := WCND_STATE_CP2_STOPPING\<rparr>)
      else reply '' OK'' WCND_CLIENT_TYPE_CMD m)"
  using assms(1) by (cases rule: close_event_cases)
    (insert assms(2), cases m, simp add: wcn_state_cp2_started_def turned_off_def event_defs)+

lemma stopping_opening:
  assumes "event msg \<in> set open_events"
  shows "wcn_state_cp2_stopping msg m = m\<lparr>notify_enabled := False,
    clients := mark_client (replyto_fd msg) WCND_CLIENT_TYPE_CMD_PENDING (clients m),
    pending_events := pending_events m OR event msg\<rparr>"
  using assms by (cases rule: open_event_cases) (simp add: wcn_state_cp2_stopping_def event_defs)+

lemma stopping_closing:
  assumes "event msg \<in> set close_events"
  shows "wcn_state_cp2_stopping msg m = m\<lparr>notify_enabled := False\<rparr>"
  using assms by (cases rule: close_event_cases) (simp add: wcn_state_cp2_stopping_def event_defs)+

lemmas handler_requests = stopped_opening stopped_closing starting_opening starting_closing
  started_opening started_closing stopping_opening stopping_closing

lemma reply_cmd_answered:
  "none_of WCND_CLIENT_TYPE_CMD_PENDING m \<Longrightarrow> answered (reply s WCND_CLIENT_TYPE_CMD m)"
  by (simp add: answered_iff notify_keeps_none_of)

lemma answered_update [simp]:
  "answered (m\<lparr>notify_enabled := b\<rparr>) = answered m"
  "answered (m\<lparr>state := s\<rparr>) = answered m"
  "answered (m\<lparr>btwifi_state := w\<rparr>) = answered m"
  "answered (wcnd_send_selfcmd cmd m) = answered m"
  by (simp_all add: answered_def)

lemma none_of_update [simp]:
  "none_of t (m\<lparr>notify_enabled := b\<rparr>) = none_of t m"
  "none_of t (m\<lparr>state := s\<rparr>) = none_of t m"
  "none_of t (m\<lparr>btwifi_state := w\<rparr>) = none_of t m"
  "none_of t (wcnd_send_selfcmd cmd m) = none_of t m"
  by (simp_all add: none_of_def)

lemma live_request:
  assumes live: "live m" and prompt: "selfcmd_stream m = [] \<or> state m \<noteq> WCND_STATE_CP2_STOPPED"
    and ev: "ev \<in> set (open_events @ close_events)"
  shows "live (wcnd_sm_step \<lparr>event = ev, replyto_fd = fd'\<rparr> (set_cmd_client fd m))"
proof -
  let ?m = "set_cmd_client fd m"
  have fields: "is_wcn_modem_enabled ?m" "saved_btwifi_state ?m = 0" "pending_events ?m = pending_events m"
    "state ?m = state m" "selfcmd_stream ?m = selfcmd_stream m"
    using live by (simp_all add: live_def set_cmd_client_def)
  have pe: "pending_events m \<noteq> 0 \<longrightarrow> pending_events m AND 0x103 \<noteq> 0"
    using live by (simp add: live_def)
  have quiet: "none_of WCND_CLIENT_TYPE_CMD_PENDING ?m" if "none_of WCND_CLIENT_TYPE_CMD_PENDING m"
    using mark_cmd_no_pending [OF that] by (simp add: set_cmd_client_def)
  consider "ev \<in> set open_events" | "ev \<in> set close_events"
    using ev by auto
  then show ?thesis
  proof cases
    case 1
    have "ev = WCND_EVENT_BT_OPEN \<or> ev = WCND_EVENT_WIFI_OPEN \<or> ev = WCND_EVENT_CP2POWERON_REQ"
      using 1 by (simp add: open_events_def)
    note or_event = or_event_not_zero [OF this]
    show ?thesis
      using live prompt 1 quiet fields pe or_event
      by (cases "state m") (simp_all add: live_def wcnd_sm_step_def handler_requests notify_keeps_none_of answered_iff)
  next
    case 2
    then show ?thesis
      using live prompt quiet fields pe
      by (cases "state m") (simp_all add: live_def wcnd_sm_step_def handler_requests notify_keeps_none_of answered_iff Let_def)
  qed
qed


text \<open>Parts of the commands that leave the state machine, its clients and its sockets alone.\<close>

definition same_sm :: "WcndManager \<Rightarrow> WcndManager \<Rightarrow> bool" where
  "same_sm m m' = (clients m' = clients m \<and> state m' = state m \<and> btwifi_state m' = btwifi_state m
     \<and> saved_btwifi_state m' = saved_btwifi_state m \<and> pending_events m' = pending_events m
     \<and> selfcmd_socket m' = selfcmd_socket m \<and> is_wcn_modem_enabled m' = is_wcn_modem_enabled m
     \<and> selfcmd_stream m' = selfcmd_stream m \<and> broken m' = broken m \<and> outbox m' = outbox m)"

lemma same_sm_refl [simp]: "same_sm m m"
  by (simp add: same_sm_def)

lemma same_sm_trans: "same_sm m m' \<Longrightarrow> same_sm m' m'' \<Longrightarrow> same_sm m m''"
  by (simp add: same_sm_def)

lemma same_sm_updates [simp]:
  "same_sm m' (m\<lparr>download_log := x\<rparr>) = same_sm m' m"
  "same_sm m' (m\<lparr>atcmd_log := x\<rparr>) = same_sm m' m"
  "same_sm m' (m\<lparr>doing_reset := b\<rparr>) = same_sm m' m"
  "same_sm m' (m\<lparr>is_cp2_error := b\<rparr>) = same_sm m' m"
  "same_sm m' (m\<lparr>is_cp2log_opened := b\<rparr>) = same_sm m' m"
  "same_sm m' (m\<lparr>cp2_version_info := v\<rparr>) = same_sm m' m"
  by (simp_all add: same_sm_def)

lemma same_sm_live: "same_sm m m' \<Longrightarrow> live m' = live m"
  by (cases "state m") (simp_all add: same_sm_def live_def answered_def none_of_def)

lemma same_sm_download [simp]:
  "same_sm m (snd (wcnd_start_cp2 a m))"
  "same_sm m (snd (wcnd_stop_cp2 a m))"
  by (simp_all add: wcnd_start_cp2_def wcnd_stop_cp2_def do_download_cmd_def split: prod.split)

lemma same_sm_open_attempts [simp]: "same_sm m (snd (open_attempts io n m))"
proof (induction io n m rule: open_attempts.induct)
  case (1 io n m)
  let ?m = "snd (wcnd_start_cp2 (download io n) m)"
  let ?again = "fst (wcnd_start_cp2 (download io n) m) < 0 \<or> polling_test_after_reset (loops io n) < 0"
  have "same_sm m (snd (open_attempts io (Suc n) ?m))" if "\<not> RESET_FAIL_RETRY_COUNT < n" "?again"
    using "1.IH" [OF that(1) refl that(2)] same_sm_trans same_sm_download(1) by blast
  then show ?case
    by (subst open_attempts.simps) (simp add: Let_def)
qed

lemma same_sm_before_atcmd:
  "same_sm m (snd (snd (before_send_atcmd (-1) cmd m)))"
  by (simp add: before_send_atcmd_def send_back_cmd_result_def Let_def)

lemma same_sm_process_atcmd: "same_sm m (snd (wcnd_process_atcmd (-1) cmd a m))"
proof -
  obtain ok atid m' where b: "before_send_atcmd (-1) cmd m = (ok, atid, m')"
    by (cases "before_send_atcmd (-1) cmd m")
  then have "same_sm m m'"
    using same_sm_before_atcmd [of m cmd] by simp
  then show ?thesis
    unfolding wcnd_process_atcmd_def b prod.case send_back_cmd_result_def Let_def
    by (simp split: option.split)
qed

lemma same_sm_config [simp]: "same_sm m (config_cp2_bootup a m)"
  by (simp add: config_cp2_bootup_def same_sm_process_atcmd)


text \<open>
  Between two states of the daemon: the messages sent in between, and that every client that waited,
  and whose socket works, still waits or has been sent the reply to its request.
\<close>

definition serves :: "WcndManager \<Rightarrow> WcndManager \<Rightarrow> bool" where
  "serves m m' = (broken m' = broken m \<and> (\<exists>ys. outbox m' = outbox m @ ys \<and>
     (\<forall>c \<in> set (clients m). waiting c \<longrightarrow> sockfd c \<notin> set (broken m) \<longrightarrow>
        c \<in> set (clients m') \<or> (\<exists>res. (sockfd c, WCND_CMD_RESPONSE_STRING @ res) \<in> set ys))))"

lemma servesI:
  assumes "broken m' = broken m" and "outbox m' = outbox m @ ys"
    and "\<And>c. c \<in> set (clients m) \<Longrightarrow> waiting c \<Longrightarrow> sockfd c \<notin> set (broken m) \<Longrightarrow>
      c \<in> set (clients m') \<or> (\<exists>res. (sockfd c, WCND_CMD_RESPONSE_STRING @ res) \<in> set ys)"
  shows "serves m m'"
  using assms unfolding serves_def by blast

lemma serves_same:
  "clients m' = clients m \<Longrightarrow> broken m' = broken m \<Longrightarrow> outbox m' = outbox m \<Longrightarrow> serves m m'"
  by (rule servesI [where ys = "[]"]) simp_all

lemma serves_trans:
  assumes "serves m m'" and "serves m' m''"
  shows "serves m m''"
proof -
  obtain ys ys' where *: "broken m' = broken m" "outbox m' = outbox m @ ys"
      "\<And>c. c \<in> set (clients m) \<Longrightarrow> waiting c \<Longrightarrow> sockfd c \<notin> set (broken m) \<Longrightarrow>
        c \<in> set (clients m') \<or> (\<exists>res. (sockfd c, WCND_CMD_RESPONSE_STRING @ res) \<in> set ys)"
    and **: "broken m'' = broken m'" "outbox m'' = outbox m' @ ys'"
      "\<And>c. c \<in> set (clients m') \<Longrightarrow> waiting c \<Longrightarrow> sockfd c \<notin> set (broken m') \<Longrightarrow>
        c \<in> set (clients m'') \<or> (\<exists>res. (sockfd c, WCND_CMD_RESPONSE_STRING @ res) \<in> set ys')"
    using assms unfolding serves_def by blast
  show ?thesis
  proof (rule servesI [where ys = "ys @ ys'"])
    show "broken m'' = broken m" "outbox m'' = outbox m @ ys @ ys'"
      using * ** by simp_all
    fix c assume c: "c \<in> set (clients m)" "waiting c" "sockfd c \<notin> set (broken m)"
    show "c \<in> set (clients m'') \<or> (\<exists>res. (sockfd c, WCND_CMD_RESPONSE_STRING @ res) \<in> set (ys @ ys'))"
      using *(3) [OF c] **(3) [of c] c(2,3) *(1) by auto
  qed
qed

lemma serves_reply:
  assumes "t = WCND_CLIENT_TYPE_CMD \<or> t = WCND_CLIENT_TYPE_CMD_PENDING"
  shows "serves m (reply s t m)"
proof (rule servesI)
  have t: "t \<noteq> WCND_CLIENT_TYPE_NOTIFY"
    using assms by (auto simp: client_type_defs)
  let ?ys = "map (\<lambda>c. (sockfd c, WCND_CMD_RESPONSE_STRING @ s))
    (filter (\<lambda>c. sockfd c \<notin> set (broken m)) (filter (addressed t) (clients m)))"
  show "broken (reply s t m) = broken m"
    by simp
  show "outbox (reply s t m) = outbox m @ ?ys"
    using t by (simp add: wcnd_send_notify_to_client_def Let_def)
  fix c assume c: "c \<in> set (clients m)" "sockfd c \<notin> set (broken m)"
  show "c \<in> set (clients (reply s t m)) \<or> (\<exists>res. (sockfd c, WCND_CMD_RESPONSE_STRING @ res) \<in> set ?ys)"
  proof (cases "addressed t c")
    case True
    then have "(sockfd c, WCND_CMD_RESPONSE_STRING @ s) \<in> set ?ys"
      using c by force
    then show ?thesis by blast
  next
    case False
    then show ?thesis
      using c by (auto simp: notify_clients [OF t])
  qed
qed

text \<open>What the handlers do with the outcome of a self command.\<close>

lemma starting_outcome:
  "wcn_state_cp2_starting (self_message WCND_EVENT_CP2_OK) m =
     (reply '' OK'' WCND_CLIENT_TYPE_CMD_PENDING (reply '' OK'' WCND_CLIENT_TYPE_CMD
        (m\<lparr>notify_enabled := False, state := WCND_STATE_CP2_STARTED\<rparr>)))\<lparr>notify_enabled := True\<rparr>"
  "wcn_state_cp2_starting (self_message WCND_EVENT_CP2_DOWN) m =
     reply '' FAIL'' WCND_CLIENT_TYPE_CMD_PENDING (reply '' FAIL'' WCND_CLIENT_TYPE_CMD
        (m\<lparr>notify_enabled := False, state := WCND_STATE_CP2_STOPPED\<rparr>))"
  by (simp_all add: wcn_state_cp2_starting_def event_defs)

lemma stopping_down:
  "wcn_state_cp2_stopping (self_message WCND_EVENT_CP2_DOWN) m =
     (let m = reply '' OK'' WCND_CLIENT_TYPE_CMD (m\<lparr>notify_enabled := False, state := WCND_STATE_CP2_STOPPED\<rparr>)
      in if pending_events m \<noteq> 0 then wcnd_send_selfcmd (''wcn '' @ WCND_SELF_CMD_PENDINGEVENT) m else m)"
  by (simp add: wcn_state_cp2_stopping_def event_defs)

lemma and_0x103_split:
  fixes pe :: u32
  assumes "pe AND 0x103 \<noteq> 0"
  shows "pe AND 1 \<noteq> 0 \<or> pe AND 2 \<noteq> 0 \<or> pe AND 0x100 \<noteq> 0"
proof -
  have "(0x103 :: u32) = 1 OR (2 OR 0x100)"
    by code_simp
  then have "pe AND 0x103 = (pe AND 1) OR ((pe AND 2) OR (pe AND 0x100))"
    by (simp only: bit.conj_disj_distrib)
  then show ?thesis
    using assms by auto
qed

lemma or_bit_not_zero:
  fixes b :: u32
  shows "b OR 1 \<noteq> 0" and "b OR 2 \<noteq> 0"
  using or_event_not_zero(2) [of WCND_EVENT_BT_OPEN b] or_event_not_zero(2) [of WCND_EVENT_WIFI_OPEN b]
  by (simp_all add: event_defs)

lemma stopped_pending:
  assumes "pending_events m AND 0x103 \<noteq> 0"
  obtains w where "wcn_state_cp2_stopped (self_message WCND_EVENT_PENGING_EVENT) m =
    wcnd_send_selfcmd (''wcn '' @ WCND_SELF_CMD_START_CP2)
      (m\<lparr>notify_enabled := False, btwifi_state := w, state := WCND_STATE_CP2_STARTING\<rparr>)"
proof -
  define w where "w = (if pending_events m AND 2 \<noteq> 0 then
      (if pending_events m AND 1 \<noteq> 0 then btwifi_state m OR 1 else btwifi_state m) OR 2
    else if pending_events m AND 1 \<noteq> 0 then btwifi_state m OR 1 else btwifi_state m)"
  have "wcn_state_cp2_stopped (self_message WCND_EVENT_PENGING_EVENT) m =
    wcnd_send_selfcmd (''wcn '' @ WCND_SELF_CMD_START_CP2)
      (m\<lparr>notify_enabled := False, btwifi_state := w, state := WCND_STATE_CP2_STARTING\<rparr>)"
    using and_0x103_split [OF assms]
    by (cases m) (auto simp: wcn_state_cp2_stopped_def event_defs WCND_BTWIFI_STATE_BT_ON_def
        WCND_BTWIFI_STATE_WIFI_ON_def Let_def w_def or_bit_not_zero)
  then show thesis
    by (rule that)
qed

definition rank :: "WcndManager \<Rightarrow> nat" where
  "rank m = (if selfcmd_stream m = [] then 0 else
     case state m of WCND_STATE_CP2_STOPPING \<Rightarrow> 3 | WCND_STATE_CP2_STOPPED \<Rightarrow> 2 | _ \<Rightarrow> 1)"

lemma serves_replies:
  "serves m (reply s WCND_CLIENT_TYPE_CMD_PENDING (reply s' WCND_CLIENT_TYPE_CMD
     (m\<lparr>notify_enabled := b, state := st\<rparr>)))"
proof -
  have "serves m (m\<lparr>notify_enabled := b, state := st\<rparr>)"
    by (rule serves_same) simp_all
  then show ?thesis
    by (rule serves_trans [OF serves_trans [OF _ serves_reply] serves_reply]) simp_all
qed

lemma open_outcome:
  assumes "is_wcn_modem_enabled m" and "state m = WCND_STATE_CP2_STARTING" and "selfcmd_stream m = []"
    and "saved_btwifi_state m = 0" and "pending_events m \<noteq> 0 \<longrightarrow> pending_events m AND 0x103 \<noteq> 0"
    and "ev = WCND_EVENT_CP2_OK \<or> ev = WCND_EVENT_CP2_DOWN"
  shows "live (wcnd_sm_step (self_message ev) m) \<and> serves m (wcnd_sm_step (self_message ev) m)
    \<and> selfcmd_stream (wcnd_sm_step (self_message ev) m) = []"
proof -
  have "serves m ((reply s WCND_CLIENT_TYPE_CMD_PENDING (reply s' WCND_CLIENT_TYPE_CMD
     (m\<lparr>notify_enabled := b, state := st\<rparr>)))\<lparr>notify_enabled := b'\<rparr>)" for s s' b b' st
    by (rule serves_trans [OF serves_replies serves_same]) simp_all
  then show ?thesis
    using assms serves_replies [of m]
    by (auto simp: wcnd_sm_step_def starting_outcome live_def reply_both_answered)
qed


lemma same_sm_serves: "same_sm m m' \<Longrightarrow> serves m m'"
  by (rule serves_same) (simp_all add: same_sm_def)

lemma open_cp2_live:
  assumes "is_wcn_modem_enabled m" and "state m = WCND_STATE_CP2_STARTING" and "selfcmd_stream m = []"
    and "saved_btwifi_state m = 0" and "pending_events m \<noteq> 0 \<longrightarrow> pending_events m AND 0x103 \<noteq> 0"
  shows "live (wcnd_open_cp2 io m) \<and> serves m (wcnd_open_cp2 io m) \<and> selfcmd_stream (wcnd_open_cp2 io m) = []"
proof -
  obtain ok m1 where open_eq: "open_attempts io 0 (m\<lparr>doing_reset := True\<rparr>) = (ok, m1)"
    by (cases "open_attempts io 0 (m\<lparr>doing_reset := True\<rparr>)")
  have "same_sm (m\<lparr>doing_reset := True\<rparr>) m1"
    using same_sm_open_attempts [of "m\<lparr>doing_reset := True\<rparr>" io 0] by (simp add: open_eq)
  then have "same_sm m m1"
    by (simp add: same_sm_def)
  define m2 where "m2 = (if ok then m1\<lparr>is_cp2_error := False\<rparr> else m1)"
  define ev where "ev = (if ok then WCND_EVENT_CP2_OK else WCND_EVENT_CP2_DOWN)"
  define m3 where "m3 = wcnd_sm_step (self_message ev) m2"
  have same: "same_sm m m2"
    using \<open>same_sm m m1\<close> by (simp add: m2_def)
  then have "is_wcn_modem_enabled m2" "state m2 = WCND_STATE_CP2_STARTING" "selfcmd_stream m2 = []"
    "saved_btwifi_state m2 = 0" "pending_events m2 \<noteq> 0 \<longrightarrow> pending_events m2 AND 0x103 \<noteq> 0"
    using assms by (simp_all add: same_sm_def)
  from open_outcome [OF this, of ev] have m3: "live m3 \<and> serves m2 m3 \<and> selfcmd_stream m3 = []"
    by (simp add: ev_def m3_def)
  define m4 where "m4 = (if ok then config_cp2_bootup (atcmd io) m3 else m3)"
  have m4: "same_sm m3 m4"
    by (simp add: m4_def)
  have "wcnd_open_cp2 io m = m4"
    by (simp add: wcnd_open_cp2_def open_eq m4_def m3_def m2_def ev_def)
  moreover have "serves m m4"
    using serves_trans [OF serves_trans [OF same_sm_serves [OF same]] same_sm_serves [OF m4]] m3 by simp
  ultimately show ?thesis
    using m3 m4 same_sm_live [OF m4] by (simp add: same_sm_def)
qed

lemma close_cp2_live:
  assumes "is_wcn_modem_enabled m" and "state m = WCND_STATE_CP2_STOPPING" and "selfcmd_stream m = []"
    and "saved_btwifi_state m = 0" and "pending_events m \<noteq> 0 \<longrightarrow> pending_events m AND 0x103 \<noteq> 0"
    and "pending_events m = 0 \<longrightarrow> none_of WCND_CLIENT_TYPE_CMD_PENDING m"
  shows "live (wcnd_close_cp2 io m) \<and> serves m (wcnd_close_cp2 io m) \<and> rank (wcnd_close_cp2 io m) \<le> 2"
proof -
  define m1 where "m1 = snd (wcnd_stop_cp2 (download io 0) m)"
  have same: "same_sm m m1"
    by (simp add: m1_def)
  then have m1: "is_wcn_modem_enabled m1" "state m1 = WCND_STATE_CP2_STOPPING" "selfcmd_stream m1 = []"
    "saved_btwifi_state m1 = 0" "pending_events m1 \<noteq> 0 \<longrightarrow> pending_events m1 AND 0x103 \<noteq> 0"
    "pending_events m1 = 0 \<longrightarrow> none_of WCND_CLIENT_TYPE_CMD_PENDING m1"
    using assms by (simp_all add: same_sm_def none_of_def)
  let ?r = "reply '' OK'' WCND_CLIENT_TYPE_CMD (m1\<lparr>notify_enabled := False, state := WCND_STATE_CP2_STOPPED\<rparr>)"
  define m2 where "m2 = (if pending_events m1 \<noteq> 0 then wcnd_send_selfcmd (''wcn '' @ WCND_SELF_CMD_PENDINGEVENT) ?r else ?r)"
  have eq: "wcnd_close_cp2 io m = m2"
    using m1 by (simp add: wcnd_close_cp2_def m1_def [symmetric] wcnd_sm_step_def stopping_down Let_def m2_def)
  have "serves m1 (m1\<lparr>notify_enabled := False, state := WCND_STATE_CP2_STOPPED\<rparr>)"
    by (rule serves_same) simp_all
  then have "serves m1 ?r"
    by (rule serves_trans [OF _ serves_reply]) simp
  moreover have "serves ?r m2"
    by (rule serves_same) (simp_all add: m2_def)
  ultimately have "serves m m2"
    by (rule serves_trans [OF serves_trans [OF same_sm_serves [OF same]]])
  moreover have "live m2"
    using m1 by (simp add: m2_def live_def reply_cmd_answered)
  ultimately show ?thesis
    by (simp add: eq m2_def rank_def)
qed

lemma pending_event_live:
  assumes "is_wcn_modem_enabled m" and "state m = WCND_STATE_CP2_STOPPED" and "selfcmd_stream m = []"
    and "saved_btwifi_state m = 0" and "pending_events m AND 0x103 \<noteq> 0"
  shows "live (wcnd_sm_step (self_message WCND_EVENT_PENGING_EVENT) m)
    \<and> serves m (wcnd_sm_step (self_message WCND_EVENT_PENGING_EVENT) m)
    \<and> rank (wcnd_sm_step (self_message WCND_EVENT_PENGING_EVENT) m) \<le> 1"
proof -
  obtain w where w: "wcn_state_cp2_stopped (self_message WCND_EVENT_PENGING_EVENT) m =
    wcnd_send_selfcmd (''wcn '' @ WCND_SELF_CMD_START_CP2)
      (m\<lparr>notify_enabled := False, btwifi_state := w, state := WCND_STATE_CP2_STARTING\<rparr>)"
    using stopped_pending [OF assms(5)] .
  show ?thesis
    using assms by (simp add: wcnd_sm_step_def w live_def rank_def serves_same)
qed

lemma self_round_plain:
  assumes "selfcmd_stream m = ''wcn '' @ cmd" and "cmd \<in> set self_commands"
  shows "self_round (executers io sub) m = wcnd_runcommand io (selfcmd_socket m) [cmd] (m\<lparr>selfcmd_stream := []\<rparr>)"
proof -
  have "length (''wcn '' @ cmd) \<le> 254"
    using assms(2) by (auto simp: self_commands_def)
  then have "drop 254 (''wcn '' @ cmd) = []"
    by (rule drop_all)
  then show ?thesis
    unfolding self_round_def assms(1) using assms(2) by (subst process_plain) auto
qed

lemma runcommand_self:
  "wcnd_runcommand io fd [WCND_SELF_CMD_START_CP2] m = wcnd_open_cp2 io m"
  "wcnd_runcommand io fd [WCND_SELF_CMD_STOP_CP2] m = wcnd_close_cp2 io m"
  "wcnd_runcommand io fd [WCND_SELF_CMD_PENDINGEVENT] m = wcnd_sm_step (self_message WCND_EVENT_PENGING_EVENT) m"
proof -
  have str: "list_all (\<lambda>c. c \<noteq> ''reset'' \<and> c \<noteq> ''test'' \<and> \<not> strstr c ''at+'' \<and> \<not> strstr c ''BT'' \<and> \<not> strstr c ''WIFI'')
    [WCND_SELF_CMD_START_CP2, WCND_SELF_CMD_STOP_CP2, WCND_SELF_CMD_PENDINGEVENT]
    \<and> WCND_SELF_CMD_STOP_CP2 \<noteq> WCND_SELF_CMD_START_CP2 \<and> WCND_SELF_CMD_PENDINGEVENT \<noteq> WCND_SELF_CMD_START_CP2
    \<and> WCND_SELF_CMD_PENDINGEVENT \<noteq> WCND_SELF_CMD_STOP_CP2"
    by code_simp
  then show "wcnd_runcommand io fd [WCND_SELF_CMD_START_CP2] m = wcnd_open_cp2 io m"
    "wcnd_runcommand io fd [WCND_SELF_CMD_STOP_CP2] m = wcnd_close_cp2 io m"
    "wcnd_runcommand io fd [WCND_SELF_CMD_PENDINGEVENT] m = wcnd_sm_step (self_message WCND_EVENT_PENGING_EVENT) m"
    by (simp_all only: wcnd_runcommand_def list.case list.pred_inject simp_thms if_False if_True)
qed

lemma self_round_self:
  "selfcmd_stream m = ''wcn '' @ WCND_SELF_CMD_START_CP2 \<Longrightarrow>
     self_round (executers io sub) m = wcnd_open_cp2 io (m\<lparr>selfcmd_stream := []\<rparr>)"
  "selfcmd_stream m = ''wcn '' @ WCND_SELF_CMD_STOP_CP2 \<Longrightarrow>
     self_round (executers io sub) m = wcnd_close_cp2 io (m\<lparr>selfcmd_stream := []\<rparr>)"
  "selfcmd_stream m = ''wcn '' @ WCND_SELF_CMD_PENDINGEVENT \<Longrightarrow>
     self_round (executers io sub) m = wcnd_sm_step (self_message WCND_EVENT_PENGING_EVENT) (m\<lparr>selfcmd_stream := []\<rparr>)"
proof -
  have "WCND_SELF_CMD_START_CP2 \<in> set self_commands" "WCND_SELF_CMD_STOP_CP2 \<in> set self_commands"
    "WCND_SELF_CMD_PENDINGEVENT \<in> set self_commands"
    by (simp_all add: self_commands_def WCND_SELF_CMD_START_CP2_def WCND_SELF_CMD_STOP_CP2_def WCND_SELF_CMD_PENDINGEVENT_def)
  note plain = this [THEN self_round_plain [rotated]]
  show "selfcmd_stream m = ''wcn '' @ WCND_SELF_CMD_START_CP2 \<Longrightarrow>
     self_round (executers io sub) m = wcnd_open_cp2 io (m\<lparr>selfcmd_stream := []\<rparr>)"
    by (simp only: plain(1) runcommand_self)
  show "selfcmd_stream m = ''wcn '' @ WCND_SELF_CMD_STOP_CP2 \<Longrightarrow>
     self_round (executers io sub) m = wcnd_close_cp2 io (m\<lparr>selfcmd_stream := []\<rparr>)"
    by (simp only: plain(2) runcommand_self)
  show "selfcmd_stream m = ''wcn '' @ WCND_SELF_CMD_PENDINGEVENT \<Longrightarrow>
     self_round (executers io sub) m = wcnd_sm_step (self_message WCND_EVENT_PENGING_EVENT) (m\<lparr>selfcmd_stream := []\<rparr>)"
    by (simp only: plain(3) runcommand_self)
qed

lemma self_round_live:
  assumes "live m"
  shows "live (self_round (executers io sub) m) \<and> serves m (self_round (executers io sub) m)
    \<and> rank (self_round (executers io sub) m) \<le> rank m - 1"
proof (cases "selfcmd_stream m = []")
  case True
  then show ?thesis
    using assms by (simp add: self_round_def rank_def serves_same)
next
  case False
  let ?m = "m\<lparr>selfcmd_stream := []\<rparr>"
  have fields: "is_wcn_modem_enabled ?m" "saved_btwifi_state ?m = 0" "selfcmd_stream ?m = []"
      "pending_events ?m \<noteq> 0 \<longrightarrow> pending_events ?m AND 0x103 \<noteq> 0"
    and serves: "serves m ?m"
    using assms by (simp_all add: live_def serves_same)
  consider (starting) "state m = WCND_STATE_CP2_STARTING" "selfcmd_stream m = ''wcn '' @ WCND_SELF_CMD_START_CP2"
    | (stopping) "state m = WCND_STATE_CP2_STOPPING" "selfcmd_stream m = ''wcn '' @ WCND_SELF_CMD_STOP_CP2"
        "pending_events m = 0 \<longrightarrow> none_of WCND_CLIENT_TYPE_CMD_PENDING m"
    | (stopped) "state m = WCND_STATE_CP2_STOPPED" "selfcmd_stream m = ''wcn '' @ WCND_SELF_CMD_PENDINGEVENT"
        "pending_events m \<noteq> 0"
    using assms False by (cases "state m") (simp_all add: live_def)
  then show ?thesis
  proof cases
    case starting
    have "self_round (executers io sub) m = wcnd_open_cp2 io ?m"
      by (rule self_round_self(1) [OF starting(2)])
    moreover have "rank m = 1"
      using starting by (simp add: rank_def)
    ultimately show ?thesis
      using open_cp2_live [of ?m io] fields starting(1) serves_trans [OF serves] by (simp add: rank_def)
  next
    case stopping
    have "self_round (executers io sub) m = wcnd_close_cp2 io ?m"
      by (rule self_round_self(2) [OF stopping(2)])
    moreover have "rank m = 3"
      using stopping by (simp add: rank_def)
    moreover have "pending_events ?m = 0 \<longrightarrow> none_of WCND_CLIENT_TYPE_CMD_PENDING ?m"
      using stopping(3) by (simp add: none_of_def)
    ultimately show ?thesis
      using close_cp2_live [of ?m io] fields stopping(1) serves_trans [OF serves] by simp
  next
    case stopped
    have "self_round (executers io sub) m = wcnd_sm_step (self_message WCND_EVENT_PENGING_EVENT) ?m"
      by (rule self_round_self(3) [OF stopped(2)])
    moreover have "rank m = 2"
      using stopped by (simp add: rank_def)
    ultimately show ?thesis
      using pending_event_live [of ?m] fields stopped(1,3) serves_trans [OF serves] by simp
  qed
qed

text \<open>The requests of the clients, and the events they stand for.\<close>

lemma runcommand_btwifi:
  assumes "is_wcn_modem_enabled m"
  shows "wcnd_runcommand io fd [''BT-OPEN''] m = wcnd_sm_step \<lparr>event = WCND_EVENT_BT_OPEN, replyto_fd = fd\<rparr> (set_cmd_client fd m)"
    and "wcnd_runcommand io fd [''BT-CLOSE''] m = wcnd_sm_step \<lparr>event = WCND_EVENT_BT_CLOSE, replyto_fd = fd\<rparr> (set_cmd_client fd m)"
    and "wcnd_runcommand io fd [''WIFI-OPEN''] m = wcnd_sm_step \<lparr>event = WCND_EVENT_WIFI_OPEN, replyto_fd = fd\<rparr> (set_cmd_client fd m)"
    and "wcnd_runcommand io fd [''WIFI-CLOSE''] m = wcnd_sm_step \<lparr>event = WCND_EVENT_WIFI_CLOSE, replyto_fd = fd\<rparr> (set_cmd_client fd m)"
proof -
  have en: "is_wcn_modem_enabled (set_cmd_client fd m)"
    using assms by (simp add: set_cmd_client_def)
  have run: "wcnd_runcommand io fd [cmd] m = wcn_process_btwificmd fd cmd (set_cmd_client fd m)"
    if "list_all (\<lambda>c. c \<noteq> ''reset'' \<and> c \<noteq> ''test'' \<and> \<not> strstr c ''at+'' \<and> (strstr c ''BT'' \<or> strstr c ''WIFI'')) [cmd]" for cmd
    using that by (simp only: wcnd_runcommand_def list.case list.pred_inject simp_thms if_False if_True)
  show "wcnd_runcommand io fd [''BT-OPEN''] m = wcnd_sm_step \<lparr>event = WCND_EVENT_BT_OPEN, replyto_fd = fd\<rparr> (set_cmd_client fd m)"
    by (subst run, code_simp, simp add: wcn_process_btwificmd_def en)
  show "wcnd_runcommand io fd [''BT-CLOSE''] m = wcnd_sm_step \<lparr>event = WCND_EVENT_BT_CLOSE, replyto_fd = fd\<rparr> (set_cmd_client fd m)"
    by (subst run, code_simp, simp add: wcn_process_btwificmd_def en)
  show "wcnd_runcommand io fd [''WIFI-OPEN''] m = wcnd_sm_step \<lparr>event = WCND_EVENT_WIFI_OPEN, replyto_fd = fd\<rparr> (set_cmd_client fd m)"
    by (subst run, code_simp, simp add: wcn_process_btwificmd_def en)
  show "wcnd_runcommand io fd [''WIFI-CLOSE''] m = wcnd_sm_step \<lparr>event = WCND_EVENT_WIFI_CLOSE, replyto_fd = fd\<rparr> (set_cmd_client fd m)"
    by (subst run, code_simp, simp add: wcn_process_btwificmd_def en)
qed

lemma runcommand_power:
  assumes "is_wcn_modem_enabled m"
  shows "wcnd_runcommand io fd [''poweron''] m = wcnd_sm_step \<lparr>event = WCND_EVENT_CP2POWERON_REQ,
      replyto_fd = (if fd = selfcmd_socket m then -1 else fd)\<rparr> (set_cmd_client fd m)"
    and "wcnd_runcommand io fd [''poweroff''] m = wcnd_sm_step \<lparr>event = WCND_EVENT_CP2POWEROFF_REQ,
      replyto_fd = (if fd = selfcmd_socket m then -1 else fd)\<rparr> (set_cmd_client fd m)"
proof -
  have en: "is_wcn_modem_enabled (set_cmd_client fd m)" "selfcmd_socket (set_cmd_client fd m) = selfcmd_socket m"
    using assms by (simp_all add: set_cmd_client_def)
  have str: "list_all (\<lambda>c. c \<noteq> ''reset'' \<and> c \<noteq> ''test'' \<and> \<not> strstr c ''at+'' \<and> \<not> strstr c ''BT'' \<and> \<not> strstr c ''WIFI''
    \<and> c \<noteq> WCND_SELF_CMD_START_CP2 \<and> c \<noteq> WCND_SELF_CMD_STOP_CP2 \<and> c \<noteq> WCND_SELF_CMD_PENDINGEVENT \<and> c \<noteq> ''cp2assert'')
    [''poweron'', ''poweroff''] \<and> ''poweroff'' \<noteq> ''poweron''"
    by code_simp
  have "wcnd_runcommand io fd [''poweron''] m = power_request WCND_EVENT_CP2POWERON_REQ fd m"
    and "wcnd_runcommand io fd [''poweroff''] m = power_request WCND_EVENT_CP2POWEROFF_REQ fd m"
    using str by (simp_all only: wcnd_runcommand_def list.case list.pred_inject simp_thms if_False if_True)
  then show "wcnd_runcommand io fd [''poweron''] m = wcnd_sm_step \<lparr>event = WCND_EVENT_CP2POWERON_REQ,
      replyto_fd = (if fd = selfcmd_socket m then -1 else fd)\<rparr> (set_cmd_client fd m)"
    and "wcnd_runcommand io fd [''poweroff''] m = wcnd_sm_step \<lparr>event = WCND_EVENT_CP2POWEROFF_REQ,
      replyto_fd = (if fd = selfcmd_socket m then -1 else fd)\<rparr> (set_cmd_client fd m)"
    by (simp_all only: power_request_def Let_def en simp_thms if_False)
qed

lemma request_step:
  assumes "cmd \<in> set requests" and "is_wcn_modem_enabled m"
  obtains ev fd' where "ev \<in> set (open_events @ close_events)"
    and "process_active_client_fd (executers io sub) fd (''wcn '' @ cmd) m
      = wcnd_sm_step \<lparr>event = ev, replyto_fd = fd'\<rparr> (set_cmd_client fd m)"
proof -
  note result = that
  have plain: "process_active_client_fd (executers io sub) fd (''wcn '' @ cmd) m = wcnd_runcommand io fd [cmd] m"
    using assms(1) by (intro process_plain) simp
  have ev: "WCND_EVENT_BT_OPEN \<in> set (open_events @ close_events)" "WCND_EVENT_BT_CLOSE \<in> set (open_events @ close_events)"
    "WCND_EVENT_WIFI_OPEN \<in> set (open_events @ close_events)" "WCND_EVENT_WIFI_CLOSE \<in> set (open_events @ close_events)"
    "WCND_EVENT_CP2POWERON_REQ \<in> set (open_events @ close_events)" "WCND_EVENT_CP2POWEROFF_REQ \<in> set (open_events @ close_events)"
    by (simp_all add: open_events_def close_events_def)
  have "cmd = ''BT-OPEN'' \<or> cmd = ''BT-CLOSE'' \<or> cmd = ''WIFI-OPEN'' \<or> cmd = ''WIFI-CLOSE'' \<or> cmd = ''poweron'' \<or> cmd = ''poweroff''"
    using assms(1) by (simp add: requests_def)
  moreover have goal: thesis if "ev \<in> set (open_events @ close_events)"
    "wcnd_runcommand io fd [cmd] m = wcnd_sm_step \<lparr>event = ev, replyto_fd = fd'\<rparr> (set_cmd_client fd m)" for ev fd'
    by (rule result [OF that(1)]) (simp only: plain that(2))
  note run = runcommand_btwifi [OF assms(2)] runcommand_power [OF assms(2)]
  ultimately show thesis
    by (elim disjE)
      (rule goal [OF ev(1)], hypsubst, rule run(1), rule goal [OF ev(2)], hypsubst, rule run(2),
       rule goal [OF ev(3)], hypsubst, rule run(3), rule goal [OF ev(4)], hypsubst, rule run(4),
       rule goal [OF ev(5)], hypsubst, rule run(5), rule goal [OF ev(6)], hypsubst, rule run(6))
qed

text \<open>
  The runs without exceptions of the co-processor in which the self command that announces pending
  events is read before the next request of a client is: clients connect, break and go away, send
  requests, and the self commands are read, with arbitrary answers of the devices each time.
\<close>

inductive wcnd_run :: "submodules \<Rightarrow> WcndManager \<Rightarrow> bool" for sub where
  start: "wcnd_run sub (wcnd_init self eng_only True userdebug)"
| connect: "wcnd_run sub m \<Longrightarrow> 0 \<le> c \<Longrightarrow> wcnd_run sub (accept_client c m)"
| hangup: "wcnd_run sub m \<Longrightarrow> wcnd_run sub (zap_client fd m)"
| peers: "wcnd_run sub m \<Longrightarrow> wcnd_run sub (m\<lparr>broken := fds\<rparr>)"
| request: "wcnd_run sub m \<Longrightarrow> cmd \<in> set requests \<Longrightarrow>
    selfcmd_stream m = [] \<or> state m \<noteq> WCND_STATE_CP2_STOPPED \<Longrightarrow>
    wcnd_run sub (process_active_client_fd (executers io sub) fd (''wcn '' @ cmd) m)"
| self_command: "wcnd_run sub m \<Longrightarrow> wcnd_run sub (self_round (executers io sub) m)"

lemma set_store_client:
  "x \<in> set (store_client c cl) \<Longrightarrow> x \<in> set cl \<or> client_type x = WCND_CLIENT_TYPE_NOTIFY"
  by (induction cl) (auto split: if_splits)

lemma set_remove_client:
  "x \<in> set (remove_client c cl) \<Longrightarrow> x \<in> set cl \<or> client_type x = WCND_CLIENT_TYPE_NOTIFY"
  by (induction cl) (auto split: if_splits)

lemma live_clients:
  assumes "live m" and "\<And>c. c \<in> set cl \<Longrightarrow> c \<in> set (clients m) \<or> client_type c = WCND_CLIENT_TYPE_NOTIFY"
  shows "live (m\<lparr>clients := cl\<rparr>)"
proof -
  have "\<not> addressed WCND_CLIENT_TYPE_CMD c \<and> \<not> addressed WCND_CLIENT_TYPE_CMD_PENDING c"
    if "client_type c = WCND_CLIENT_TYPE_NOTIFY" for c
    using that by (simp add: addressed_def client_type_defs)
  then have "\<not> addressed t c" if "none_of t m" "t = WCND_CLIENT_TYPE_CMD \<or> t = WCND_CLIENT_TYPE_CMD_PENDING" "c \<in> set cl" for t c
    using that assms(2) [OF that(3)] unfolding none_of_def by blast
  then have "none_of t (m\<lparr>clients := cl\<rparr>)" if "none_of t m" "t = WCND_CLIENT_TYPE_CMD \<or> t = WCND_CLIENT_TYPE_CMD_PENDING" for t
    using that by (simp add: none_of_def)
  then show ?thesis
    using assms(1) by (cases "state m") (auto simp: live_def answered_iff)
qed

lemma wcnd_run_live: "wcnd_run sub m \<Longrightarrow> live m"
proof (induction rule: wcnd_run.induct)
  case (start self eng_only userdebug)
  show ?case
    by (simp add: live_def wcnd_init_def wcnd_sm_init_def answered_def waiting_def addressed_def)
next
  case (connect m c)
  then show ?case
    unfolding accept_client_def using set_store_client by (intro live_clients)
next
  case (hangup m fd)
  then show ?case
    unfolding zap_client_def using set_remove_client by (intro live_clients)
next
  case (peers m fds)
  then show ?case
    by (cases "state m") (simp_all add: live_def answered_def none_of_def)
next
  case (request m cmd io fd)
  have "is_wcn_modem_enabled m"
    using request.IH by (simp add: live_def)
  from request_step [OF request.hyps(2) this] obtain ev fd' where
    "ev \<in> set (open_events @ close_events)"
    "process_active_client_fd (executers io sub) fd (''wcn '' @ cmd) m
      = wcnd_sm_step \<lparr>event = ev, replyto_fd = fd'\<rparr> (set_cmd_client fd m)" .
  then show ?case
    using live_request [OF request.IH request.hyps(3)] by simp
next
  case (self_command m io)
  then show ?case
    using self_round_live by blast
qed

fun self_rounds :: "submodules \<Rightarrow> cp2_io list \<Rightarrow> WcndManager \<Rightarrow> WcndManager" where
  "self_rounds sub [] m = m"
| "self_rounds sub (io # ios) m = self_rounds sub ios (self_round (executers io sub) m)"

lemma self_rounds_live:
  "live m \<Longrightarrow> live (self_rounds sub ios m) \<and> serves m (self_rounds sub ios m)
     \<and> rank (self_rounds sub ios m) \<le> rank m - length ios"
proof (induction ios arbitrary: m)
  case Nil
  then show ?case by (simp add: serves_same)
next
  case (Cons io ios)
  let ?m = "self_round (executers io sub) m"
  have step: "live ?m" "serves m ?m" "rank ?m \<le> rank m - 1"
    using self_round_live [OF Cons.prems] by simp_all
  note rest = Cons.IH [OF step(1)]
  then have "rank (self_rounds sub ios ?m) \<le> rank m - length (io # ios)"
    using step(3) by auto
  then show ?case
    using rest serves_trans [OF step(2)] by simp
qed

text \<open>
  C37. Every request of a client is answered. In a run without exceptions of the co-processor, in
  which the pending-event command is read before further requests, reading three more self commands
  is always enough: then none is left, the daemon is started or stopped, no connected client waits
  any more, and every client that waited and whose socket works has been sent the reply to its
  command. The answers of the download service, the loop check and the AT interface are arbitrary.
\<close>

theorem wcnd_requests_answered:
  assumes "wcnd_run sub m" and "length ios = 3"
  shows "let m' = self_rounds sub ios m in
     selfcmd_stream m' = []
   \<and> (state m' = WCND_STATE_CP2_STARTED \<or> state m' = WCND_STATE_CP2_STOPPED)
   \<and> (\<forall>c \<in> set (clients m'). \<not> waiting c)
   \<and> (\<exists>ys. outbox m' = outbox m @ ys
        \<and> (\<forall>c \<in> set (clients m). waiting c \<longrightarrow> sockfd c \<notin> set (broken m) \<longrightarrow>
             (\<exists>res. (sockfd c, WCND_CMD_RESPONSE_STRING @ res) \<in> set ys)))"
proof -
  let ?m = "self_rounds sub ios m"
  have live: "live ?m" and serves: "serves m ?m" and "rank ?m \<le> rank m - 3"
    using self_rounds_live [OF wcnd_run_live [OF assms(1)], of sub ios] assms(2) by simp_all
  moreover have "rank m \<le> 3"
    by (simp add: rank_def split: wcnd_state.split)
  ultimately have "rank ?m = 0"
    by simp
  then have "selfcmd_stream ?m = []"
    by (simp add: rank_def split: if_splits wcnd_state.splits)
  with live have "answered ?m" and "state ?m = WCND_STATE_CP2_STARTED \<or> state ?m = WCND_STATE_CP2_STOPPED"
    by (cases "state ?m"; simp add: live_def)+
  with serves \<open>selfcmd_stream ?m = []\<close> show ?thesis
    unfolding serves_def answered_def Let_def by blast
qed


text \<open>Answers of a co-processor that works, for the examples.\<close>

definition good_io :: cp2_io where
  "good_io = \<lparr>download = (\<lambda>_. \<lparr>connects = (\<lambda>_. 3), wrote = 8, response = ''startwcn-ok''\<rparr>),
     loops = (\<lambda>_ _. \<lparr>loop_fd = 7, loop_wrote = 13, loop_read = ''loopcheck_ack''\<rparr>),
     atcmd = \<lparr>atcmd_fd = 8, at_wrote = 12, at_read = (\<lambda>_. ''OK'')\<rparr>,
     dump = \<lparr>connects = (\<lambda>_. 3), wrote = 7, response = ''dumpwcn-ok''\<rparr>, reset_prop = 1\<rparr>"

definition no_submodule :: submodules where
  "no_submodule name fd argv m = m"

definition example_waiting :: WcndManager where
  "example_waiting = process_active_client_fd (executers good_io no_submodule) 5 (''wcn '' @ ''BT-OPEN'')
     (accept_client 5 (wcnd_init 4 False True False))"

lemma example_waiting_eval:
  "list_ex (\<lambda>c. sockfd c = 5 \<and> waiting c) (clients example_waiting) \<and> broken example_waiting = []
   \<and> state example_waiting = WCND_STATE_CP2_STARTING"
  by code_simp

lemma example_waiting_run: "wcnd_run no_submodule example_waiting"
  unfolding example_waiting_def
  by (rule wcnd_run.request [OF wcnd_run.connect [OF wcnd_run.start]])
    (simp_all add: requests_def accept_client_def wcnd_init_def wcnd_sm_init_def)

theorem wcnd_requests_answered_witness:
  "\<exists>ys res. outbox (self_rounds no_submodule [good_io, good_io, good_io] example_waiting) = outbox example_waiting @ ys
     \<and> (5, WCND_CMD_RESPONSE_STRING @ res) \<in> set ys"
proof -
  have "length [good_io, good_io, good_io] = 3"
    by simp
  from wcnd_requests_answered [OF example_waiting_run this] obtain ys where
    ys: "outbox (self_rounds no_submodule [good_io, good_io, good_io] example_waiting) = outbox example_waiting @ ys"
      "\<forall>c \<in> set (clients example_waiting). waiting c \<longrightarrow> sockfd c \<notin> set (broken example_waiting) \<longrightarrow>
         (\<exists>res. (sockfd c, WCND_CMD_RESPONSE_STRING @ res) \<in> set ys)"
    unfolding Let_def by blast
  obtain c where c: "c \<in> set (clients example_waiting)" "sockfd c = 5" "waiting c"
    using example_waiting_eval unfolding list_ex_iff by blast
  have "\<exists>res. (sockfd c, WCND_CMD_RESPONSE_STRING @ res) \<in> set ys"
    using ys(2) [THEN bspec, OF c(1)] c(3) example_waiting_eval by simp
  then show ?thesis
    using ys(1) c(2) by auto
qed

end
