(* ===== verification/WcndFaults.thy ===== *)
theory WcndFaults
  imports WcndRun
begin

text \<open>
  Two defects of the co-processor daemon that the model shows: self commands that meet in the stream
  are read as one, and the pending events are never cleared.
\<close>

section \<open>Two defects\<close>

lemma send_back_simps [simp]:
  "clients (send_back_cmd_result fd s ok m) = clients m"
  "state (send_back_cmd_result fd s ok m) = state m"
  "btwifi_state (send_back_cmd_result fd s ok m) = btwifi_state m"
  "saved_btwifi_state (send_back_cmd_result fd s ok m) = saved_btwifi_state m"
  "pending_events (send_back_cmd_result fd s ok m) = pending_events m"
  "is_wcn_modem_enabled (send_back_cmd_result fd s ok m) = is_wcn_modem_enabled m"
  "is_cp2_error (send_back_cmd_result fd s ok m) = is_cp2_error m"
  "selfcmd_stream (send_back_cmd_result fd s ok m) = selfcmd_stream m"
  by (simp_all add: send_back_cmd_result_def write_to_def Let_def)

lemma merged_text:
  "parse_args (''wcn pendingevent'' @ ''wcn startcp2'') [] [] False False = Inr [''wcn'', ''pendingeventwcn'', ''startcp2'']
   \<and> \<not> strstr (''wcn pendingevent'' @ ''wcn startcp2'') ''eng''
   \<and> split_nul (dropWhile (\<lambda>c. c = CHR 0x20) (take 254 (''wcn pendingevent'' @ ''wcn startcp2'') @ [CHR 0x00])) []
       = [''wcn pendingevent'' @ ''wcn startcp2'']
   \<and> length (take 254 (''wcn pendingevent'' @ ''wcn startcp2'') @ [CHR 0x00]) < 255
   \<and> drop 254 (''wcn pendingevent'' @ ''wcn startcp2'') = []"
  by code_simp

lemma runcommand_unknown:
  "wcnd_runcommand io fd [''pendingeventwcn'', ''startcp2''] m
     = send_back_cmd_result fd (Some ''Not support cmd'') False m"
proof -
  have "list_all (\<lambda>c. c \<noteq> ''reset'' \<and> c \<noteq> ''test'' \<and> \<not> strstr c ''at+'' \<and> \<not> strstr c ''BT'' \<and> \<not> strstr c ''WIFI''
    \<and> c \<noteq> WCND_SELF_CMD_START_CP2 \<and> c \<noteq> WCND_SELF_CMD_STOP_CP2 \<and> c \<noteq> WCND_SELF_CMD_PENDINGEVENT \<and> c \<noteq> ''cp2assert''
    \<and> c \<noteq> ''poweron'' \<and> c \<noteq> ''poweroff'' \<and> c \<noteq> ''configcp2'' \<and> c \<noteq> ''getcp2version'' \<and> c \<noteq> ''startengpc''
    \<and> c \<noteq> ''stopengpc'') [''pendingeventwcn'']"
    by code_simp
  then show ?thesis
    by (simp only: wcnd_runcommand_def list.case list.pred_inject simp_thms if_False if_True)
qed

lemma self_round_merged:
  assumes "selfcmd_stream m = ''wcn pendingevent'' @ ''wcn startcp2''"
  shows "self_round (executers io sub) m
    = send_back_cmd_result (selfcmd_socket m) (Some ''Not support cmd'') False (m\<lparr>selfcmd_stream := []\<rparr>)"
proof -
  let ?s = "''wcn pendingevent'' @ ''wcn startcp2''"
  note merged = merged_text [THEN conjunct1] merged_text [THEN conjunct2, THEN conjunct1]
    merged_text [THEN conjunct2, THEN conjunct2, THEN conjunct1]
    merged_text [THEN conjunct2, THEN conjunct2, THEN conjunct2, THEN conjunct1]
    merged_text [THEN conjunct2, THEN conjunct2, THEN conjunct2, THEN conjunct2]
  have "worker_dispatch (executers io sub) fd ?s m' = wcnd_runcommand io fd [''pendingeventwcn'', ''startcp2''] m'" for fd m'
    by (simp only: worker_dispatch_def dispatch_command2_def merged(1,2) if_False sum.case list.sel executers_def
        map_of.simps fun_upd_apply fst_conv snd_conv if_True refl option.case)
  then have "process_active_client_fd (executers io sub) fd ?s m' = wcnd_runcommand io fd [''pendingeventwcn'', ''startcp2''] m'" for fd m'
    using merged(4) by (simp only: process_active_client_fd_def dispatch_command_def merged(3) not_le [symmetric]
        if_False fold.simps o_apply id_apply)
  moreover have "?s \<noteq> []"
    by simp
  ultimately show ?thesis
    by (simp only: self_round_def assms if_False merged(5) runcommand_unknown)
qed

lemma self_rounds_idle:
  "selfcmd_stream m = [] \<Longrightarrow> self_rounds sub ios m = m"
  by (induction ios) (simp_all add: self_round_def)

text \<open>
  C39. The self commands are written to a stream socket without a terminator, so two of them that
  wait together are read as one. When the stopped daemon has announced pending events and a client
  asks to open Bluetooth, Wi-Fi or the co-processor before that announcement is read, the text that is
  read is \<open>wcn pendingeventwcn startcp2\<close>, which is no command: the daemon is left starting for ever,
  with nothing left to read, and the client that asked and all that waited go without a reply.
\<close>

theorem wcnd_self_commands_merge:
  assumes "is_wcn_modem_enabled m" and "state m = WCND_STATE_CP2_STOPPED"
    and "selfcmd_stream m = ''wcn '' @ WCND_SELF_CMD_PENDINGEVENT"
    and "cmd = ''BT-OPEN'' \<or> cmd = ''WIFI-OPEN'' \<or> cmd = ''poweron''"
  shows "let m' = process_active_client_fd (executers io sub) fd (''wcn '' @ cmd) m;
             m'' = self_rounds sub (io' # ios) m'
         in selfcmd_stream m' = ''wcn pendingeventwcn startcp2''
          \<and> state m'' = WCND_STATE_CP2_STARTING \<and> selfcmd_stream m'' = []
          \<and> clients m'' = mark_client fd WCND_CLIENT_TYPE_CMD (clients m)"
proof -
  let ?c = "set_cmd_client fd m"
  have c: "is_wcn_modem_enabled ?c" "state ?c = WCND_STATE_CP2_STOPPED" "selfcmd_stream ?c = ''wcn pendingevent''"
    using assms(1-3) by (simp_all add: set_cmd_client_def WCND_SELF_CMD_PENDINGEVENT_def)
  have cmd: "cmd \<in> set (requests @ self_commands)"
    using assms(4) by (auto simp: requests_def)
  obtain ev fd' where ev: "ev \<in> set open_events"
    and run: "wcnd_runcommand io fd [cmd] m = wcnd_sm_step \<lparr>event = ev, replyto_fd = fd'\<rparr> ?c"
    using assms(4) runcommand_btwifi(1,3) [OF assms(1), of io fd] runcommand_power(1) [OF assms(1), of io fd]
    by (elim disjE) (auto simp only: open_events_def list.set intro: that)
  define m' where "m' = process_active_client_fd (executers io sub) fd (''wcn '' @ cmd) m"
  have m': "m' = wcnd_send_selfcmd (''wcn '' @ WCND_SELF_CMD_START_CP2)
      (?c\<lparr>notify_enabled := False, btwifi_state := turned_on ev (btwifi_state ?c), state := WCND_STATE_CP2_STARTING\<rparr>)"
    using c ev unfolding m'_def process_plain [OF cmd] run by (simp add: wcnd_sm_step_def stopped_opening)
  then have stream: "selfcmd_stream m' = ''wcn pendingevent'' @ ''wcn startcp2''"
    using c by (simp add: WCND_SELF_CMD_START_CP2_def)
  have "self_rounds sub (io' # ios) m'
      = send_back_cmd_result (selfcmd_socket m') (Some ''Not support cmd'') False (m'\<lparr>selfcmd_stream := []\<rparr>)"
    by (simp only: self_rounds.simps self_round_merged [OF stream])
      (rule self_rounds_idle, simp)
  then show ?thesis
    unfolding Let_def m'_def [symmetric] stream
    by (simp add: m' set_cmd_client_def)
qed


text \<open>The state in which the two meet, reached by requests of two clients.\<close>

definition example_announced :: WcndManager where
  "example_announced =
     (let ex = executers good_io no_submodule;
          m = accept_client 6 (accept_client 5 (wcnd_init 4 False True False));
          m = self_round ex (process_active_client_fd ex 5 (''wcn '' @ ''poweron'') m);
          m = process_active_client_fd ex 5 (''wcn '' @ ''poweroff'') m;
          m = process_active_client_fd ex 6 (''wcn '' @ ''BT-OPEN'') m
      in self_round ex m)"

lemma example_announced_eval:
  "is_wcn_modem_enabled example_announced \<and> state example_announced = WCND_STATE_CP2_STOPPED
   \<and> selfcmd_stream example_announced = ''wcn '' @ WCND_SELF_CMD_PENDINGEVENT
   \<and> map sockfd (take 3 (clients example_announced)) = [5, 6, -1]
   \<and> map client_type (take 3 (clients example_announced)) = [WCND_CLIENT_TYPE_SLEEP, WCND_CLIENT_TYPE_CMD_PENDING, 0]"
  by code_simp

theorem wcnd_self_commands_merge_witness:
  "\<exists>m. state m = WCND_STATE_CP2_STOPPED \<and>
     (let m' = process_active_client_fd (executers good_io no_submodule) 5 (''wcn '' @ ''WIFI-OPEN'') m;
          m'' = self_rounds no_submodule [good_io, good_io, good_io] m'
      in state m'' = WCND_STATE_CP2_STARTING \<and> selfcmd_stream m'' = []
       \<and> clients m'' = mark_client 5 WCND_CLIENT_TYPE_CMD (clients m))"
  using example_announced_eval
    wcnd_self_commands_merge [of example_announced "''WIFI-OPEN''" good_io no_submodule 5 good_io "[good_io, good_io]"]
  unfolding Let_def by blast

text \<open>
  The announced events are never cleared.
\<close>

lemma boots_independent:
  "fst (open_attempts io n m) = fst (open_attempts io n m')"
proof (induction io n m arbitrary: m' rule: open_attempts.induct)
  case (1 io n m)
  have ret: "fst (wcnd_start_cp2 a m) = fst (wcnd_start_cp2 a m')" for a
    by (simp add: wcnd_start_cp2_def do_download_cmd_def split: prod.split)
  let ?again = "fst (wcnd_start_cp2 (download io n) m) < 0 \<or> polling_test_after_reset (loops io n) < 0"
  show ?case
  proof (cases "\<not> RESET_FAIL_RETRY_COUNT < n \<and> ?again")
    case True
    then have "fst (open_attempts io n x) = fst (open_attempts io (Suc n) (snd (wcnd_start_cp2 (download io n) x)))"
      if "fst (wcnd_start_cp2 (download io n) x) = fst (wcnd_start_cp2 (download io n) m)" for x
      using that by (subst open_attempts.simps) (simp add: Let_def)
    then show ?thesis
      using "1.IH" [OF _ refl] True ret by metis
  next
    case False
    then show ?thesis
      using ret by (subst open_attempts.simps, subst (2) open_attempts.simps) (auto simp: Let_def)
  qed
qed

definition cp2_boots :: "cp2_io \<Rightarrow> bool" where
  "cp2_boots io = fst (open_attempts io 0 (wcnd_init 0 False True False))"

lemma open_cp2_booted:
  assumes "cp2_boots io" and "is_wcn_modem_enabled m" and "state m = WCND_STATE_CP2_STARTING"
  shows "state (wcnd_open_cp2 io m) = WCND_STATE_CP2_STARTED"
    and "btwifi_state (wcnd_open_cp2 io m) = btwifi_state m"
    and "selfcmd_stream (wcnd_open_cp2 io m) = selfcmd_stream m"
    and "pending_events (wcnd_open_cp2 io m) = pending_events m"
proof -
  let ?d = "m\<lparr>doing_reset := True\<rparr>"
  obtain m1 where m1: "open_attempts io 0 ?d = (True, m1)"
    using assms(1) boots_independent [of io 0 "wcnd_init 0 False True False" ?d]
    by (cases "open_attempts io 0 ?d") (simp add: cp2_boots_def)
  have same: "same_sm ?d m1"
    using same_sm_open_attempts [of ?d io 0] m1 by simp
  define m3 where "m3 = wcnd_sm_step (self_message WCND_EVENT_CP2_OK) (m1\<lparr>is_cp2_error := False\<rparr>)"
  have "wcnd_open_cp2 io m = config_cp2_bootup (atcmd io) m3"
    by (simp add: wcnd_open_cp2_def m1 m3_def)
  moreover have "same_sm m3 (config_cp2_bootup (atcmd io) m3)"
    by simp
  moreover have "state m3 = WCND_STATE_CP2_STARTED" "btwifi_state m3 = btwifi_state m"
    "selfcmd_stream m3 = selfcmd_stream m" "pending_events m3 = pending_events m"
    using same assms(2,3) by (simp_all add: m3_def same_sm_def wcnd_sm_step_def starting_outcome)
  ultimately show "state (wcnd_open_cp2 io m) = WCND_STATE_CP2_STARTED"
    and "btwifi_state (wcnd_open_cp2 io m) = btwifi_state m"
    and "selfcmd_stream (wcnd_open_cp2 io m) = selfcmd_stream m"
    and "pending_events (wcnd_open_cp2 io m) = pending_events m"
    by (simp_all add: same_sm_def)
qed


lemma close_cp2_pending:
  assumes "is_wcn_modem_enabled m" and "state m = WCND_STATE_CP2_STOPPING" and "selfcmd_stream m = []"
    and "pending_events m \<noteq> 0"
  shows "state (wcnd_close_cp2 io m) = WCND_STATE_CP2_STOPPED"
    and "selfcmd_stream (wcnd_close_cp2 io m) = ''wcn '' @ WCND_SELF_CMD_PENDINGEVENT"
    and "pending_events (wcnd_close_cp2 io m) = pending_events m"
    and "is_wcn_modem_enabled (wcnd_close_cp2 io m)"
proof -
  have "same_sm m (snd (wcnd_stop_cp2 (download io 0) m))"
    by simp
  then show "state (wcnd_close_cp2 io m) = WCND_STATE_CP2_STOPPED"
    and "selfcmd_stream (wcnd_close_cp2 io m) = ''wcn '' @ WCND_SELF_CMD_PENDINGEVENT"
    and "pending_events (wcnd_close_cp2 io m) = pending_events m"
    and "is_wcn_modem_enabled (wcnd_close_cp2 io m)"
    using assms by (simp_all add: wcnd_close_cp2_def wcnd_sm_step_def stopping_down same_sm_def Let_def)
qed

lemma pending_bluetooth:
  assumes "is_wcn_modem_enabled m" and "state m = WCND_STATE_CP2_STOPPED" and "selfcmd_stream m = []"
    and "pending_events m AND WCND_EVENT_BT_OPEN \<noteq> 0"
  defines "m' \<equiv> wcnd_sm_step (self_message WCND_EVENT_PENGING_EVENT) m"
  shows "state m' = WCND_STATE_CP2_STARTING"
    and "selfcmd_stream m' = ''wcn '' @ WCND_SELF_CMD_START_CP2"
    and "pending_events m' = pending_events m"
    and "is_wcn_modem_enabled m'"
    and "btwifi_state m' AND WCND_BTWIFI_STATE_BT_ON \<noteq> 0"
proof -
  have bit: "(b OR 1) AND 1 = 1" "((b OR 1) OR 2) AND 1 = 1" for b :: u32
    by (simp_all add: bit_eq_iff bit_and_iff bit_or_iff bit_1_iff) blast
  have m': "m' = wcn_state_cp2_stopped (self_message WCND_EVENT_PENGING_EVENT) m"
    using assms(1,2) by (simp add: m'_def wcnd_sm_step_def)
  show "state m' = WCND_STATE_CP2_STARTING"
    and "selfcmd_stream m' = ''wcn '' @ WCND_SELF_CMD_START_CP2"
    and "pending_events m' = pending_events m"
    and "is_wcn_modem_enabled m'"
    and "btwifi_state m' AND WCND_BTWIFI_STATE_BT_ON \<noteq> 0"
    using assms(1-4) unfolding m'
    by (simp_all add: wcn_state_cp2_stopped_def event_defs WCND_BTWIFI_STATE_BT_ON_def
        WCND_BTWIFI_STATE_WIFI_ON_def Let_def or_bit_not_zero bit)
qed

text \<open>
  The pending events are never cleared. Once Bluetooth has been opened while the co-processor was
  stopping, every later close of the last user brings it up again: from the started daemon with only
  Bluetooth on, the command to close it stops the co-processor, starts it again and leaves Bluetooth
  marked as on, with nobody having asked for it.
\<close>

theorem wcnd_pending_never_cleared:
  assumes "is_wcn_modem_enabled m" and "state m = WCND_STATE_CP2_STARTED" and "selfcmd_stream m = []"
    and "saved_btwifi_state m = 0" and "btwifi_state m = WCND_BTWIFI_STATE_BT_ON"
    and "pending_events m AND WCND_EVENT_BT_OPEN \<noteq> 0" and "cp2_boots io3"
  shows "let m' = self_rounds sub [io1, io2, io3]
               (process_active_client_fd (executers io sub) fd (''wcn '' @ ''BT-CLOSE'') m)
         in state m' = WCND_STATE_CP2_STARTED \<and> selfcmd_stream m' = []
          \<and> btwifi_state m' AND WCND_BTWIFI_STATE_BT_ON \<noteq> 0 \<and> pending_events m' = pending_events m"
proof -
  let ?c = "set_cmd_client fd m"
  have c: "is_wcn_modem_enabled ?c" "state ?c = WCND_STATE_CP2_STARTED" "selfcmd_stream ?c = []"
    "saved_btwifi_state ?c = 0" "btwifi_state ?c = WCND_BTWIFI_STATE_BT_ON" "pending_events ?c = pending_events m"
    using assms(1-5) by (simp_all add: set_cmd_client_def)
  define m1 where "m1 = process_active_client_fd (executers io sub) fd (''wcn '' @ ''BT-CLOSE'') m"
  have m1: "m1 = wcnd_send_selfcmd (''wcn '' @ WCND_SELF_CMD_STOP_CP2)
      (?c\<lparr>notify_enabled := True, btwifi_state := 0, state := WCND_STATE_CP2_STOPPING\<rparr>)"
    unfolding m1_def by (subst process_plain) (simp_all add: requests_def runcommand_btwifi(2) [OF assms(1)] c
      wcnd_sm_step_def started_closing close_events_def turned_off_def WCND_BTWIFI_STATE_BT_ON_def Let_def)
  let ?m1 = "m1\<lparr>selfcmd_stream := []\<rparr>"
  have a1: "is_wcn_modem_enabled ?m1" "state ?m1 = WCND_STATE_CP2_STOPPING" "selfcmd_stream ?m1 = []"
    "pending_events ?m1 = pending_events m"
    using c by (simp_all add: m1)
  define m2 where "m2 = wcnd_close_cp2 io1 ?m1"
  have "pending_events ?m1 \<noteq> 0"
    using assms(6) a1(4) by auto
  note a2 = close_cp2_pending [OF a1(1-3) this, of io1, folded m2_def]
  let ?m2 = "m2\<lparr>selfcmd_stream := []\<rparr>"
  define m3 where "m3 = wcnd_sm_step (self_message WCND_EVENT_PENGING_EVENT) ?m2"
  have a3: "state m3 = WCND_STATE_CP2_STARTING" "selfcmd_stream m3 = ''wcn '' @ WCND_SELF_CMD_START_CP2"
    "pending_events m3 = pending_events m" "is_wcn_modem_enabled m3" "btwifi_state m3 AND WCND_BTWIFI_STATE_BT_ON \<noteq> 0"
    using pending_bluetooth [of ?m2, folded m3_def] a2 a1(4) assms(6) by simp_all
  have "self_rounds sub [io1, io2, io3] m1 = wcnd_open_cp2 io3 (m3\<lparr>selfcmd_stream := []\<rparr>)"
    using a2(2) a3(2) c by (simp add: self_round_self m1 [THEN arg_cong [of _ _ selfcmd_stream]] m2_def [symmetric] m3_def [symmetric])
  then show ?thesis
    using open_cp2_booted [OF assms(7), of "m3\<lparr>selfcmd_stream := []\<rparr>"] a3 unfolding Let_def m1_def [symmetric] by simp
qed


definition example_reopened :: WcndManager where
  "example_reopened = self_rounds no_submodule [good_io, good_io] example_announced"

lemma example_reopened_eval:
  "is_wcn_modem_enabled example_reopened \<and> state example_reopened = WCND_STATE_CP2_STARTED
   \<and> selfcmd_stream example_reopened = [] \<and> saved_btwifi_state example_reopened = 0
   \<and> btwifi_state example_reopened = WCND_BTWIFI_STATE_BT_ON
   \<and> pending_events example_reopened AND WCND_EVENT_BT_OPEN \<noteq> 0 \<and> cp2_boots good_io"
  by code_simp

theorem wcnd_pending_never_cleared_witness:
  "state (self_rounds no_submodule [good_io, good_io, good_io]
     (process_active_client_fd (executers good_io no_submodule) 6 (''wcn '' @ ''BT-CLOSE'') example_reopened))
   = WCND_STATE_CP2_STARTED"
  using example_reopened_eval
    wcnd_pending_never_cleared [of example_reopened good_io no_submodule good_io good_io good_io 6]
  unfolding Let_def by blast

end
