(* ===== verification/WcndTypes.thy ===== *)
theory WcndTypes
  imports WcndFaults
begin

text \<open>
  The values of the manager of the co-processor daemon stay within their types in every run, whatever
  the clients send.
\<close>

section \<open>The types of the values\<close>

definition known_types :: "u32 list" where
  "known_types = [WCND_CLIENT_TYPE_NOTIFY, WCND_CLIENT_TYPE_CMD, WCND_CLIENT_TYPE_CMD_SUBTYPE_CLOSE,
     WCND_CLIENT_TYPE_CMD_SUBTYPE_OPEN, WCND_CLIENT_TYPE_CMD_PENDING, WCND_CLIENT_TYPE_SLEEP]"

definition btwifi_flags :: "u32 \<Rightarrow> bool" where
  "btwifi_flags w = (w AND NOT (WCND_BTWIFI_STATE_BT_ON OR WCND_BTWIFI_STATE_WIFI_ON) = 0)"

definition event_flags :: "u32 \<Rightarrow> bool" where
  "event_flags w = (w AND NOT (WCND_EVENT_BT_OPEN OR WCND_EVENT_WIFI_OPEN OR WCND_EVENT_CP2POWERON_REQ) = 0)"

definition client_table :: "WcndClient list \<Rightarrow> bool" where
  "client_table cl = (length cl = WCND_MAX_CLIENT_NUM \<and> list_all (\<lambda>c. client_type c \<in> set known_types) cl)"

definition wcnd_typed :: "WcndManager \<Rightarrow> bool" where
  "wcnd_typed m =
     (client_table (clients m) \<and> btwifi_flags (btwifi_state m) \<and> btwifi_flags (saved_btwifi_state m) \<and> event_flags (pending_events m))"

lemma and_or_zero:
  fixes a b n :: u32
  shows "(a OR b) AND n = 0 \<longleftrightarrow> a AND n = 0 \<and> b AND n = 0"
    and "a AND n = 0 \<Longrightarrow> (a AND b) AND n = 0"
proof -
  have "(a OR b) AND n = (a AND n) OR (b AND n)"
    by (simp add: bit.conj_disj_distrib2)
  then show "(a OR b) AND n = 0 \<longleftrightarrow> a AND n = 0 \<and> b AND n = 0"
    by (simp add: or_eq_0_iff)
  have "(a AND b) AND n = (a AND n) AND b"
    by (simp only: and.assoc and.commute and.left_commute)
  then show "a AND n = 0 \<Longrightarrow> (a AND b) AND n = 0"
    by simp
qed

lemma btwifi_flags_simps [simp]:
  "btwifi_flags 0" "btwifi_flags WCND_BTWIFI_STATE_BT_ON" "btwifi_flags WCND_BTWIFI_STATE_WIFI_ON"
  "btwifi_flags (a OR b) = (btwifi_flags a \<and> btwifi_flags b)"
  "btwifi_flags a \<Longrightarrow> btwifi_flags (a AND b)"
proof -
  show "btwifi_flags 0" "btwifi_flags WCND_BTWIFI_STATE_BT_ON" "btwifi_flags WCND_BTWIFI_STATE_WIFI_ON"
    by code_simp+
  show "btwifi_flags (a OR b) = (btwifi_flags a \<and> btwifi_flags b)" "btwifi_flags a \<Longrightarrow> btwifi_flags (a AND b)"
    unfolding btwifi_flags_def by (simp_all only: and_or_zero)
qed

lemma event_flags_simps [simp]:
  "event_flags 0" "event_flags WCND_EVENT_BT_OPEN" "event_flags WCND_EVENT_WIFI_OPEN"
  "event_flags WCND_EVENT_CP2POWERON_REQ" "event_flags (a OR b) = (event_flags a \<and> event_flags b)"
proof -
  show "event_flags 0" "event_flags WCND_EVENT_BT_OPEN" "event_flags WCND_EVENT_WIFI_OPEN"
    "event_flags WCND_EVENT_CP2POWERON_REQ"
    by code_simp+
  show "event_flags (a OR b) = (event_flags a \<and> event_flags b)"
    unfolding event_flags_def by (simp only: and_or_zero)
qed

lemma typed_updates [simp]:
  "wcnd_typed (m\<lparr>notify_enabled := b\<rparr>) = wcnd_typed m"
  "wcnd_typed (m\<lparr>state := s\<rparr>) = wcnd_typed m"
  "wcnd_typed (m\<lparr>doing_reset := b\<rparr>) = wcnd_typed m"
  "wcnd_typed (m\<lparr>is_cp2_error := b\<rparr>) = wcnd_typed m"
  "wcnd_typed (m\<lparr>is_cp2log_opened := b\<rparr>) = wcnd_typed m"
  "wcnd_typed (m\<lparr>store_cp2_versin_done := b\<rparr>) = wcnd_typed m"
  "wcnd_typed (m\<lparr>wait_wifi_driver_unloaded := b\<rparr>) = wcnd_typed m"
  "wcnd_typed (m\<lparr>eng_cmd_queue := q\<rparr>) = wcnd_typed m"
  "wcnd_typed (m\<lparr>selfcmd_stream := str\<rparr>) = wcnd_typed m"
  "wcnd_typed (m\<lparr>cp2_version_info := str\<rparr>) = wcnd_typed m"
  "wcnd_typed (m\<lparr>outbox := ys\<rparr>) = wcnd_typed m"
  "wcnd_typed (m\<lparr>download_log := l\<rparr>) = wcnd_typed m"
  "wcnd_typed (m\<lparr>atcmd_log := l\<rparr>) = wcnd_typed m"
  "wcnd_typed (m\<lparr>broken := fds\<rparr>) = wcnd_typed m"
  "wcnd_typed (wcnd_send_selfcmd str m) = wcnd_typed m"
  by (simp_all add: wcnd_typed_def wcnd_send_selfcmd_def)

lemma typed_flags [simp]:
  "wcnd_typed m \<Longrightarrow> wcnd_typed (m\<lparr>clients := cl\<rparr>) = client_table cl"
  "wcnd_typed m \<Longrightarrow> client_table (clients m)"
  "wcnd_typed m \<Longrightarrow> wcnd_typed (m\<lparr>btwifi_state := w\<rparr>) = btwifi_flags w"
  "wcnd_typed m \<Longrightarrow> wcnd_typed (m\<lparr>saved_btwifi_state := w\<rparr>) = btwifi_flags w"
  "wcnd_typed m \<Longrightarrow> wcnd_typed (m\<lparr>pending_events := e\<rparr>) = event_flags e"
  "wcnd_typed m \<Longrightarrow> btwifi_flags (btwifi_state m)"
  "wcnd_typed m \<Longrightarrow> btwifi_flags (saved_btwifi_state m)"
  "wcnd_typed m \<Longrightarrow> event_flags (pending_events m)"
  by (simp_all add: wcnd_typed_def)

lemma typed_notify [simp]:
  assumes "wcnd_typed m"
  shows "wcnd_typed (wcnd_send_notify_to_client s t m)"
proof -
  have "client_type (after_send t bad c) \<in> set known_types" if "client_type c \<in> set known_types" for bad c
    using that unfolding after_send_def by (simp add: known_types_def)
  then have "list_all (\<lambda>c. client_type c \<in> set known_types)
      (map (\<lambda>c. if addressed t c then after_send t bad c else c) (clients m))" for bad
    using assms unfolding wcnd_typed_def client_table_def list.pred_map
    by (auto simp only: list_all_iff o_apply split: if_split)
  then show ?thesis
    using assms unfolding wcnd_typed_def client_table_def wcnd_send_notify_to_client_def Let_def by simp
qed

lemma client_table_mark [simp]:
  assumes "client_table cl" and "t \<in> set known_types"
  shows "client_table (mark_client fd t cl)"
proof -
  have "length (mark_client fd t cl) = length cl" for cl
    by (induction cl) simp_all
  moreover have "list_all (\<lambda>c. client_type c \<in> set known_types) (mark_client fd t cl)"
    if "list_all (\<lambda>c. client_type c \<in> set known_types) cl" for cl
    using that assms(2) by (induction cl) simp_all
  ultimately show ?thesis
    using assms unfolding client_table_def by simp
qed

lemma known_types_in [simp]:
  "WCND_CLIENT_TYPE_CMD \<in> set known_types" "WCND_CLIENT_TYPE_CMD_PENDING \<in> set known_types"
  "WCND_CLIENT_TYPE_CMD_SUBTYPE_CLOSE \<in> set known_types" "WCND_CLIENT_TYPE_CMD_SUBTYPE_OPEN \<in> set known_types"
  by (simp_all add: known_types_def)

lemma typed_stopped: "wcnd_typed m \<Longrightarrow> wcnd_typed (wcn_state_cp2_stopped msg m)"
  unfolding wcn_state_cp2_stopped_def Let_def by simp

lemma typed_starting: "wcnd_typed m \<Longrightarrow> wcnd_typed (wcn_state_cp2_starting msg m)"
  unfolding wcn_state_cp2_starting_def Let_def by simp

lemma typed_started: "wcnd_typed m \<Longrightarrow> wcnd_typed (wcn_state_cp2_started msg m)"
  unfolding wcn_state_cp2_started_def Let_def by simp

lemma typed_assert: "wcnd_typed m \<Longrightarrow> wcnd_typed (wcn_state_cp2_assert msg m)"
  unfolding wcn_state_cp2_assert_def Let_def by simp

lemma typed_stopping: "wcnd_typed m \<Longrightarrow> wcnd_typed (wcn_state_cp2_stopping msg m)"
  unfolding wcn_state_cp2_stopping_def Let_def by simp


lemma typed_sm_step [simp]: "wcnd_typed m \<Longrightarrow> wcnd_typed (wcnd_sm_step msg m)"
  by (simp add: wcnd_sm_step_def typed_stopped typed_starting typed_started typed_assert typed_stopping
      split: wcnd_state.split)

lemma typed_send_back [simp]: "wcnd_typed m \<Longrightarrow> wcnd_typed (send_back_cmd_result fd s ok m)"
  by (simp add: send_back_cmd_result_def write_to_def Let_def)

lemma typed_write_to [simp]: "wcnd_typed m \<Longrightarrow> wcnd_typed (write_to fd s m)"
  by (simp add: write_to_def)

lemma typed_download [simp]: "wcnd_typed m \<Longrightarrow> wcnd_typed (snd (do_download_cmd c a m))"
  by (simp add: do_download_cmd_def split: prod.split)

lemma typed_open_attempts [simp]: "wcnd_typed m \<Longrightarrow> wcnd_typed (snd (open_attempts io n m))"
proof (induction io n m rule: open_attempts.induct)
  case (1 io n m)
  have "wcnd_typed (snd (wcnd_start_cp2 (download io n) m))"
    using 1 by (simp add: wcnd_start_cp2_def)
  then show ?case
    using 1 by (subst open_attempts.simps) (simp add: Let_def)
qed

lemma typed_reset_attempts [simp]: "wcnd_typed m \<Longrightarrow> wcnd_typed (snd (reset_attempts io n m))"
proof (induction io n m rule: reset_attempts.induct)
  case (1 io n m)
  show ?case
    using 1 by (subst reset_attempts.simps) (simp add: Let_def wcnd_reboot_cp2_def)
qed

lemma typed_before_atcmd: "wcnd_typed m \<Longrightarrow> wcnd_typed (snd (snd (before_send_atcmd fd cmd m)))"
  by (simp add: before_send_atcmd_def Let_def)

lemma typed_process_atcmd [simp]: "wcnd_typed m \<Longrightarrow> wcnd_typed (snd (wcnd_process_atcmd fd cmd a m))"
proof -
  assume m: "wcnd_typed m"
  obtain ok atid m' where b: "before_send_atcmd fd cmd m = (ok, atid, m')"
    by (cases "before_send_atcmd fd cmd m")
  then have "wcnd_typed m'"
    using typed_before_atcmd [OF m, of fd cmd] by simp
  then show ?thesis
    unfolding wcnd_process_atcmd_def b prod.case Let_def using m by (simp split: option.split)
qed

lemma typed_config [simp]: "wcnd_typed m \<Longrightarrow> wcnd_typed (config_cp2_bootup a m)"
  by (simp add: config_cp2_bootup_def)

lemma typed_open_cp2 [simp]: "wcnd_typed m \<Longrightarrow> wcnd_typed (wcnd_open_cp2 io m)"
proof -
  assume "wcnd_typed m"
  then have "wcnd_typed (snd (open_attempts io 0 (m\<lparr>doing_reset := True\<rparr>)))"
    by simp
  then show ?thesis
    by (cases "open_attempts io 0 (m\<lparr>doing_reset := True\<rparr>)") (simp add: wcnd_open_cp2_def)
qed

lemma typed_close_cp2 [simp]: "wcnd_typed m \<Longrightarrow> wcnd_typed (wcnd_close_cp2 io m)"
  by (simp add: wcnd_close_cp2_def wcnd_stop_cp2_def)

lemma typed_before_reset: "wcnd_typed m \<Longrightarrow> wcnd_typed (snd (wcnd_before_reset io m))"
  by (simp add: wcnd_before_reset_def Let_def)

lemma typed_reset [simp]: "wcnd_typed m \<Longrightarrow> wcnd_typed (wcnd_do_wcn_reset_process io m)"
proof -
  assume "wcnd_typed m"
  then have m: "wcnd_typed (prepare_cp2_recovery m)"
    by (simp add: prepare_cp2_recovery_def)
  obtain r m1 where r: "wcnd_before_reset io (prepare_cp2_recovery m) = (r, m1)"
    by (cases "wcnd_before_reset io (prepare_cp2_recovery m)")
  obtain ok m2 where ok: "reset_attempts io 0 m1 = (ok, m2)"
    by (cases "reset_attempts io 0 m1")
  have m1: "wcnd_typed m1"
    using typed_before_reset [OF m, of io] r by simp
  then have "wcnd_typed m2"
    using typed_reset_attempts [of m1 io 0] ok by simp
  then show ?thesis
    using m1 by (simp add: wcnd_do_wcn_reset_process_def r ok)
qed

lemma typed_runcommand [simp]: "wcnd_typed m \<Longrightarrow> wcnd_typed (wcnd_runcommand io fd argv m)"
  unfolding wcnd_runcommand_def wcn_process_btwificmd_def power_request_def set_cmd_client_def Let_def
  by (simp split: list.split)













end
