(* ===== verification/Dhcp6Lease.thy ===== *)
theory Dhcp6Lease
  imports Prelude
begin

text \<open>
  The lease table of the DHCPv6 server, \<^verbatim>\<open>src/apps/dhcp6/lease.c\<close>: a hash table with chained
  buckets, keyed by IPv6 addresses.

  An address is the list of its sixteen bytes, a pointer that may be \<open>NULL\<close> an option.  The entry a
  search returns is named by its bucket and its place in the chain.  Calls of \<open>malloc\<close> succeed or
  fail as the arguments say.  \<^term>\<open>None\<close> is undefined behaviour: a call through the cleared function
  pointers, a division by size zero.
\<close>

section \<open>Hash tables\<close>

type_synonym in6_addr = "byte list"

record hash_entry =
  entry_val :: in6_addr
  entry_flag :: byte

definition DHCP6_LEASE_DECLINED :: byte where "DHCP6_LEASE_DECLINED = 0x01"

record hash_table =
  hash_heads :: "hash_entry list list"
  hash_size :: u32
  hash_fun :: "(in6_addr \<Rightarrow> u32) option"
  match_fun :: "(in6_addr \<Rightarrow> in6_addr \<Rightarrow> bool) option"

definition DHCP6_LEASE_TABLE_SIZE :: u32 where "DHCP6_LEASE_TABLE_SIZE = 256"

definition in6_addr_hash :: "in6_addr \<Rightarrow> u32" where
  "in6_addr_hash addr = foldl (\<lambda>hash b. hash + ucast b) 0 (take 16 addr)"

definition in6_addr_match :: "in6_addr \<Rightarrow> in6_addr \<Rightarrow> bool" where
  "in6_addr_match addr1 addr2 = (take 16 addr1 = take 16 addr2)"

definition hash_table_init :: "bool \<Rightarrow> u32 \<Rightarrow> (in6_addr \<Rightarrow> u32) option \<Rightarrow>
    (in6_addr \<Rightarrow> in6_addr \<Rightarrow> bool) option \<Rightarrow> hash_table \<Rightarrow> int \<times> hash_table" where
  "hash_table_init mem sz hash match table =
     (if hash = None \<or> match = None then (-1, table)
      else if \<not> mem then (-1, table)
      else (0, \<lparr>hash_heads = replicate (unat sz) [], hash_size = sz, hash_fun = hash, match_fun = match\<rparr>))"

definition hash_table_cleanup :: "hash_table \<Rightarrow> hash_table" where
  "hash_table_cleanup table = \<lparr>hash_heads = [], hash_size = 0, hash_fun = None, match_fun = None\<rparr>"

definition hash_index :: "hash_table \<Rightarrow> in6_addr \<Rightarrow> nat option" where
  "hash_index table val = do {
     hash \<leftarrow> hash_fun table;
     if hash_size table = 0 then None else Some (unat (hash val mod hash_size table)) }"

fun match_loop :: "(in6_addr \<Rightarrow> bool) \<Rightarrow> hash_entry list \<Rightarrow> nat option" where
  "match_loop P [] = None"
| "match_loop P (entry # es) = (if P (entry_val entry) then Some 0 else map_option Suc (match_loop P es))"

definition hash_table_find :: "hash_table \<Rightarrow> in6_addr option \<Rightarrow> (nat \<times> nat) option option" where
  "hash_table_find table val =
     (case val of
        None \<Rightarrow> Some None
      | Some v \<Rightarrow> do {
          i \<leftarrow> hash_index table v;
          match \<leftarrow> match_fun table;
          Some (map_option (Pair i) (match_loop (match v) (hash_heads table ! i))) })"

definition hash_table_add :: "bool \<Rightarrow> bool \<Rightarrow> hash_table \<Rightarrow> in6_addr option \<Rightarrow> (int \<times> hash_table) option" where
  "hash_table_add mem1 mem2 table val =
     (case val of
        None \<Rightarrow> Some (-1, table)
      | Some v \<Rightarrow>
          if \<not> mem1 then Some (-1, table)
          else if \<not> mem2 then Some (-1, table)
          else do {
            i \<leftarrow> hash_index table v;
            Some (0, table\<lparr>hash_heads := (hash_heads table)[i := \<lparr>entry_val = v, entry_flag = 0\<rparr> # hash_heads table ! i]\<rparr>) })"

definition LIST_REMOVE :: "nat \<Rightarrow> 'a list \<Rightarrow> 'a list" where
  "LIST_REMOVE j xs = take j xs @ drop (Suc j) xs"

definition hash_table_remove :: "hash_table \<Rightarrow> in6_addr option \<Rightarrow> (int \<times> hash_table) option" where
  "hash_table_remove table val =
     (if val = None then Some (-1, table)
      else do {
        r \<leftarrow> hash_table_find table val;
        case r of
          None \<Rightarrow> Some (-1, table)
        | Some (i, j) \<Rightarrow> Some (0, table\<lparr>hash_heads := (hash_heads table)[i := LIST_REMOVE j (hash_heads table ! i)]\<rparr>) })"

section \<open>Leases\<close>

definition lease_init :: "bool \<Rightarrow> hash_table \<Rightarrow> int \<times> hash_table" where
  "lease_init mem table =
     (let (ret, table) = hash_table_init mem DHCP6_LEASE_TABLE_SIZE (Some in6_addr_hash) (Some in6_addr_match) table
      in (if ret \<noteq> 0 then -1 else 0, table))"

definition lease_cleanup :: "hash_table \<Rightarrow> hash_table" where
  "lease_cleanup table = hash_table_cleanup table"

definition lease_address :: "bool \<Rightarrow> bool \<Rightarrow> in6_addr option \<Rightarrow> hash_table \<Rightarrow> (bool \<times> hash_table) option" where
  "lease_address mem1 mem2 addr table =
     (if addr = None then Some (False, table)
      else do {
        r \<leftarrow> hash_table_find table addr;
        if r \<noteq> None then Some (False, table)
        else do {
          (ret, table) \<leftarrow> hash_table_add mem1 mem2 table addr;
          Some (ret = 0, table) } })"

definition release_address :: "in6_addr option \<Rightarrow> hash_table \<Rightarrow> hash_table option" where
  "release_address addr table =
     (if addr = None then Some table
      else do { (ret, table) \<leftarrow> hash_table_remove table addr; Some table })"

definition decline_address :: "in6_addr option \<Rightarrow> hash_table \<Rightarrow> hash_table option" where
  "decline_address addr table =
     (if addr = None then Some table
      else do {
        r \<leftarrow> hash_table_find table addr;
        case r of
          None \<Rightarrow> Some table
        | Some (i, j) \<Rightarrow>
            let entry = hash_heads table ! i ! j;
                entry = entry\<lparr>entry_flag := entry_flag entry OR DHCP6_LEASE_DECLINED\<rparr>
            in Some (table\<lparr>hash_heads := (hash_heads table)[i := (hash_heads table ! i)[j := entry]]\<rparr>) })"

definition is_leased :: "in6_addr option \<Rightarrow> hash_table \<Rightarrow> bool option" where
  "is_leased addr table = do { r \<leftarrow> hash_table_find table addr; Some (r \<noteq> None) }"

section \<open>The table as a map\<close>

text \<open>Each bucket holds addresses that hash to it, each address once.\<close>

definition bucket_of :: "in6_addr \<Rightarrow> nat" where
  "bucket_of a = unat (in6_addr_hash a mod DHCP6_LEASE_TABLE_SIZE)"

definition lease_ok :: "hash_table \<Rightarrow> bool" where
  "lease_ok t = (length (hash_heads t) = 256 \<and> hash_size t = DHCP6_LEASE_TABLE_SIZE
     \<and> hash_fun t = Some in6_addr_hash \<and> match_fun t = Some in6_addr_match
     \<and> (\<forall>i < 256. distinct (map entry_val (hash_heads t ! i))
         \<and> (\<forall>e \<in> set (hash_heads t ! i). length (entry_val e) = 16 \<and> bucket_of (entry_val e) = i)))"

definition bucket_map :: "hash_entry list \<Rightarrow> in6_addr \<rightharpoonup> byte" where
  "bucket_map es = map_of (map (\<lambda>e. (entry_val e, entry_flag e)) es)"

definition leases :: "hash_table \<Rightarrow> in6_addr \<rightharpoonup> byte" where
  "leases t a = bucket_map (hash_heads t ! bucket_of a) a"

lemma bucket_of_less: "bucket_of a < 256"
proof -
  have "unat (in6_addr_hash a mod 256) = unat (in6_addr_hash a) mod 256" by (simp add: unat_mod)
  then show ?thesis by (simp add: bucket_of_def DHCP6_LEASE_TABLE_SIZE_def)
qed

lemma lease_ok_bucket:
  assumes "lease_ok t"
  shows "bucket_of a < length (hash_heads t)" "distinct (map entry_val (hash_heads t ! bucket_of a))"
    "\<And>e. e \<in> set (hash_heads t ! bucket_of a) \<Longrightarrow> length (entry_val e) = 16"
  using assms bucket_of_less [of a] by (auto simp: lease_ok_def)

lemma hash_index_ok: "lease_ok t \<Longrightarrow> hash_index t a = Some (bucket_of a)"
  by (simp add: hash_index_def lease_ok_def bucket_of_def DHCP6_LEASE_TABLE_SIZE_def)

lemma match_loop_Some:
  assumes "match_loop P es = Some j"
  shows "j < length es \<and> P (entry_val (es ! j))"
  using assms by (induction es arbitrary: j) (auto split: if_splits)

lemma match_loop_None: "match_loop P es = None \<longleftrightarrow> (\<forall>e \<in> set es. \<not> P (entry_val e))"
  by (induction es) auto

lemma find_eq:
  assumes "lease_ok t"
  shows "hash_table_find t (Some a) =
    Some (map_option (Pair (bucket_of a)) (match_loop (in6_addr_match a) (hash_heads t ! bucket_of a)))"
  using assms by (simp add: hash_table_find_def hash_index_ok) (simp add: lease_ok_def)

lemma match_in_bucket:
  assumes "lease_ok t" "length a = 16" "e \<in> set (hash_heads t ! bucket_of a)"
  shows "in6_addr_match a (entry_val e) \<longleftrightarrow> entry_val e = a"
  using lease_ok_bucket(3) [OF assms(1,3)] assms(2) by (auto simp: in6_addr_match_def)

lemma bucket_map_simps [simp]:
  "bucket_map [] = Map.empty" "bucket_map (e # es) = (bucket_map es)(entry_val e \<mapsto> entry_flag e)"
  "bucket_map (xs @ ys) = bucket_map ys ++ bucket_map xs"
  by (simp_all add: bucket_map_def)

lemma bucket_map_None: "bucket_map es a = None \<longleftrightarrow> a \<notin> entry_val ` set es"
  by (induction es) auto

lemma bucket_map_remove:
  assumes "entry_val e \<notin> entry_val ` set xs" "entry_val e \<notin> entry_val ` set ys"
  shows "bucket_map (xs @ ys) = (bucket_map (xs @ e # ys))(entry_val e := None)"
proof -
  have "bucket_map xs (entry_val e) = None" "bucket_map ys (entry_val e) = None" using assms by (simp_all add: bucket_map_None)
  then show ?thesis by (intro ext) (auto simp: map_add_def split: option.split)
qed

lemma bucket_map_replace:
  assumes "entry_val e \<notin> entry_val ` set xs" "entry_val e' = entry_val e"
  shows "bucket_map (xs @ e' # ys) = (bucket_map (xs @ e # ys))(entry_val e \<mapsto> entry_flag e')"
proof -
  have "bucket_map xs (entry_val e) = None" using assms(1) by (simp add: bucket_map_None)
  then show ?thesis using assms(2) by (intro ext) (auto simp: map_add_def split: option.split)
qed

lemma find_fresh:
  assumes "lease_ok t" "length a = 16" "leases t a = None"
  shows "hash_table_find t (Some a) = Some None"
proof -
  have "\<forall>e \<in> set (hash_heads t ! bucket_of a). entry_val e \<noteq> a"
    using assms(3) by (auto simp: leases_def bucket_map_None)
  then have "match_loop (in6_addr_match a) (hash_heads t ! bucket_of a) = None"
    using match_in_bucket [OF assms(1,2)] by (simp add: match_loop_None)
  then show ?thesis by (simp add: find_eq [OF assms(1)])
qed

lemma find_leased:
  assumes "lease_ok t" "length a = 16" "leases t a = Some f"
  obtains xs ys where "hash_table_find t (Some a) = Some (Some (bucket_of a, length xs))"
    "hash_heads t ! bucket_of a = xs @ \<lparr>entry_val = a, entry_flag = f\<rparr> # ys"
    "a \<notin> entry_val ` set xs" "a \<notin> entry_val ` set ys"
proof -
  let ?es = "hash_heads t ! bucket_of a"
  have d: "distinct (map entry_val ?es)" by (rule lease_ok_bucket(2) [OF assms(1)])
  have "match_loop (in6_addr_match a) ?es \<noteq> None"
  proof
    assume "match_loop (in6_addr_match a) ?es = None"
    then have "a \<notin> entry_val ` set ?es" using match_in_bucket [OF assms(1,2)] by (auto simp: match_loop_None)
    then show False using assms(3) by (simp add: leases_def flip: bucket_map_None)
  qed
  then obtain j where j: "match_loop (in6_addr_match a) ?es = Some j" by blast
  note j' = match_loop_Some [OF j]
  let ?xs = "take j ?es" and ?e = "?es ! j" and ?ys = "drop (Suc j) ?es"
  have v: "entry_val ?e = a" using j' match_in_bucket [OF assms(1,2), of ?e] by simp
  have es: "?es = ?xs @ ?e # ?ys" using j' by (simp add: id_take_nth_drop [symmetric])
  have n: "a \<notin> entry_val ` set ?xs" "a \<notin> entry_val ` set ?ys"
    using d v by (subst (asm) es, auto)+
  have "bucket_map ?es a = Some (entry_flag ?e)"
    using n(1) [folded bucket_map_None] v by (subst es) (simp add: map_add_def)
  then have "?e = \<lparr>entry_val = a, entry_flag = f\<rparr>" using assms(3) v by (simp add: leases_def)
  then show ?thesis using that [of ?xs ?ys] es n j' by (simp add: find_eq [OF assms(1)] j)
qed

text \<open>Replacing one bucket.\<close>

lemma lease_ok_update:
  assumes "lease_ok t" "distinct (map entry_val es)"
    and "\<And>e. e \<in> set es \<Longrightarrow> length (entry_val e) = 16 \<and> bucket_of (entry_val e) = bucket_of a"
  shows "lease_ok (t\<lparr>hash_heads := (hash_heads t)[bucket_of a := es]\<rparr>)"
proof -
  have "(hash_heads t)[bucket_of a := es] ! i = (if i = bucket_of a then es else hash_heads t ! i)" if "i < 256" for i
    using that assms(1) by (simp add: lease_ok_def nth_list_update)
  then show ?thesis using assms by (simp add: lease_ok_def)
qed

lemma leases_update:
  assumes "lease_ok t" "bucket_map es = (bucket_map (hash_heads t ! bucket_of a))(a := v)"
  shows "leases (t\<lparr>hash_heads := (hash_heads t)[bucket_of a := es]\<rparr>) = (leases t)(a := v)"
proof
  fix b
  have "(hash_heads t)[bucket_of a := es] ! bucket_of b = (if bucket_of b = bucket_of a then es else hash_heads t ! bucket_of b)"
    using lease_ok_bucket(1) [OF assms(1), of a] by (simp add: nth_list_update)
  then show "leases (t\<lparr>hash_heads := (hash_heads t)[bucket_of a := es]\<rparr>) b = ((leases t)(a := v)) b"
    using assms(2) by (simp add: leases_def)
qed

text \<open>What the operations promise on the map.\<close>

lemma lease_address_ok:
  assumes "lease_ok t" "length a = 16"
  obtains t' where "lease_address mem1 mem2 (Some a) t = Some (leases t a = None \<and> mem1 \<and> mem2, t')" "lease_ok t'"
    "leases t' = (if leases t a = None \<and> mem1 \<and> mem2 then (leases t)(a \<mapsto> 0) else leases t)"
proof -
  let ?es = "hash_heads t ! bucket_of a"
  let ?e = "\<lparr>entry_val = a, entry_flag = 0\<rparr>"
  have find: "\<exists>r. hash_table_find t (Some a) = Some r \<and> (r = None \<longleftrightarrow> leases t a = None)"
    using find_fresh [OF assms] by (cases "leases t a") (auto elim: find_leased [OF assms])
  show ?thesis
  proof (cases "leases t a = None \<and> mem1 \<and> mem2")
    case True
    let ?t = "t\<lparr>hash_heads := (hash_heads t)[bucket_of a := ?e # ?es]\<rparr>"
    have fresh: "a \<notin> entry_val ` set ?es"
      using True by (simp add: leases_def bucket_map_None)
    have "lease_ok ?t"
      using assms lease_ok_bucket(2) [OF assms(1), of a] fresh bucket_of_less [of a]
      by (intro lease_ok_update) (auto simp: lease_ok_def)
    moreover have "leases ?t = (leases t)(a \<mapsto> 0)"
      by (rule leases_update [OF assms(1)]) simp
    moreover have "lease_address mem1 mem2 (Some a) t = Some (True, ?t)"
      using find True by (auto simp: lease_address_def hash_table_add_def hash_index_ok [OF assms(1)])
    ultimately show ?thesis using that True by simp
  next
    case False
    have "lease_address mem1 mem2 (Some a) t = Some (False, t)"
      using find False by (auto simp: lease_address_def hash_table_add_def)
    then show ?thesis using that False assms(1) by auto
  qed
qed

lemma release_address_ok:
  assumes "lease_ok t" "length a = 16"
  obtains t' where "release_address (Some a) t = Some t'" "lease_ok t'" "leases t' = (leases t)(a := None)"
proof (cases "leases t a")
  case None
  then have "release_address (Some a) t = Some t"
    using find_fresh [OF assms] by (simp add: release_address_def hash_table_remove_def)
  then show ?thesis using that [of t] None assms(1) by (simp add: fun_upd_idem)
next
  case (Some f)
  let ?e = "\<lparr>entry_val = a, entry_flag = f\<rparr>"
  obtain xs ys where x: "hash_table_find t (Some a) = Some (Some (bucket_of a, length xs))"
    "hash_heads t ! bucket_of a = xs @ ?e # ys" "a \<notin> entry_val ` set xs" "a \<notin> entry_val ` set ys"
    using find_leased [OF assms Some] .
  let ?t = "t\<lparr>hash_heads := (hash_heads t)[bucket_of a := xs @ ys]\<rparr>"
  have "lease_ok ?t"
    using lease_ok_bucket(2) [OF assms(1), of a] assms bucket_of_less [of a] x(2)
    by (intro lease_ok_update) (auto simp: lease_ok_def)
  moreover have "leases ?t = (leases t)(a := None)"
    using bucket_map_remove [of ?e xs ys] x(2-4) by (intro leases_update [OF assms(1)]) simp
  moreover have "release_address (Some a) t = Some ?t"
    by (simp add: release_address_def hash_table_remove_def x LIST_REMOVE_def)
  ultimately show ?thesis by (intro that)
qed

lemma decline_address_ok:
  assumes "lease_ok t" "length a = 16"
  obtains t' where "decline_address (Some a) t = Some t'" "lease_ok t'"
    "leases t' = (leases t)(a := map_option (\<lambda>f. f OR DHCP6_LEASE_DECLINED) (leases t a))"
proof (cases "leases t a")
  case None
  then have "decline_address (Some a) t = Some t" using find_fresh [OF assms] by (simp add: decline_address_def)
  then show ?thesis using that [of t] None assms(1) by (simp add: fun_upd_idem)
next
  case (Some f)
  let ?e = "\<lparr>entry_val = a, entry_flag = f\<rparr>" and ?e' = "\<lparr>entry_val = a, entry_flag = f OR DHCP6_LEASE_DECLINED\<rparr>"
  obtain xs ys where x: "hash_table_find t (Some a) = Some (Some (bucket_of a, length xs))"
    "hash_heads t ! bucket_of a = xs @ ?e # ys" "a \<notin> entry_val ` set xs" "a \<notin> entry_val ` set ys"
    using find_leased [OF assms Some] .
  let ?t = "t\<lparr>hash_heads := (hash_heads t)[bucket_of a := xs @ ?e' # ys]\<rparr>"
  have "lease_ok ?t"
    using lease_ok_bucket(2) [OF assms(1), of a] assms bucket_of_less [of a] x(2)
    by (intro lease_ok_update) (auto simp: lease_ok_def)
  moreover have "leases ?t = (leases t)(a := map_option (\<lambda>f. f OR DHCP6_LEASE_DECLINED) (leases t a))"
    using bucket_map_replace [of ?e xs ?e' ys] x(2,3) Some
    by (simp add: leases_update [OF assms(1)])
  moreover have "decline_address (Some a) t = Some ?t" by (simp add: decline_address_def x)
  ultimately show ?thesis by (intro that)
qed

lemma is_leased_ok:
  assumes "lease_ok t" "length a = 16"
  shows "is_leased (Some a) t = Some (leases t a \<noteq> None)"
  using find_fresh [OF assms] by (cases "leases t a") (auto simp: is_leased_def elim: find_leased [OF assms])

lemma lease_init_ok:
  obtains t' where "lease_init True t = (0, t')" "lease_ok t'" "leases t' = Map.empty"
proof
  let ?t = "\<lparr>hash_heads = replicate 256 [], hash_size = DHCP6_LEASE_TABLE_SIZE, hash_fun = Some in6_addr_hash,
      match_fun = Some in6_addr_match\<rparr>"
  have "unat DHCP6_LEASE_TABLE_SIZE = 256" by (simp add: DHCP6_LEASE_TABLE_SIZE_def)
  then show "lease_init True t = (0, ?t)" by (simp only: lease_init_def hash_table_init_def) simp
  show "lease_ok ?t" by (simp only: lease_ok_def) (simp del: replicate.simps)
  show "leases ?t = Map.empty" using bucket_of_less by (intro ext) (simp add: leases_def del: replicate.simps)
qed

section \<open>The interface of the table\<close>

text \<open>
  What the address pools rely on: the store answers which addresses are leased, and a free address
  can be leased.
\<close>

locale lease_store =
  fixes invar :: "'s \<Rightarrow> bool" and leased :: "'s \<Rightarrow> in6_addr set"
    and query :: "in6_addr \<Rightarrow> 's \<Rightarrow> bool option" and acquire :: "in6_addr \<Rightarrow> 's \<Rightarrow> (bool \<times> 's) option"
    and release :: "in6_addr \<Rightarrow> 's \<Rightarrow> 's option"
  assumes query: "invar s \<Longrightarrow> length a = 16 \<Longrightarrow> query a s = Some (a \<in> leased s)"
    and acquire: "invar s \<Longrightarrow> length a = 16 \<Longrightarrow>
      \<exists>s'. acquire a s = Some (a \<notin> leased s, s') \<and> invar s' \<and> leased s' = insert a (leased s)"
    and release: "invar s \<Longrightarrow> length a = 16 \<Longrightarrow>
      \<exists>s'. release a s = Some s' \<and> invar s' \<and> leased s' = leased s - {a}"
begin

lemma acquire_once:
  assumes "invar s" "length a = 16" "acquire a s = Some (ok, s')" "acquire a s' = Some (ok', s'')"
  shows "\<not> ok' \<and> leased s'' = leased s'"
  using acquire [OF assms(1,2)] acquire [of s' a] assms by auto

lemma acquire_again:
  assumes "invar s" "length a = 16" "release a s = Some s'" "acquire a s' = Some (ok, s'')"
  shows "ok"
  using release [OF assms(1,2)] acquire [of s' a] assms by auto

end

interpretation lease_table: lease_store lease_ok "\<lambda>t. dom (leases t)" "\<lambda>a. is_leased (Some a)"
  "\<lambda>a. lease_address True True (Some a)" "\<lambda>a. release_address (Some a)"
proof
  fix t a
  assume t: "lease_ok t" "length (a :: in6_addr) = 16"
  show "is_leased (Some a) t = Some (a \<in> dom (leases t))" using is_leased_ok [OF t] by auto
  show "\<exists>t'. lease_address True True (Some a) t = Some (a \<notin> dom (leases t), t') \<and> lease_ok t'
      \<and> dom (leases t') = insert a (dom (leases t))"
    by (rule lease_address_ok [OF t, of True True]) (auto split: if_splits)
  show "\<exists>t'. release_address (Some a) t = Some t' \<and> lease_ok t' \<and> dom (leases t') = dom (leases t) - {a}"
    by (rule release_address_ok [OF t]) auto
qed

section \<open>Runs\<close>

text \<open>The calls the server makes, on the table and on a map from addresses to flags.\<close>

datatype lease_op = Lease bool bool (op_addr: in6_addr) | Release (op_addr: in6_addr) | Decline (op_addr: in6_addr)
  | Query (op_addr: in6_addr)

fun lease_do :: "lease_op \<Rightarrow> hash_table \<Rightarrow> (bool option \<times> hash_table) option" where
  "lease_do (Lease mem1 mem2 a) t = do { (r, t) \<leftarrow> lease_address mem1 mem2 (Some a) t; Some (Some r, t) }"
| "lease_do (Release a) t = do { t \<leftarrow> release_address (Some a) t; Some (None, t) }"
| "lease_do (Decline a) t = do { t \<leftarrow> decline_address (Some a) t; Some (None, t) }"
| "lease_do (Query a) t = do { r \<leftarrow> is_leased (Some a) t; Some (Some r, t) }"

fun lease_run :: "lease_op list \<Rightarrow> hash_table \<Rightarrow> (bool option list \<times> hash_table) option" where
  "lease_run [] t = Some ([], t)"
| "lease_run (x # xs) t = do { (r, t) \<leftarrow> lease_do x t; (rs, t) \<leftarrow> lease_run xs t; Some (r # rs, t) }"

fun map_do :: "lease_op \<Rightarrow> (in6_addr \<rightharpoonup> byte) \<Rightarrow> bool option \<times> (in6_addr \<rightharpoonup> byte)" where
  "map_do (Lease mem1 mem2 a) m =
     (if a \<notin> dom m \<and> mem1 \<and> mem2 then (Some True, m(a \<mapsto> 0)) else (Some False, m))"
| "map_do (Release a) m = (None, m(a := None))"
| "map_do (Decline a) m = (None, m(a := map_option (\<lambda>f. f OR DHCP6_LEASE_DECLINED) (m a)))"
| "map_do (Query a) m = (Some (a \<in> dom m), m)"

fun map_run :: "lease_op list \<Rightarrow> (in6_addr \<rightharpoonup> byte) \<Rightarrow> bool option list \<times> (in6_addr \<rightharpoonup> byte)" where
  "map_run [] m = ([], m)"
| "map_run (x # xs) m = (let (r, m) = map_do x m; (rs, m) = map_run xs m in (r # rs, m))"

lemma lease_do_refines:
  assumes "lease_ok t" "length (op_addr x) = 16"
  shows "\<exists>t'. lease_do x t = Some (fst (map_do x (leases t)), t') \<and> lease_ok t' \<and> leases t' = snd (map_do x (leases t))"
proof (cases x)
  case (Lease mem1 mem2 a)
  then have a: "length a = 16" using assms(2) by simp
  obtain t' where "lease_address mem1 mem2 (Some a) t = Some (leases t a = None \<and> mem1 \<and> mem2, t')" "lease_ok t'"
    "leases t' = (if leases t a = None \<and> mem1 \<and> mem2 then (leases t)(a \<mapsto> 0) else leases t)"
    by (rule lease_address_ok [OF assms(1) a])
  then show ?thesis using Lease by (simp add: domIff)
next
  case (Release a)
  then have a: "length a = 16" using assms(2) by simp
  obtain t' where "release_address (Some a) t = Some t'" "lease_ok t'" "leases t' = (leases t)(a := None)"
    by (rule release_address_ok [OF assms(1) a])
  then show ?thesis using Release by simp
next
  case (Decline a)
  then have a: "length a = 16" using assms(2) by simp
  obtain t' where "decline_address (Some a) t = Some t'" "lease_ok t'"
    "leases t' = (leases t)(a := map_option (\<lambda>f. f OR DHCP6_LEASE_DECLINED) (leases t a))"
    by (rule decline_address_ok [OF assms(1) a])
  then show ?thesis using Decline by simp
next
  case (Query a)
  then show ?thesis using assms is_leased_ok [of t a] by (simp add: domIff)
qed

lemma lease_run_refines:
  assumes "lease_ok t" "\<forall>x \<in> set xs. length (op_addr x) = 16"
  shows "\<exists>t'. lease_run xs t = Some (fst (map_run xs (leases t)), t') \<and> lease_ok t' \<and> leases t' = snd (map_run xs (leases t))"
  using assms
proof (induction xs arbitrary: t)
  case (Cons x xs)
  obtain t1 where t1: "lease_do x t = Some (fst (map_do x (leases t)), t1)" "lease_ok t1" "leases t1 = snd (map_do x (leases t))"
    using lease_do_refines [of t x] Cons.prems by auto
  then show ?case using Cons.IH [OF t1(2)] Cons.prems(2) by (auto simp: case_prod_beta' Let_def)
qed simp

text \<open>C15. The lease table of the DHCPv6 server is a map.  After \<open>lease_init\<close>, any sequence of leases (with
  memory running out at any call), releases, declines and queries is free of undefined behaviour and
  gives the answers a map from addresses to flags gives: an address is leased at most once until it is
  released, however the addresses collide in the buckets.\<close>

theorem lease_table_refines:
  assumes "\<forall>x \<in> set xs. length (op_addr x) = 16" "lease_init True t0 = (0, t)"
  shows "\<exists>t'. lease_run xs t = Some (fst (map_run xs Map.empty), t') \<and> leases t' = snd (map_run xs Map.empty)"
proof -
  have "lease_ok t" "leases t = Map.empty" by (rule lease_init_ok [of t0]; use assms(2) in simp)+
  then show ?thesis using lease_run_refines [OF _ assms(1), of t] by auto
qed

text \<open>Two addresses of one bucket.\<close>

definition demo_addr :: "byte \<Rightarrow> byte \<Rightarrow> in6_addr" where
  "demo_addr a b = [0x20, 0x01, 0x0d, 0xb8, 0, 0, 0, 0, 0, 0, 0, 0, 0, 0, a, b]"

theorem lease_table_refines_witness:
  "bucket_of (demo_addr 1 2) = bucket_of (demo_addr 2 1) \<and>
   (\<exists>t'. lease_run [Lease True True (demo_addr 1 2), Lease True True (demo_addr 2 1), Lease True True (demo_addr 1 2),
      Release (demo_addr 1 2), Query (demo_addr 1 2), Query (demo_addr 2 1)]
      (snd (lease_init True \<lparr>hash_heads = [], hash_size = 0, hash_fun = None, match_fun = None\<rparr>)) =
    Some ([Some True, Some True, Some False, None, Some False, Some True], t'))"
proof
  show "bucket_of (demo_addr 1 2) = bucket_of (demo_addr 2 1)" by (simp add: bucket_of_def in6_addr_hash_def demo_addr_def)
  let ?t0 = "\<lparr>hash_heads = [], hash_size = 0, hash_fun = None, match_fun = None\<rparr> :: hash_table"
  let ?xs = "[Lease True True (demo_addr 1 2), Lease True True (demo_addr 2 1), Lease True True (demo_addr 1 2),
      Release (demo_addr 1 2), Query (demo_addr 1 2), Query (demo_addr 2 1)]"
  have "lease_init True ?t0 = (0, snd (lease_init True ?t0))" by (rule lease_init_ok [of ?t0]) simp
  from lease_table_refines [OF _ this, of ?xs]
  show "\<exists>t'. lease_run ?xs (snd (lease_init True ?t0)) =
      Some ([Some True, Some True, Some False, None, Some False, Some True], t')"
    by (auto simp: demo_addr_def)
qed

end
