(* ===== verification/Dhcp6Pool.thy ===== *)
theory Dhcp6Pool
  imports Dhcp6Lease
begin

text \<open>
  The address pools of the DHCPv6 server: the pool functions of \<^verbatim>\<open>src/apps/dhcp6/config.c\<close> and
  \<open>make_iana_from_pool\<close> of \<^verbatim>\<open>src/apps/dhcp6/dhcp6s.c\<close>, on the lease table.

  A result \<^term>\<open>None\<close> of the search of a pool is undefined behaviour of the lease table or a loop that
  does not end.
\<close>

section \<open>Addresses\<close>

fun in6_addr_cmp :: "in6_addr \<Rightarrow> in6_addr \<Rightarrow> int" where
  "in6_addr_cmp (a # as) (b # bs) = (if a \<noteq> b then (if b < a then 1 else -1) else in6_addr_cmp as bs)"
| "in6_addr_cmp _ _ = 0"

text \<open>The loop goes from the last byte to the first.\<close>

fun inc_loop :: "byte list \<Rightarrow> byte list" where
  "inc_loop [] = []"
| "inc_loop (b # bs) = (if b + 1 \<noteq> 0 then (b + 1) # bs else (b + 1) # inc_loop bs)"

definition in6_addr_inc :: "in6_addr \<Rightarrow> in6_addr" where
  "in6_addr_inc addr = rev (inc_loop (rev addr))"

definition IN6_IS_ADDR_MULTICAST :: "in6_addr \<Rightarrow> bool" where
  "IN6_IS_ADDR_MULTICAST a = (a ! 0 = 0xff)"

definition IN6_IS_ADDR_LINKLOCAL :: "in6_addr \<Rightarrow> bool" where
  "IN6_IS_ADDR_LINKLOCAL a = (a ! 0 = 0xfe \<and> a ! 1 AND 0xc0 = 0x80)"

definition IN6_IS_ADDR_SITELOCAL :: "in6_addr \<Rightarrow> bool" where
  "IN6_IS_ADDR_SITELOCAL a = (a ! 0 = 0xfe \<and> a ! 1 AND 0xc0 = 0xc0)"

definition assignable :: "in6_addr \<Rightarrow> bool" where
  "assignable cur = (\<not> IN6_IS_ADDR_MULTICAST cur \<and> \<not> IN6_IS_ADDR_LINKLOCAL cur \<and> \<not> IN6_IS_ADDR_SITELOCAL cur)"

section \<open>Pools\<close>

record pool_conf =
  pool_name :: string
  pool_min :: in6_addr
  pool_max :: in6_addr

record dhcp6_range =
  range_min :: in6_addr
  range_max :: in6_addr

definition create_pool :: "bool \<Rightarrow> bool \<Rightarrow> string option \<Rightarrow> dhcp6_range option \<Rightarrow> pool_conf option" where
  "create_pool mem1 mem2 name rng =
     (case (name, rng) of
        (Some n, Some rg) \<Rightarrow>
          if 0 < in6_addr_cmp (range_min rg) (range_max rg) then None
          else if \<not> mem1 then None
          else if \<not> mem2 then None
          else Some \<lparr>pool_name = n, pool_min = range_min rg, pool_max = range_max rg\<rparr>
      | _ \<Rightarrow> None)"

fun find_pool :: "string option \<Rightarrow> pool_conf list \<Rightarrow> pool_conf option" where
  "find_pool None pools = None"
| "find_pool (Some name) [] = None"
| "find_pool (Some name) (pool # pools) = (if name = pool_name pool then Some pool else find_pool (Some name) pools)"

partial_function (option) pool_loop ::
  "(in6_addr \<Rightarrow> bool option) \<Rightarrow> in6_addr \<Rightarrow> in6_addr \<Rightarrow> in6_addr option option" where
  "pool_loop leased mx cur =
     (if in6_addr_cmp cur mx \<le> 0 then do {
        l \<leftarrow> leased cur;
        if \<not> l \<and> assignable cur then Some (Some cur) else pool_loop leased mx (in6_addr_inc cur) }
      else Some None)"

definition get_free_address_from_pool :: "pool_conf option \<Rightarrow> bool \<Rightarrow> hash_table \<Rightarrow> in6_addr option option" where
  "get_free_address_from_pool pool addr table =
     (case pool of
        None \<Rightarrow> Some None
      | Some p \<Rightarrow> if \<not> addr then Some None else pool_loop (\<lambda>cur. is_leased (Some cur) table) (pool_max p) (pool_min p))"

definition is_available_in_pool :: "pool_conf option \<Rightarrow> in6_addr option \<Rightarrow> hash_table \<Rightarrow> bool option" where
  "is_available_in_pool pool addr table =
     (case (pool, addr) of
        (Some p, Some a) \<Rightarrow>
          if 0 \<le> in6_addr_cmp a (pool_min p) \<and> in6_addr_cmp a (pool_max p) \<le> 0 then do {
            l \<leftarrow> is_leased (Some a) table;
            Some (\<not> l \<and> assignable a) }
          else Some False
      | _ \<Rightarrow> Some False)"

record dhcp6_poolspec =
  spec_name :: "string option"
  spec_pltime :: u32
  spec_vltime :: u32

record dhcp6_statefuladdr =
  sa_addr :: in6_addr
  sa_pltime :: u32
  sa_vltime :: u32

definition make_iana_from_pool :: "dhcp6_poolspec \<Rightarrow> in6_addr option \<Rightarrow> bool \<Rightarrow> pool_conf list \<Rightarrow> hash_table \<Rightarrow>
    dhcp6_statefuladdr list \<Rightarrow> (bool \<times> dhcp6_statefuladdr list) option" where
  "make_iana_from_pool poolspec spec mem pools table retlist =
     (case find_pool (spec_name poolspec) pools of
        None \<Rightarrow> Some (False, retlist)
      | Some pool \<Rightarrow> do {
          found \<leftarrow> (case spec of
              Some a \<Rightarrow> do { ok \<leftarrow> is_available_in_pool (Some pool) (Some a) table; Some (if ok then Some a else None) }
            | None \<Rightarrow> get_free_address_from_pool (Some pool) True table);
          case found of
            None \<Rightarrow> Some (False, retlist)
          | Some a \<Rightarrow>
              if \<not> mem then Some (False, retlist)
              else Some (True, retlist @ [\<lparr>sa_addr = a, sa_pltime = spec_pltime poolspec, sa_vltime = spec_vltime poolspec\<rparr>]) })"

text \<open>The loop of \<open>add_binding\<close> that leases the addresses of a new binding and drops those it cannot lease.\<close>

fun lease_loop :: "(in6_addr \<Rightarrow> bool) \<Rightarrow> dhcp6_statefuladdr list \<Rightarrow> hash_table \<Rightarrow>
    (dhcp6_statefuladdr list \<times> hash_table) option" where
  "lease_loop mem [] table = Some ([], table)"
| "lease_loop mem (lv # lvs) table = do {
     (ok, table) \<leftarrow> lease_address (mem (sa_addr lv)) True (Some (sa_addr lv)) table;
     (rest, table) \<leftarrow> lease_loop mem lvs table;
     Some (if ok then lv # rest else rest, table) }"

section \<open>Addresses as numbers\<close>

fun addr_val :: "in6_addr \<Rightarrow> nat" where
  "addr_val [] = 0"
| "addr_val (b # bs) = unat b * 256 ^ length bs + addr_val bs"

lemma addr_val_less: "addr_val a < 256 ^ length a"
proof (induction a)
  case (Cons b bs)
  have "unat b < 256" using unsigned_less [of b] by simp
  have "addr_val (b # bs) < (unat b + 1) * 256 ^ length bs" using Cons by (simp add: algebra_simps)
  also have "\<dots> \<le> 256 * 256 ^ length bs" using \<open>unat b < 256\<close> by (intro mult_le_mono1) linarith
  finally show ?case by simp
qed simp

lemma addr_val_snoc: "addr_val (bs @ [b]) = 256 * addr_val bs + unat b"
  by (induction bs) (auto simp: algebra_simps)

lemma addr_val_last: "addr_val (replicate n 0xff) + 1 = 256 ^ n"
  by (induction n) simp_all

lemma in6_addr_cmp_val:
  assumes "length a = length b"
  shows "in6_addr_cmp a b = sgn (int (addr_val a) - int (addr_val b))"
  using assms
proof (induction a b rule: in6_addr_cmp.induct)
  case (1 a as b bs)
  have lt: "addr_val (x # xs) < addr_val (y # ys)" if "x < y" "length xs = length ys" for x y :: byte and xs ys
  proof -
    have "addr_val (x # xs) < (unat x + 1) * 256 ^ length xs" using addr_val_less [of xs] by (simp add: algebra_simps)
    also have "\<dots> \<le> unat y * 256 ^ length ys" 
      unfolding that(2) using that(1) by (intro mult_le_mono1) (simp add: word_less_nat_alt)
    finally show ?thesis by simp
  qed
  show ?case
  proof (cases a b rule: linorder_cases)
    case less
    then show ?thesis using 1(2) lt [of a b as bs] by (auto simp: sgn_if simp del: addr_val.simps)
  next
    case equal
    then show ?thesis using 1 by simp
  next
    case greater
    then show ?thesis using 1(2) lt [of b a bs as] by (auto simp: sgn_if simp del: addr_val.simps)
  qed
qed auto

lemma in6_addr_cmp_eq: "length a = length b \<Longrightarrow> in6_addr_cmp a b = 0 \<longleftrightarrow> a = b"
  by (induction a b rule: in6_addr_cmp.induct) auto

lemma addr_val_inject: "length a = length b \<Longrightarrow> addr_val a = addr_val b \<longleftrightarrow> a = b"
  using in6_addr_cmp_val [of a b] in6_addr_cmp_eq [of a b] by (auto simp: sgn_if split: if_splits)

lemma addr_val_not_last:
  assumes "length a = n" "a \<noteq> replicate n 0xff"
  shows "addr_val a + 1 < 256 ^ n"
proof -
  have "addr_val a \<noteq> addr_val (replicate n 0xff)" using addr_val_inject [of a "replicate n 0xff"] assms by simp
  then show ?thesis using addr_val_less [of a, unfolded assms(1)] addr_val_last [of n] by linarith
qed

lemma in6_addr_inc_length [simp]: "length (in6_addr_inc a) = length a"
proof -
  have "length (inc_loop bs) = length bs" for bs by (induction bs) auto
  then show ?thesis by (simp add: in6_addr_inc_def)
qed

lemma in6_addr_inc_val: "addr_val (in6_addr_inc a) = (addr_val a + 1) mod 256 ^ length a"
proof (induction a rule: rev_induct)
  case (snoc b bs)
  show ?case
  proof (cases "b + 1 = 0")
    case True
    then have b: "b = -1" by (simp add: add_eq_0_iff2)
    have "unat (- 1 :: byte) = 255" by code_simp
    then have "256 * addr_val bs + unat b + 1 = 256 * (addr_val bs + 1)" by (simp add: b)
    then have "(addr_val (bs @ [b]) + 1) mod 256 ^ length (bs @ [b]) = 256 * ((addr_val bs + 1) mod 256 ^ length bs)"
      by (simp only: addr_val_snoc mult_mod_right length_append_singleton power_Suc)
    moreover have "in6_addr_inc (bs @ [b]) = in6_addr_inc bs @ [0]" by (simp add: in6_addr_inc_def b)
    ultimately show ?thesis using snoc by (simp only: addr_val_snoc) simp
  next
    case False
    then have "unat (b + 1) = unat b + 1" by (simp add: unatSuc add.commute)
    moreover have "addr_val (bs @ [b + 1]) < 256 ^ length (bs @ [b + 1])" by (rule addr_val_less)
    ultimately show ?thesis using False by (simp add: in6_addr_inc_def addr_val_snoc)
  qed
qed (simp add: in6_addr_inc_def)

section \<open>Searching a pool\<close>

text \<open>The addresses a pool can give out when the set \<open>L\<close> is leased.\<close>

definition free_between :: "in6_addr set \<Rightarrow> in6_addr \<Rightarrow> in6_addr \<Rightarrow> in6_addr \<Rightarrow> bool" where
  "free_between L lo hi a = (length a = 16 \<and> addr_val lo \<le> addr_val a \<and> addr_val a \<le> addr_val hi \<and> a \<notin> L \<and> assignable a)"

lemma in6_addr_cmp_le: "length a = length b \<Longrightarrow> in6_addr_cmp a b \<le> 0 \<longleftrightarrow> addr_val a \<le> addr_val b"
  by (simp add: in6_addr_cmp_val sgn_if)

lemma in6_addr_cmp_ge: "length a = length b \<Longrightarrow> 0 \<le> in6_addr_cmp a b \<longleftrightarrow> addr_val b \<le> addr_val a"
  by (simp add: in6_addr_cmp_val sgn_if)

lemma in6_addr_inc_below:
  assumes "length a = 16" "length b = 16" "addr_val a \<le> addr_val b" "addr_val b + 1 < 256 ^ 16"
  shows "addr_val (in6_addr_inc a) = addr_val a + 1"
  using assms by (simp add: in6_addr_inc_val)

lemma free_between_step:
  assumes "length lo = 16" "\<not> free_between L lo hi lo" "addr_val lo \<le> addr_val hi" "addr_val lo' = addr_val lo + 1"
  shows "free_between L lo hi = free_between L lo' hi"
proof
  fix a
  have "a = lo" if "length a = 16" "addr_val a = addr_val lo" using that assms(1) addr_val_inject [of a lo] by simp
  then show "free_between L lo hi a = free_between L lo' hi a"
    using assms unfolding free_between_def by (cases "addr_val a = addr_val lo") auto
qed

context lease_store
begin

lemma pool_loop_least:
  assumes "invar s" "length cur = 16" "length mx = 16" "addr_val mx + 1 < 256 ^ 16"
  shows "\<exists>r. pool_loop (\<lambda>a. query a s) mx cur = Some r \<and>
    (case r of None \<Rightarrow> \<forall>a. \<not> free_between (leased s) cur mx a
     | Some a \<Rightarrow> free_between (leased s) cur mx a \<and> (\<forall>b. free_between (leased s) cur mx b \<longrightarrow> addr_val a \<le> addr_val b))"
  using assms(2)
proof (induction "addr_val mx + 1 - addr_val cur" arbitrary: cur rule: less_induct)
  case less
  note step = pool_loop.simps [of _ mx cur]
  show ?case
  proof (cases "addr_val cur \<le> addr_val mx")
    case True
    then have c: "in6_addr_cmp cur mx \<le> 0" using less.prems assms(3) by (simp add: in6_addr_cmp_le)
    show ?thesis
    proof (cases "cur \<notin> leased s \<and> assignable cur")
      case free: True
      then have "pool_loop (\<lambda>a. query a s) mx cur = Some (Some cur)"
        using c query [OF assms(1) less.prems] by (simp add: step)
      then show ?thesis using free True less.prems by (auto simp: free_between_def)
    next
      case False
      let ?cur = "in6_addr_inc cur"
      have v: "addr_val ?cur = addr_val cur + 1" by (rule in6_addr_inc_below [OF less.prems assms(3) True assms(4)])
      have n: "\<not> free_between (leased s) cur mx cur" using False by (auto simp: free_between_def)
      have "pool_loop (\<lambda>a. query a s) mx cur = pool_loop (\<lambda>a. query a s) mx ?cur"
        using c False query [OF assms(1) less.prems] by (auto simp: step)
      moreover have "addr_val mx + 1 - addr_val ?cur < addr_val mx + 1 - addr_val cur" using v True by linarith
      ultimately show ?thesis
        using less.hyps [of ?cur] less.prems by (simp only: free_between_step [OF less.prems n True v] in6_addr_inc_length)
    qed
  next
    case False
    then have "pool_loop (\<lambda>a. query a s) mx cur = Some None"
      using less.prems assms(3) by (simp add: step in6_addr_cmp_le)
    then show ?thesis using False by (auto simp: free_between_def)
  qed
qed

end

lemma get_free_address:
  assumes "lease_ok t" "length (pool_min p) = 16" "length (pool_max p) = 16" "pool_max p \<noteq> replicate 16 0xff"
  defines "free \<equiv> free_between (dom (leases t)) (pool_min p) (pool_max p)"
  shows "\<exists>r. get_free_address_from_pool (Some p) True t = Some r
    \<and> (r = None \<longleftrightarrow> (\<forall>a. \<not> free a)) \<and> (\<forall>a. r = Some a \<longrightarrow> free a \<and> (\<forall>b. free b \<longrightarrow> addr_val a \<le> addr_val b))
    \<and> (\<forall>a. length a = 16 \<longrightarrow> is_available_in_pool (Some p) (Some a) t = Some (free a))"
proof -
  have "addr_val (pool_max p) + 1 < 256 ^ 16" using assms(3,4) by (rule addr_val_not_last)
  from lease_table.pool_loop_least [OF assms(1,2,3) this, folded free_def]
  obtain r where r: "get_free_address_from_pool (Some p) True t = Some r"
    "case r of None \<Rightarrow> \<forall>a. \<not> free a | Some a \<Rightarrow> free a \<and> (\<forall>b. free b \<longrightarrow> addr_val a \<le> addr_val b)"
    by (auto simp: get_free_address_from_pool_def)
  have "is_available_in_pool (Some p) (Some a) t = Some (free a)" if "length a = 16" for a
    using that assms lease_table.query [OF assms(1) that]
    by (auto simp: is_available_in_pool_def free_def free_between_def in6_addr_cmp_le in6_addr_cmp_ge)
  then show ?thesis using r by (intro exI [of _ r]) (auto split: option.splits)
qed

text \<open>C14. The search of a pool ends and gives the least free address.  For every pool that does not reach
  the last IPv6 address, \<open>get_free_address_from_pool\<close> returns; it fails exactly if no address of the
  pool is free, and otherwise gives the least address that is not leased, not multicast, not link-local
  and not site-local.  \<open>is_available_in_pool\<close> accepts exactly the free addresses of the pool.\<close>

theorem get_free_address_least:
  assumes "lease_ok t" "length (pool_min p) = 16" "length (pool_max p) = 16" "pool_max p \<noteq> replicate 16 0xff"
  defines "free \<equiv> free_between (dom (leases t)) (pool_min p) (pool_max p)"
  shows "\<exists>r. get_free_address_from_pool (Some p) True t = Some r
    \<and> (r = None \<longleftrightarrow> (\<forall>a. \<not> free a)) \<and> (\<forall>a. r = Some a \<longrightarrow> free a \<and> (\<forall>b. free b \<longrightarrow> addr_val a \<le> addr_val b))
    \<and> (\<forall>a. length a = 16 \<longrightarrow> is_available_in_pool (Some p) (Some a) t = Some (free a))"
  unfolding free_def using assms(1-4) by (rule get_free_address)

definition demo_pool :: pool_conf where
  "demo_pool = \<lparr>pool_name = ''lan'', pool_min = demo_addr 0 1, pool_max = demo_addr 0 9\<rparr>"

lemma demo_pool_range:
  "length (pool_min demo_pool) = 16" "length (pool_max demo_pool) = 16" "pool_max demo_pool \<noteq> replicate 16 0xff"
  "addr_val (demo_addr 0 1) \<le> addr_val (demo_addr 0 9)" "assignable (demo_addr 0 1)"
proof -
  obtain xs where xs: "\<And>b. demo_addr 0 b = xs @ [b]"
  proof
    show "demo_addr 0 b = [0x20, 0x01, 0x0d, 0xb8, 0, 0, 0, 0, 0, 0, 0, 0, 0, 0, 0] @ [b]" for b by (simp add: demo_addr_def)
  qed
  show "addr_val (demo_addr 0 1) \<le> addr_val (demo_addr 0 9)" unfolding xs addr_val_snoc by simp
qed (code_simp+)

theorem get_free_address_least_witness:
  "\<exists>t. lease_ok t \<and> get_free_address_from_pool (Some demo_pool) True t = Some (Some (demo_addr 0 1))"
proof -
  obtain t where t: "lease_ok t" "leases t = Map.empty" by (rule lease_init_ok)
  let ?free = "free_between {} (demo_addr 0 1) (demo_addr 0 9)"
  have f: "?free (demo_addr 0 1)" using demo_pool_range by (simp add: free_between_def demo_pool_def)
  obtain r where r: "get_free_address_from_pool (Some demo_pool) True t = Some r" "r = None \<longleftrightarrow> (\<forall>a. \<not> ?free a)"
    "\<forall>a. r = Some a \<longrightarrow> ?free a \<and> (\<forall>b. ?free b \<longrightarrow> addr_val a \<le> addr_val b)"
    using get_free_address_least [OF t(1) demo_pool_range(1-3)] by (auto simp: t(2) demo_pool_def)
  then obtain a where a: "r = Some a" "?free a" "addr_val a \<le> addr_val (demo_addr 0 1)" using f by auto
  then have "addr_val a = addr_val (demo_addr 0 1)" by (simp add: free_between_def)
  moreover have "length a = length (demo_addr 0 1)" using a(2) by (simp add: free_between_def demo_addr_def)
  ultimately have "a = demo_addr 0 1" by (simp only: addr_val_inject)
  then show ?thesis using t(1) r(1) a(1) by blast
qed

section \<open>Serving clients from a pool\<close>

text \<open>
  A client that asks for no particular address gets one from the pool and a binding for it; and \<open>n\<close>
  clients one after the other, until the pool is exhausted.
\<close>

definition serve :: "dhcp6_poolspec \<Rightarrow> pool_conf list \<Rightarrow> hash_table \<Rightarrow> (in6_addr list \<times> hash_table) option" where
  "serve spec pools t = do {
     (found, ial) \<leftarrow> make_iana_from_pool spec None True pools t [];
     if \<not> found then Some ([], t)
     else do { (ial, t) \<leftarrow> lease_loop (\<lambda>_. True) ial t; Some (map sa_addr ial, t) } }"

fun serve_all :: "nat \<Rightarrow> dhcp6_poolspec \<Rightarrow> pool_conf list \<Rightarrow> hash_table \<Rightarrow> (in6_addr list \<times> hash_table) option" where
  "serve_all 0 spec pools t = Some ([], t)"
| "serve_all (Suc n) spec pools t = do {
     (as, t) \<leftarrow> serve spec pools t;
     (bs, t) \<leftarrow> serve_all n spec pools t;
     Some (as @ bs, t) }"

definition pool_ok :: "pool_conf \<Rightarrow> bool" where
  "pool_ok p = (length (pool_min p) = 16 \<and> length (pool_max p) = 16 \<and> pool_max p \<noteq> replicate 16 0xff)"

definition pool_free :: "pool_conf \<Rightarrow> hash_table \<Rightarrow> in6_addr \<Rightarrow> bool" where
  "pool_free p t = free_between (dom (leases t)) (pool_min p) (pool_max p)"

lemma serve_cases:
  assumes "lease_ok t" "pool_ok p" "find_pool (spec_name spec) pools = Some p"
  obtains "serve spec pools t = Some ([], t)" "\<And>a. \<not> pool_free p t a"
  | a t' where "serve spec pools t = Some ([a], t')" "pool_free p t a" "lease_ok t'" "dom (leases t') = insert a (dom (leases t))"
proof -
  obtain r where r: "get_free_address_from_pool (Some p) True t = Some r"
    "r = None \<longleftrightarrow> (\<forall>a. \<not> pool_free p t a)" "\<And>a. r = Some a \<Longrightarrow> pool_free p t a"
    using get_free_address [of t p] assms(1,2) by (auto simp: pool_ok_def pool_free_def)
  show ?thesis
  proof (cases r)
    case None
    then have "serve spec pools t = Some ([], t)" using r(1) assms(3) by (simp add: serve_def make_iana_from_pool_def)
    then show ?thesis using that(1) r(2) None by blast
  next
    case (Some a)
    then have f: "pool_free p t a" by (rule r(3))
    then obtain t' where "lease_address True True (Some a) t = Some (True, t')" "lease_ok t'" "dom (leases t') = insert a (dom (leases t))"
      using lease_table.acquire [OF assms(1), of a] by (auto simp: pool_free_def free_between_def)
    moreover from this have "serve spec pools t = Some ([a], t')"
      using r(1) Some assms(3) by (simp add: serve_def make_iana_from_pool_def)
    ultimately show ?thesis using that(2) f by blast
  qed
qed

lemma pool_free_insert:
  "dom (leases t') = insert a (dom (leases t)) \<Longrightarrow> pool_free p t' b \<longleftrightarrow> pool_free p t b \<and> b \<noteq> a"
  by (auto simp: pool_free_def free_between_def)

text \<open>C13. No address is given out twice.  Any number of clients served from a pool get distinct addresses,
  all free in the pool before; the lease table then holds these in addition, and a client is turned
  away only when the pool has no free address left.\<close>

theorem pool_serves_distinct:
  assumes "lease_ok t" "pool_ok p" "find_pool (spec_name spec) pools = Some p"
  shows "\<exists>as t'. serve_all n spec pools t = Some (as, t') \<and> lease_ok t' \<and> distinct as \<and> (\<forall>a \<in> set as. pool_free p t a)
    \<and> dom (leases t') = dom (leases t) \<union> set as \<and> (length as = n \<or> length as < n \<and> (\<forall>a. \<not> pool_free p t' a))"
  using assms(1)
proof (induction n arbitrary: t)
  case (Suc n)
  show ?case
  proof (cases rule: serve_cases [OF Suc.prems assms(2,3)])
    case 1
    obtain as t' where s: "serve_all n spec pools t = Some (as, t')" "lease_ok t'" "distinct as" "\<forall>a \<in> set as. pool_free p t a"
      "dom (leases t') = dom (leases t) \<union> set as"
      using Suc.IH [OF Suc.prems] by blast
    then have "as = []" using 1(2) by (cases as) auto
    then show ?thesis using s 1 by (auto simp: pool_free_def)
  next
    case (2 a t1)
    obtain as t' where s: "serve_all n spec pools t1 = Some (as, t')" "lease_ok t'" "distinct as" "\<forall>b \<in> set as. pool_free p t1 b"
      "dom (leases t') = dom (leases t1) \<union> set as" "length as = n \<or> length as < n \<and> (\<forall>a. \<not> pool_free p t' a)"
      using Suc.IH [OF 2(3)] by blast
    then show ?thesis using 2 by (auto simp: pool_free_insert [OF 2(4)])
  qed
qed simp

theorem pool_serves_distinct_witness:
  "\<exists>t as t'. lease_ok t \<and> serve_all 2 \<lparr>spec_name = Some ''lan'', spec_pltime = 60, spec_vltime = 90\<rparr> [demo_pool] t = Some (as, t')
    \<and> distinct as \<and> (\<forall>a \<in> set as. pool_free demo_pool t a)"
proof -
  obtain t where t: "lease_ok t" "leases t = Map.empty" by (rule lease_init_ok)
  have "pool_ok demo_pool" using demo_pool_range by (simp add: pool_ok_def)
  from pool_serves_distinct [OF t(1) this, of "\<lparr>spec_name = Some ''lan'', spec_pltime = 60, spec_vltime = 90\<rparr>" "[demo_pool]" 2]
  show ?thesis using t(1) by (auto simp: demo_pool_def)
qed

text \<open>
  A pool that reaches the last address has no such bound: once nothing in it is free, the search wraps
  around and gives out the unspecified address, which is not in the pool.
\<close>

lemma pool_loop_wraps:
  assumes "lease_ok t" "length cur = 16" "\<forall>a. length a = 16 \<and> addr_val cur \<le> addr_val a \<longrightarrow> a \<in> dom (leases t) \<or> \<not> assignable a"
    and "leases t (replicate 16 0) = None"
  shows "pool_loop (\<lambda>a. is_leased (Some a) t) (replicate 16 0xff) cur = Some (Some (replicate 16 0))"
  using assms(2,3)
proof (induction "256 ^ 16 - addr_val cur" arbitrary: cur rule: less_induct)
  case less
  let ?q = "\<lambda>a. is_leased (Some a) t" and ?cur = "in6_addr_inc cur"
  have lt: "addr_val cur < 256 ^ 16" using addr_val_less [of cur] less.prems(1) by simp
  have c: "in6_addr_cmp a (replicate 16 0xff) \<le> 0" if "length a = 16" for a
    using addr_val_less [of a] addr_val_last [of 16] that by (subst in6_addr_cmp_le) auto
  have step: "pool_loop ?q (replicate 16 0xff) cur = pool_loop ?q (replicate 16 0xff) ?cur"
    using less.prems c lease_table.query [OF assms(1) less.prems(1)] by (subst pool_loop.simps) auto
  show ?case
  proof (cases "addr_val cur + 1 < 256 ^ 16")
    case True
    then have v: "addr_val ?cur = addr_val cur + 1" using less.prems(1) by (simp add: in6_addr_inc_val)
    then have "256 ^ 16 - addr_val ?cur < 256 ^ 16 - addr_val cur" using lt by linarith
    moreover have "\<forall>a. length a = 16 \<and> addr_val ?cur \<le> addr_val a \<longrightarrow> a \<in> dom (leases t) \<or> \<not> assignable a"
      using less.prems(2) unfolding v by simp
    ultimately show ?thesis using less.hyps [of ?cur] less.prems(1) unfolding step by (simp only: in6_addr_inc_length)
  next
    case False
    then have "addr_val cur + 1 = 256 ^ 16" using lt by linarith
    then have "addr_val ?cur = 0" using less.prems(1) by (simp only: in6_addr_inc_val) simp
    moreover have "addr_val (replicate n 0) = 0" for n by (induction n) auto
    ultimately have z: "?cur = replicate 16 0" using addr_val_inject [of ?cur "replicate 16 0"] less.prems(1) by simp
    have "assignable (replicate 16 0)" by code_simp
    then show ?thesis
      unfolding step z using c lease_table.query [OF assms(1), of "replicate 16 0"] assms(4) by (subst pool_loop.simps) auto
  qed
qed

end
