(* ===== verification/Dhcp6Base64.thy ===== *)
theory Dhcp6Base64
  imports Prelude
begin

text \<open>
  The base64 decoder for the secrets of the DHCPv6 configuration, \<^verbatim>\<open>src/apps/dhcp6/base64.c\<close>.

  A C string is the list of its characters before the terminating zero byte.  The array \<open>val\<close> starts
  uninitialised; the model starts it with zeros, and no element is read before it is written.
\<close>

section \<open>The decoder\<close>

definition base64 :: "byte list" where
  "base64 = map of_char ''ABCDEFGHIJKLMNOPQRSTUVWXYZabcdefghijklmnopqrstuvwxyz0123456789+/=''"

record base64_decode_ctx =
  ctx_length :: int
  ctx_digits :: nat
  ctx_seen_end :: bool
  ctx_val :: "nat list"
  ctx_dst :: nat
  ctx_result :: "byte list"

definition mem_tobuffer :: "base64_decode_ctx \<Rightarrow> byte list \<Rightarrow> base64_decode_ctx option" where
  "mem_tobuffer ctx bs =
     (if length (ctx_result ctx) \<le> ctx_dst ctx + length bs then None
      else Some (ctx\<lparr>ctx_result := take (ctx_dst ctx) (ctx_result ctx) @ bs @ drop (ctx_dst ctx + length bs) (ctx_result ctx),
                     ctx_dst := ctx_dst ctx + length bs\<rparr>))"

definition base64_decode_init :: "int \<Rightarrow> byte list \<Rightarrow> base64_decode_ctx" where
  "base64_decode_init len result =
     \<lparr>ctx_length = len, ctx_digits = 0, ctx_seen_end = False, ctx_val = [0, 0, 0, 0], ctx_dst = 0, ctx_result = result\<rparr>"

text \<open>\<open>strchr(base64, c) - base64\<close>.\<close>

fun strchr_index :: "byte list \<Rightarrow> byte \<Rightarrow> nat option" where
  "strchr_index [] c = None"
| "strchr_index (x # xs) c = (if x = c then Some 0 else map_option Suc (strchr_index xs c))"

text \<open>A full group of four digits; \<^term>\<open>None\<close> is the return value -1.\<close>

definition decode_group :: "base64_decode_ctx \<Rightarrow> base64_decode_ctx option" where
  "decode_group ctx =
     (let v = ctx_val ctx in
      if v ! 0 = 64 \<or> v ! 1 = 64 then None
      else if v ! 2 = 64 \<and> v ! 3 \<noteq> 64 then None
      else if v ! 2 = 64 \<and> v ! 1 AND 0xf \<noteq> 0 then None
      else if v ! 3 = 64 \<and> v ! 2 AND 0x3 \<noteq> 0 then None
      else
        let n = (if v ! 2 = 64 then 1 else if v ! 3 = 64 then 2 else 3);
            ctx = (if n \<noteq> 3 then ctx\<lparr>ctx_seen_end := True\<rparr> else ctx);
            v2 = (if v ! 2 = 64 then 0 else v ! 2);
            v3 = (if v ! 3 = 64 then 0 else v ! 3);
            buf = [of_nat (push_bit 2 (v ! 0) OR drop_bit 4 (v ! 1)), of_nat (push_bit 4 (v ! 1) OR drop_bit 2 v2),
                   of_nat (push_bit 6 v2 OR v3)]
        in do {
          ctx \<leftarrow> mem_tobuffer ctx (take n buf);
          ctx \<leftarrow> (if 0 \<le> ctx_length ctx then
                   (if ctx_length ctx < int n then None else Some (ctx\<lparr>ctx_length := ctx_length ctx - int n\<rparr>))
                 else Some ctx);
          Some (ctx\<lparr>ctx_digits := 0\<rparr>) })"

definition base64_decode_char :: "base64_decode_ctx \<Rightarrow> byte \<Rightarrow> base64_decode_ctx option" where
  "base64_decode_char ctx c =
     (if ctx_seen_end ctx then None
      else do {
        i \<leftarrow> strchr_index base64 c;
        let ctx = ctx\<lparr>ctx_val := (ctx_val ctx)[ctx_digits ctx := i], ctx_digits := ctx_digits ctx + 1\<rparr>;
        if ctx_digits ctx = 4 then decode_group ctx else Some ctx })"

definition base64_decode_finish :: "base64_decode_ctx \<Rightarrow> bool" where
  "base64_decode_finish ctx = (\<not> 0 < ctx_length ctx \<and> ctx_digits ctx = 0)"

definition b64_space :: "byte \<Rightarrow> bool" where
  "b64_space c = (c = 32 \<or> c = 9 \<or> c = 10 \<or> c = 13)"

fun decode_loop :: "base64_decode_ctx \<Rightarrow> byte list \<Rightarrow> base64_decode_ctx option" where
  "decode_loop ctx [] = Some ctx"
| "decode_loop ctx (c # cs) =
     (if b64_space c then decode_loop ctx cs
      else do { ctx \<leftarrow> base64_decode_char ctx c; decode_loop ctx cs })"

definition base64_decodestring :: "byte list \<Rightarrow> byte list \<Rightarrow> (nat \<times> byte list) option" where
  "base64_decodestring cstr result = do {
     ctx \<leftarrow> decode_loop (base64_decode_init (-1) result) cstr;
     if base64_decode_finish ctx then Some (ctx_dst ctx, ctx_result ctx) else None }"

section \<open>The encoding\<close>

definition b64_digit :: "nat \<Rightarrow> byte" where "b64_digit v = base64 ! v"

fun b64_encode :: "byte list \<Rightarrow> byte list" where
  "b64_encode [] = []"
| "b64_encode [a] = map b64_digit [unat a div 4, unat a mod 4 * 16, 64, 64]"
| "b64_encode [a, b] = map b64_digit [unat a div 4, unat a mod 4 * 16 + unat b div 16, unat b mod 16 * 4, 64]"
| "b64_encode (a # b # c # bs) =
     map b64_digit [unat a div 4, unat a mod 4 * 16 + unat b div 16, unat b mod 16 * 4 + unat c div 64, unat c mod 64]
     @ b64_encode bs"

lemma strchr_index_Some: "strchr_index xs c = Some i \<Longrightarrow> i < length xs \<and> xs ! i = c"
  by (induction xs arbitrary: i) (auto split: if_splits)

lemma strchr_index_nth: "distinct xs \<Longrightarrow> i < length xs \<Longrightarrow> strchr_index xs (xs ! i) = Some i"
  by (induction xs arbitrary: i) (auto simp: nth_Cons split: nat.splits)

lemma base64_codes: "map unat base64 = [65..<91] @ [97..<123] @ [48..<58] @ [43, 47, 61]"
  unfolding base64_def by simp

lemma digit_index:
  assumes "v < 65"
  shows "strchr_index base64 (b64_digit v) = Some v" "\<not> b64_space (b64_digit v)"
proof -
  have l: "v < length base64" using assms arg_cong [OF base64_codes, of length] by simp
  have "distinct (map unat base64)" unfolding base64_codes by simp
  then show "strchr_index base64 (b64_digit v) = Some v"
    unfolding b64_digit_def using l by (intro strchr_index_nth) (simp_all add: distinct_map)
  have "unat (b64_digit v) \<in> set (map unat base64)" using l by (simp add: b64_digit_def)
  then show "\<not> b64_space (b64_digit v)" unfolding base64_codes by (auto simp: b64_space_def)
qed

lemma index_digit: "strchr_index base64 c = Some v \<Longrightarrow> v < 65 \<and> c = b64_digit v"
  using strchr_index_Some [of base64 c v] by (auto simp: base64_def b64_digit_def)

lemma decode_loop_filter: "decode_loop ctx cs = decode_loop ctx (filter (\<lambda>c. \<not> b64_space c) cs)"
  by (induction cs arbitrary: ctx) (auto intro: Option.bind_cong)

text \<open>The bytes of a group.\<close>

lemma or_plus_nat:
  fixes x y :: nat
  assumes "y < 2 ^ k"
  shows "push_bit k x OR y = x * 2 ^ k + y"
proof -
  have "push_bit k x AND y = 0"
    using assms by (auto intro!: bit_eqI simp: bit_simps) (metis bit_nat_iff linorder_not_le take_bit_nat_eq_self_iff bit_take_bit_iff)
  then show ?thesis by (simp add: push_bit_eq_mult flip: disjunctive_add_eq_or)
qed

definition group_bytes :: "nat \<Rightarrow> nat \<Rightarrow> nat \<Rightarrow> nat \<Rightarrow> byte list option" where
  "group_bytes v0 v1 v2 v3 =
     (if v0 = 64 \<or> v1 = 64 \<or> v2 = 64 \<and> (v3 \<noteq> 64 \<or> v1 mod 16 \<noteq> 0) \<or> v3 = 64 \<and> v2 mod 4 \<noteq> 0 then None
      else Some (take (if v2 = 64 then 1 else if v3 = 64 then 2 else 3)
        [of_nat (v0 * 4 + v1 div 16), of_nat (v1 * 16 + v2 mod 64 div 4), of_nat (v2 mod 64 * 64 + v3 mod 64)]))"

definition at_group :: "base64_decode_ctx \<Rightarrow> bool" where
  "at_group ctx = (ctx_length ctx < 0 \<and> ctx_digits ctx = 0 \<and> \<not> ctx_seen_end ctx \<and> length (ctx_val ctx) = 4)"

definition put :: "byte list \<Rightarrow> base64_decode_ctx \<Rightarrow> nat \<times> byte list" where
  "put bs ctx = (ctx_dst ctx + length bs,
     take (ctx_dst ctx) (ctx_result ctx) @ bs @ drop (ctx_dst ctx + length bs) (ctx_result ctx))"

lemma and_low_nat: "v AND 0xf = v mod 16" "v AND 0x3 = v mod 4" for v :: nat
proof -
  have "(0xf :: nat) = mask 4" "(0x3 :: nat) = mask 2" by (simp_all add: mask_eq_exp_minus_1)
  then show "v AND 0xf = v mod 16" "v AND 0x3 = v mod 4" by (simp_all only: take_bit_eq_mask [symmetric] take_bit_eq_mod) simp_all
qed

lemma group_or:
  fixes v0 :: nat
  assumes "v1 < 64" "v2 < 64" "v3 < 64"
  shows "push_bit 2 v0 OR drop_bit 4 v1 = v0 * 4 + v1 div 16" "push_bit 4 v1 OR drop_bit 2 v2 = v1 * 16 + v2 div 4"
    "push_bit 6 v2 OR v3 = v2 * 64 + v3"
  using or_plus_nat [of "v1 div 16" 2 v0] or_plus_nat [of "v2 div 4" 4 v1] or_plus_nat [of v3 6 v2] assms
  by (simp_all add: drop_bit_eq_div)

text \<open>At a group, the four digits either are refused or append the bytes of the group.\<close>

lemma decode_group_eq:
  assumes "at_group ctx" "v0 < 65" "v1 < 65" "v2 < 65" "v3 < 65"
  shows "decode_group (ctx\<lparr>ctx_val := [v0, v1, v2, v3], ctx_digits := 4\<rparr>) =
    (case group_bytes v0 v1 v2 v3 of
       None \<Rightarrow> None
     | Some bs \<Rightarrow>
         if length (ctx_result ctx) \<le> ctx_dst ctx + length bs then None
         else Some (ctx\<lparr>ctx_val := [v0, v1, v2, v3], ctx_seen_end := (length bs \<noteq> 3),
           ctx_dst := fst (put bs ctx), ctx_result := snd (put bs ctx)\<rparr>))"
proof (cases "group_bytes v0 v1 v2 v3")
  case None
  then show ?thesis
    by (auto simp: decode_group_def group_bytes_def and_low_nat Let_def split: if_splits)
next
  case (Some bs)
  then have v: "v0 < 64" "v1 < 64" "v2 = 64 \<Longrightarrow> v3 = 64 \<and> v1 mod 16 = 0" "v3 = 64 \<Longrightarrow> v2 mod 4 = 0"
    and bs: "bs = take (if v2 = 64 then 1 else if v3 = 64 then 2 else 3)
        [of_nat (v0 * 4 + v1 div 16), of_nat (v1 * 16 + v2 mod 64 div 4), of_nat (v2 mod 64 * 64 + v3 mod 64)]"
    using assms by (auto simp: group_bytes_def split: if_splits)
  have w: "v2 \<noteq> 64 \<Longrightarrow> v2 mod 64 = v2" "v3 \<noteq> 64 \<Longrightarrow> v3 mod 64 = v3" using assms(4,5) by auto
  have o: "push_bit 2 v0 OR drop_bit 4 v1 = v0 * 4 + v1 div 16"
    "v2 \<noteq> 64 \<Longrightarrow> push_bit 4 v1 OR drop_bit 2 v2 = v1 * 16 + v2 div 4"
    "v2 \<noteq> 64 \<Longrightarrow> v3 \<noteq> 64 \<Longrightarrow> push_bit 6 v2 OR v3 = v2 * 64 + v3"
    using group_or(1) [OF v(2), of 0 0] group_or(2) [OF v(2), of v2 0] group_or(3) [of 0 v2 v3] assms(4,5)
    by (auto simp: push_bit_eq_mult)
  have s: "ctx_seen_end ctx = False" "ctx_length ctx < 0" "ctx_digits ctx = 0" using assms(1) by (auto simp: at_group_def)
  show ?thesis
    using v s unfolding Some option.case
    by (auto simp: decode_group_def bs Let_def and_low_nat o w put_def mem_tobuffer_def intro!: base64_decode_ctx.equality)
qed

lemma decode_quad:
  assumes "at_group ctx" "v0 < 65" "v1 < 65" "v2 < 65" "v3 < 65"
  shows "decode_loop ctx (map b64_digit [v0, v1, v2, v3] @ cs) =
    do { ctx \<leftarrow> decode_group (ctx\<lparr>ctx_val := [v0, v1, v2, v3], ctx_digits := 4\<rparr>); decode_loop ctx cs }"
proof -
  obtain a b c d where v: "ctx_val ctx = [a, b, c, d]"
    using assms(1) by (auto simp: at_group_def length_Suc_conv numeral_eq_Suc)
  then show ?thesis
    using assms digit_index by (simp add: base64_decode_char_def at_group_def numeral_eq_Suc)
qed

text \<open>After the last group with padding nothing else is accepted.\<close>

lemma decode_after_end:
  assumes "ctx_seen_end ctx" "\<forall>c \<in> set cs. \<not> b64_space c"
  shows "decode_loop ctx cs = (if cs = [] then Some ctx else None)"
  using assms by (cases cs) (simp_all add: base64_decode_char_def)

definition decoded :: "base64_decode_ctx \<Rightarrow> byte list \<Rightarrow> (nat \<times> byte list) option" where
  "decoded ctx cs = do {
     ctx \<leftarrow> decode_loop ctx cs;
     if base64_decode_finish ctx then Some (ctx_dst ctx, ctx_result ctx) else None }"

text \<open>The step from one group to the next.\<close>

definition next_group :: "byte list \<Rightarrow> nat list \<Rightarrow> base64_decode_ctx \<Rightarrow> base64_decode_ctx" where
  "next_group bs v ctx = ctx\<lparr>ctx_val := v, ctx_seen_end := False, ctx_dst := fst (put bs ctx), ctx_result := snd (put bs ctx)\<rparr>"

lemma decoded_quad:
  assumes "at_group ctx" "v0 < 65" "v1 < 65" "v2 < 65" "v3 < 65" "\<forall>c \<in> set cs. \<not> b64_space c"
  shows "decoded ctx (map b64_digit [v0, v1, v2, v3] @ cs) =
    (case group_bytes v0 v1 v2 v3 of
       None \<Rightarrow> None
     | Some bs \<Rightarrow>
         if length (ctx_result ctx) \<le> ctx_dst ctx + length bs then None
         else if length bs = 3 then decoded (next_group bs [v0, v1, v2, v3] ctx) cs
         else if cs = [] then Some (put bs ctx) else None)"
proof (cases "group_bytes v0 v1 v2 v3")
  case None
  then show ?thesis by (simp only: decoded_def decode_quad [OF assms(1-5)] decode_group_eq [OF assms(1-5)]) simp
next
  case (Some bs)
  let ?c = "ctx\<lparr>ctx_val := [v0, v1, v2, v3], ctx_seen_end := (length bs \<noteq> 3), ctx_dst := fst (put bs ctx), ctx_result := snd (put bs ctx)\<rparr>"
  have "ctx_digits ctx = 0" "ctx_length ctx < 0" "\<not> ctx_seen_end ctx" using assms(1) by (auto simp: at_group_def)
  then show ?thesis
    unfolding decoded_def decode_quad [OF assms(1-5)] decode_group_eq [OF assms(1-5)] Some
    using decode_after_end [OF _ assms(6), of ?c]
    by (auto simp: next_group_def base64_decode_finish_def)
qed

lemma next_group_props:
  assumes "at_group ctx" "length v = 4" "ctx_dst ctx + length bs < length (ctx_result ctx)"
  shows "at_group (next_group bs v ctx)" "ctx_dst (next_group bs v ctx) = ctx_dst ctx + length bs"
    "length (ctx_result (next_group bs v ctx)) = length (ctx_result ctx)" "put cs (next_group bs v ctx) = put (bs @ cs) ctx"
  using assms by (auto simp: at_group_def next_group_def put_def add_ac)

lemma unat_byte: "unat (a :: byte) < 256"
  using unsigned_less [of a] by simp

text \<open>The groups of an encoding give the encoded bytes back.\<close>

lemma byte_of_nat:
  "of_nat (unat a) = (a :: byte)" "of_nat (k * 256 + unat a) = (a :: byte)"
proof -
  have "(256 :: byte) = 0" by code_simp
  then show "of_nat (k * 256 + unat a) = a" by (simp only: of_nat_add of_nat_mult of_nat_numeral) simp
qed simp

lemma group_arith:
  fixes a b c :: nat
  assumes "a < 256" "b < 256" "c < 256"
  shows "a div 4 * 4 + (a mod 4 * 16 + b div 16) div 16 = a"
    "(a mod 4 * 16 + b div 16) * 16 + (b mod 16 * 4 + c div 64) div 4 = a mod 4 * 256 + b"
    "(b mod 16 * 4 + c div 64) * 64 + c mod 64 = b mod 16 * 256 + c"
    "b mod 16 * 4 + c div 64 < 64" "a mod 4 * 16 + b div 16 < 64" "a div 4 < 64"
proof -
  have b: "b div 16 < 16" and c: "c div 64 < 4" and a: "a mod 4 < 4" and b': "b mod 16 < 16"
    using assms(2,3) by (simp_all add: div_less_iff_less_mult)
  have d: "(a mod 4 * 16 + b div 16) div 16 = a mod 4" "(b mod 16 * 4 + c div 64) div 4 = b mod 16"
    using b c by (simp_all add: div_add1_eq)
  show "a div 4 * 4 + (a mod 4 * 16 + b div 16) div 16 = a" unfolding d by (rule div_mult_mod_eq)
  show "(a mod 4 * 16 + b div 16) * 16 + (b mod 16 * 4 + c div 64) div 4 = a mod 4 * 256 + b"
    unfolding d by (simp add: add_mult_distrib add.assoc)
  show "(b mod 16 * 4 + c div 64) * 64 + c mod 64 = b mod 16 * 256 + c" by (simp add: add_mult_distrib add.assoc)
  show "b mod 16 * 4 + c div 64 < 64" "a mod 4 * 16 + b div 16 < 64" "a div 4 < 64" using assms(1) a b b' c by linarith+
qed

lemma group_bytes_encode:
  "group_bytes (unat a div 4) (unat a mod 4 * 16) 64 64 = Some [a]"
  "group_bytes (unat a div 4) (unat a mod 4 * 16 + unat b div 16) (unat b mod 16 * 4) 64 = Some [a, b]"
  "group_bytes (unat a div 4) (unat a mod 4 * 16 + unat b div 16) (unat b mod 16 * 4 + unat c div 64) (unat c mod 64) = Some [a, b, c]"
proof -
  note g = group_arith [OF unat_byte [of a] unat_byte [of b] unat_byte [of c]]
  have g0: "unat a div 4 * 4 + unat a mod 4 = unat a"
    "(unat a mod 4 * 16 + unat b div 16) * 16 + unat b mod 16 = unat a mod 4 * 256 + unat b"
    using group_arith(2) [OF unat_byte [of a] unat_byte [of b], of 0] by simp_all
  have e: "of_nat (unat a div 4 * 4 + unat a mod 4) = a"
    "of_nat (unat a div 4 * 4 + (unat a mod 4 * 16 + unat b div 16) div 16) = a"
    "of_nat ((unat a mod 4 * 16 + unat b div 16) * 16 + (unat b mod 16 * 4 + unat c div 64) div 4) = b"
    "of_nat ((unat a mod 4 * 16 + unat b div 16) * 16 + unat b mod 16) = b"
    "of_nat ((unat b mod 16 * 4 + unat c div 64) * 64 + unat c mod 64) = c"
    unfolding g g0 by (simp_all only: byte_of_nat)
  have lt: "unat a mod 4 * 16 < 64" "unat b mod 16 * 4 < 64" "unat c mod 64 < 64" by simp_all
  show "group_bytes (unat a div 4) (unat a mod 4 * 16) 64 64 = Some [a]"
    using g(6) lt e(1) by (simp add: group_bytes_def del: of_nat_add of_nat_mult)
  show "group_bytes (unat a div 4) (unat a mod 4 * 16 + unat b div 16) (unat b mod 16 * 4) 64 = Some [a, b]"
    using g(5,6) lt e(2,4) by (simp add: group_bytes_def del: of_nat_add of_nat_mult)
  show "group_bytes (unat a div 4) (unat a mod 4 * 16 + unat b div 16) (unat b mod 16 * 4 + unat c div 64) (unat c mod 64) = Some [a, b, c]"
    using g(4-6) lt e(2,3,5) by (simp add: group_bytes_def del: of_nat_add of_nat_mult)
qed

lemma digit_bounds:
  fixes a b c :: byte
  shows "unat a div 4 < 65" "unat a mod 4 * 16 < 65" "unat a mod 4 * 16 + unat b div 16 < 65" "unat b mod 16 * 4 < 65"
    "unat b mod 16 * 4 + unat c div 64 < 65" "unat c mod 64 < 65"
  using group_arith(4-6) [OF unat_byte [of a] unat_byte [of b] unat_byte [of c]] by simp_all

lemma encode_no_space: "c \<in> set (b64_encode bs) \<Longrightarrow> \<not> b64_space c"
  by (induction bs rule: b64_encode.induct) (auto simp: digit_index(2) digit_bounds)

lemma decoded_encode:
  assumes "at_group ctx"
  shows "decoded ctx (b64_encode bs) =
    (if bs = [] \<or> ctx_dst ctx + length bs < length (ctx_result ctx) then Some (put bs ctx) else None)"
  using assms
proof (induction bs arbitrary: ctx rule: b64_encode.induct)
  case 1
  then show ?case by (simp add: decoded_def put_def base64_decode_finish_def at_group_def)
next
  case (2 a)
  then show ?case
    using decoded_quad [of ctx "unat a div 4" "unat a mod 4 * 16" 64 64 "[]"] by (simp add: digit_bounds group_bytes_encode(1) not_less)
next
  case (3 a b)
  then show ?case
    using decoded_quad [of ctx "unat a div 4" "unat a mod 4 * 16 + unat b div 16" "unat b mod 16 * 4" 64 "[]"]
    by (simp add: digit_bounds group_bytes_encode(2) not_less)
next
  case (4 a b c bs)
  let ?v0 = "unat a div 4" and ?v1 = "unat a mod 4 * 16 + unat b div 16" and ?v2 = "unat b mod 16 * 4 + unat c div 64" and ?v3 = "unat c mod 64"
  let ?ctx = "next_group [a, b, c] [?v0, ?v1, ?v2, ?v3] ctx"
  have ns: "\<forall>c \<in> set (b64_encode bs). \<not> b64_space c" using encode_no_space by blast
  have q: "decoded ctx (b64_encode (a # b # c # bs)) =
      (if length (ctx_result ctx) \<le> ctx_dst ctx + 3 then None else decoded ?ctx (b64_encode bs))"
    using decoded_quad [OF 4(2) digit_bounds(1) [of a] digit_bounds(3) [of a b] digit_bounds(5) [of b c] digit_bounds(6) [of c] ns]
    unfolding group_bytes_encode(3) by simp
  show ?case
  proof (cases "ctx_dst ctx + 3 < length (ctx_result ctx)")
    case True
    then have l: "ctx_dst ctx + length [a, b, c] < length (ctx_result ctx)" by simp
    have "length [?v0, ?v1, ?v2, ?v3] = 4" by simp
    note n = next_group_props [OF 4(2) this l]
    show ?thesis unfolding q 4(1) [OF n(1)] n(2-4) using True by simp
  next
    case False
    then show ?thesis using q by simp
  qed
qed

text \<open>And only encodings are accepted.\<close>

lemma unat_of_nat_byte:
  assumes "b < 256"
  shows "unat (of_nat (k * 256 + b) :: byte) = b" "unat (of_nat b :: byte) = b"
  using assms by (simp_all only: unat_of_nat) simp_all

lemma group_inverse:
  assumes "v0 < 64" "v1 < 64" "v2 < 64" "v3 < 64"
  defines "a \<equiv> unat (of_nat (v0 * 4 + v1 div 16) :: byte)" and "b \<equiv> unat (of_nat (v1 * 16 + v2 div 4) :: byte)"
    and "c \<equiv> unat (of_nat (v2 * 64 + v3) :: byte)"
  shows "a div 4 = v0" "a mod 4 = v1 div 16" "b div 16 = v1 mod 16" "b mod 16 = v2 div 4" "c div 64 = v2 mod 4" "c mod 64 = v3"
proof -
  have d: "v1 div 16 < 4" "v2 div 4 < 16" using assms(2,3) by (simp_all add: div_less_iff_less_mult)
  have m: "v1 mod 16 < 16" "v2 mod 4 < 4" by simp_all
  have a: "a = v0 * 4 + v1 div 16" unfolding a_def using assms(1) d(1) by (intro unat_of_nat_byte(2)) linarith
  have "v1 * 16 + v2 div 4 = v1 div 16 * 256 + (v1 mod 16 * 16 + v2 div 4)"
    by presburger
  then have b: "b = v1 mod 16 * 16 + v2 div 4"
    unfolding b_def using m(1) d(2) by (simp only:) (rule unat_of_nat_byte(1), linarith)
  have "v2 * 64 + v3 = v2 div 4 * 256 + (v2 mod 4 * 64 + v3)"
    by presburger
  then have c: "c = v2 mod 4 * 64 + v3"
    unfolding c_def using m(2) assms(4) by (simp only:) (rule unat_of_nat_byte(1), linarith)
  show "a div 4 = v0" "a mod 4 = v1 div 16" using d(1) by (simp_all add: a div_add1_eq)
  show "b div 16 = v1 mod 16" "b mod 16 = v2 div 4" using d(2) by (simp_all add: b div_add1_eq)
  show "c div 64 = v2 mod 4" "c mod 64 = v3" using assms(4) by (simp_all add: c div_add1_eq)
qed

lemma group_bytes_inverse:
  assumes "group_bytes v0 v1 v2 v3 = Some bs" "v0 < 65" "v1 < 65" "v2 < 65" "v3 < 65"
  shows "length bs \<noteq> 3 \<Longrightarrow> b64_encode bs = map b64_digit [v0, v1, v2, v3]"
    "length bs = 3 \<Longrightarrow> b64_encode (bs @ cs) = map b64_digit [v0, v1, v2, v3] @ b64_encode cs"
proof -
  have v: "v0 < 64" "v1 < 64" "v2 mod 64 < 64" "v3 mod 64 < 64" using assms by (auto simp: group_bytes_def split: if_splits)
  note g = group_inverse [OF v]
  consider "v2 = 64" "v3 = 64" "v1 mod 16 = 0" | "v2 < 64" "v3 = 64" "v2 mod 4 = 0" | "v2 < 64" "v3 < 64"
    using assms by (force simp: group_bytes_def split: if_splits)
  note cs = this
  show "length bs \<noteq> 3 \<Longrightarrow> b64_encode bs = map b64_digit [v0, v1, v2, v3]"
    using assms(1) v(1,2) g by (cases rule: cs) (auto simp: group_bytes_def simp del: of_nat_add of_nat_mult)
  show "length bs = 3 \<Longrightarrow> b64_encode (bs @ cs) = map b64_digit [v0, v1, v2, v3] @ b64_encode cs"
    using assms(1) v(1,2) g by (cases rule: cs) (auto simp: group_bytes_def simp del: of_nat_add of_nat_mult)
qed

lemma decoded_first_group:
  assumes "at_group ctx" "decoded ctx cs \<noteq> None" "\<forall>c \<in> set cs. \<not> b64_space c" "cs \<noteq> []"
  obtains v0 v1 v2 v3 cs' where "cs = map b64_digit [v0, v1, v2, v3] @ cs'" "v0 < 65" "v1 < 65" "v2 < 65" "v3 < 65"
proof -
  obtain c0 cs1 where c0: "cs = c0 # cs1" using assms(4) by (cases cs) auto
  have "cs1 \<noteq> []" "cs1 \<noteq> [x]" "cs1 \<noteq> [x, y]" for x y
    using assms(1-3) unfolding c0
    by (auto simp: decoded_def base64_decode_char_def at_group_def base64_decode_finish_def bind_eq_Some_conv)
  then obtain c1 c2 c3 cs' where cs: "cs = c0 # c1 # c2 # c3 # cs'"
    unfolding c0 by (metis list.exhaust)
  have "\<exists>v. strchr_index base64 c = Some v" if "c \<in> {c0, c1, c2, c3}" for c
    using that assms(1-3) unfolding cs
    by (auto simp: decoded_def base64_decode_char_def at_group_def base64_decode_finish_def bind_eq_Some_conv)
  then obtain v0 v1 v2 v3 where "c0 = b64_digit v0" "c1 = b64_digit v1" "c2 = b64_digit v2" "c3 = b64_digit v3"
    "v0 < 65" "v1 < 65" "v2 < 65" "v3 < 65" using index_digit by (meson insertCI)
  then show ?thesis using that [of v0 v1 v2 v3 cs'] cs by simp
qed

lemma decoded_only_encodings:
  assumes "at_group ctx" "decoded ctx cs \<noteq> None" "\<forall>c \<in> set cs. \<not> b64_space c"
  shows "\<exists>bs. cs = b64_encode bs"
  using assms
proof (induction "length cs" arbitrary: ctx cs rule: less_induct)
  case less
  show ?case
  proof (cases "cs = []")
    case True
    then show ?thesis by (intro exI [of _ "[]"]) simp
  next
    case False
    then obtain v0 v1 v2 v3 cs' where c: "cs = map b64_digit [v0, v1, v2, v3] @ cs'" and v: "v0 < 65" "v1 < 65" "v2 < 65" "v3 < 65"
      using decoded_first_group [OF less.prems] by blast
    have ns: "\<forall>c \<in> set cs'. \<not> b64_space c" using less.prems(3) by (simp add: c)
    note q = decoded_quad [OF less.prems(1) v ns, folded c]
    obtain bs where bs: "group_bytes v0 v1 v2 v3 = Some bs" "ctx_dst ctx + length bs < length (ctx_result ctx)"
      "length bs = 3 \<Longrightarrow> decoded (next_group bs [v0, v1, v2, v3] ctx) cs' \<noteq> None" "length bs \<noteq> 3 \<Longrightarrow> cs' = []"
      using less.prems(2) unfolding q by (auto split: option.splits if_splits)
    note inv = group_bytes_inverse [OF bs(1) v]
    show ?thesis
    proof (cases "length bs = 3")
      case True
      have "at_group (next_group bs [v0, v1, v2, v3] ctx)" using less.prems(1) bs(2) by (intro next_group_props(1)) simp_all
      then obtain bs' where "cs' = b64_encode bs'" using less.hyps [of cs'] bs(3) [OF True] ns by (auto simp: c)
      then show ?thesis using inv(2) [OF True, of bs'] c by metis
    next
      case False
      then show ?thesis using inv(1) bs(4) c by (intro exI [of _ bs]) simp
    qed
  qed
qed

text \<open>C18. \<open>base64_decodestring\<close> is exact.  It accepts, white space aside, precisely the canonical encodings
  of byte strings that leave at least one byte of the buffer unused, and gives the encoded bytes back;
  nothing behind them in the buffer changes.  A string of any other form, with stray bits under the
  padding or text behind it, is refused.\<close>

theorem base64_decodestring_exact:
  "(\<forall>bs. filter (\<lambda>c. \<not> b64_space c) cstr = b64_encode bs \<longrightarrow>
     base64_decodestring cstr result =
       (if bs = [] \<or> length bs < length result then Some (length bs, bs @ drop (length bs) result) else None))
   \<and> ((\<nexists>bs. filter (\<lambda>c. \<not> b64_space c) cstr = b64_encode bs) \<longrightarrow> base64_decodestring cstr result = None)"
proof -
  let ?ctx = "base64_decode_init (-1) result" and ?cs = "filter (\<lambda>c. \<not> b64_space c) cstr"
  have g: "at_group ?ctx" by (simp add: at_group_def base64_decode_init_def)
  have d: "base64_decodestring cstr result = decoded ?ctx ?cs"
    unfolding base64_decodestring_def decoded_def by (subst decode_loop_filter) simp
  have "decoded ?ctx (b64_encode bs) = (if bs = [] \<or> length bs < length result then Some (length bs, bs @ drop (length bs) result) else None)" for bs
    unfolding decoded_encode [OF g] by (auto simp: base64_decode_init_def put_def)
  moreover have "\<exists>bs. ?cs = b64_encode bs" if "decoded ?ctx ?cs \<noteq> None"
    using decoded_only_encodings [OF g that] by auto
  ultimately show ?thesis unfolding d by metis
qed

theorem base64_decodestring_exact_witness:
  "base64_decodestring [90, 10, 103, 61, 61] [1, 2, 3] = Some (1, [102, 2, 3])"
proof -
  have "filter (\<lambda>c. \<not> b64_space c) [90, 10, 103, 61, 61] = b64_encode [102]"
    by (simp add: b64_space_def b64_digit_def base64_def)
  then show ?thesis using base64_decodestring_exact [of "[90, 10, 103, 61, 61]" "[1, 2, 3]"] by fastforce
qed

end
