(* ===== verification/Dhcp6Md5.thy ===== *)
theory Dhcp6Md5
  imports Prelude
begin

text \<open>
  The MD5 digest of \<^verbatim>\<open>src/apps/dhcp6/auth.c\<close>: the block transformation, the incremental interface and
  its equivalence with the digest of the whole message.

  The array \<open>in\<close> of sixteen words is kept as its 64 bytes, since the code fills it bytewise; words are
  stored little endian.  \<^term>\<open>None\<close> is an access outside the array.
\<close>

section \<open>The code\<close>

record md5_t =
  md5_buf :: "u32 list"
  md5_bytes0 :: u32
  md5_bytes1 :: u32
  md5_in :: "byte list"

definition md5_init :: "md5_t \<Rightarrow> md5_t" where
  "md5_init ctx = ctx\<lparr>md5_buf := [0x67452301, 0xefcdab89, 0x98badcfe, 0x10325476], md5_bytes0 := 0, md5_bytes1 := 0\<rparr>"

definition md5_invalidate :: "md5_t \<Rightarrow> md5_t" where
  "md5_invalidate ctx = \<lparr>md5_buf = replicate 4 0, md5_bytes0 = 0, md5_bytes1 = 0, md5_in = replicate 64 0\<rparr>"

text \<open>Reads each word byte by byte and stores it in the order of the machine.\<close>

definition byteSwap :: "nat \<Rightarrow> byte list \<Rightarrow> byte list" where
  "byteSwap words m =
     concat (map (\<lambda>i. put32 (push_bit 16 (push_bit 8 (ucast (m ! (4 * i + 3))) OR ucast (m ! (4 * i + 2)))
       OR (push_bit 8 (ucast (m ! (4 * i + 1))) OR ucast (m ! (4 * i))))) [0..<words]) @ drop (4 * words) m"

definition F1 :: "u32 \<Rightarrow> u32 \<Rightarrow> u32 \<Rightarrow> u32" where "F1 x y z = z XOR (x AND (y XOR z))"
definition F2 :: "u32 \<Rightarrow> u32 \<Rightarrow> u32 \<Rightarrow> u32" where "F2 x y z = F1 z x y"
definition F3 :: "u32 \<Rightarrow> u32 \<Rightarrow> u32 \<Rightarrow> u32" where "F3 x y z = x XOR y XOR z"
definition F4 :: "u32 \<Rightarrow> u32 \<Rightarrow> u32 \<Rightarrow> u32" where "F4 x y z = y XOR (x OR NOT z)"

definition MD5STEP :: "(u32 \<Rightarrow> u32 \<Rightarrow> u32 \<Rightarrow> u32) \<Rightarrow> u32 \<Rightarrow> u32 \<Rightarrow> u32 \<Rightarrow> u32 \<Rightarrow> u32 \<Rightarrow> nat \<Rightarrow> u32" where
  "MD5STEP f w x y z inp s =
     (let w = w + (f x y z + inp) in (push_bit s w OR drop_bit (32 - s) w) + x)"

text \<open>
  The 64 lines of \<open>transform\<close>: function, index of the input word, constant and shift.  The registers
  take the roles \<open>(a, b, c, d)\<close>, \<open>(d, a, b, c)\<close>, \<open>(c, d, a, b)\<close>, \<open>(b, c, d, a)\<close> in turn.
\<close>

definition md5_lines :: "((u32 \<Rightarrow> u32 \<Rightarrow> u32 \<Rightarrow> u32) \<times> nat \<times> u32 \<times> nat) list" where
  "md5_lines = [
      (F1, 0, 0xd76aa478, 7), (F1, 1, 0xe8c7b756, 12), (F1, 2, 0x242070db, 17), (F1, 3, 0xc1bdceee, 22),
      (F1, 4, 0xf57c0faf, 7), (F1, 5, 0x4787c62a, 12), (F1, 6, 0xa8304613, 17), (F1, 7, 0xfd469501, 22),
      (F1, 8, 0x698098d8, 7), (F1, 9, 0x8b44f7af, 12), (F1, 10, 0xffff5bb1, 17), (F1, 11, 0x895cd7be, 22),
      (F1, 12, 0x6b901122, 7), (F1, 13, 0xfd987193, 12), (F1, 14, 0xa679438e, 17), (F1, 15, 0x49b40821, 22),
      (F2, 1, 0xf61e2562, 5), (F2, 6, 0xc040b340, 9), (F2, 11, 0x265e5a51, 14), (F2, 0, 0xe9b6c7aa, 20),
      (F2, 5, 0xd62f105d, 5), (F2, 10, 0x02441453, 9), (F2, 15, 0xd8a1e681, 14), (F2, 4, 0xe7d3fbc8, 20),
      (F2, 9, 0x21e1cde6, 5), (F2, 14, 0xc33707d6, 9), (F2, 3, 0xf4d50d87, 14), (F2, 8, 0x455a14ed, 20),
      (F2, 13, 0xa9e3e905, 5), (F2, 2, 0xfcefa3f8, 9), (F2, 7, 0x676f02d9, 14), (F2, 12, 0x8d2a4c8a, 20),
      (F3, 5, 0xfffa3942, 4), (F3, 8, 0x8771f681, 11), (F3, 11, 0x6d9d6122, 16), (F3, 14, 0xfde5380c, 23),
      (F3, 1, 0xa4beea44, 4), (F3, 4, 0x4bdecfa9, 11), (F3, 7, 0xf6bb4b60, 16), (F3, 10, 0xbebfbc70, 23),
      (F3, 13, 0x289b7ec6, 4), (F3, 0, 0xeaa127fa, 11), (F3, 3, 0xd4ef3085, 16), (F3, 6, 0x04881d05, 23),
      (F3, 9, 0xd9d4d039, 4), (F3, 12, 0xe6db99e5, 11), (F3, 15, 0x1fa27cf8, 16), (F3, 2, 0xc4ac5665, 23),
      (F4, 0, 0xf4292244, 6), (F4, 7, 0x432aff97, 10), (F4, 14, 0xab9423a7, 15), (F4, 5, 0xfc93a039, 21),
      (F4, 12, 0x655b59c3, 6), (F4, 3, 0x8f0ccc92, 10), (F4, 10, 0xffeff47d, 15), (F4, 1, 0x85845dd1, 21),
      (F4, 8, 0x6fa87e4f, 6), (F4, 15, 0xfe2ce6e0, 10), (F4, 6, 0xa3014314, 15), (F4, 13, 0x4e0811a1, 21),
      (F4, 4, 0xf7537e82, 6), (F4, 11, 0xbd3af235, 10), (F4, 2, 0x2ad7d2bb, 15), (F4, 9, 0xeb86d391, 21)]"

fun md5_line :: "u32 list \<Rightarrow> u32 \<times> u32 \<times> u32 \<times> u32 \<Rightarrow> (u32 \<Rightarrow> u32 \<Rightarrow> u32 \<Rightarrow> u32) \<times> nat \<times> u32 \<times> nat \<Rightarrow>
    u32 \<times> u32 \<times> u32 \<times> u32" where
  "md5_line inp (w, x, y, z) (f, k, t, s) = (z, MD5STEP f w x y z (inp ! k + t) s, x, y)"

definition transform :: "u32 list \<Rightarrow> u32 list \<Rightarrow> u32 list" where
  "transform buf inp =
     (let (a, b, c, d) = foldl (md5_line inp) (buf ! 0, buf ! 1, buf ! 2, buf ! 3) md5_lines
      in [buf ! 0 + a, buf ! 1 + b, buf ! 2 + c, buf ! 3 + d])"

definition words_of :: "byte list \<Rightarrow> u32 list" where
  "words_of m = map (\<lambda>i. get32 m (4 * i)) [0..<16]"

text \<open>\<open>byteSwap(ctx->in, 16); transform(ctx->buf, ctx->in)\<close>.\<close>

definition md5_block :: "md5_t \<Rightarrow> md5_t" where
  "md5_block ctx = (let m = byteSwap 16 (md5_in ctx) in ctx\<lparr>md5_in := m, md5_buf := transform (md5_buf ctx) (words_of m)\<rparr>)"

function md5_chunks :: "md5_t \<Rightarrow> byte list \<Rightarrow> (md5_t \<times> byte list) option" where
  "md5_chunks ctx buf =
     (if 64 \<le> length buf then do {
        m \<leftarrow> mem_write (md5_in ctx) 0 (take 64 buf);
        md5_chunks (md5_block (ctx\<lparr>md5_in := m\<rparr>)) (drop 64 buf) }
      else Some (ctx, buf))"
  by auto
termination by (relation "measure (\<lambda>(ctx, buf). length buf)") auto

declare md5_chunks.simps [simp del]

definition md5_update :: "md5_t \<Rightarrow> byte list \<Rightarrow> md5_t option" where
  "md5_update ctx buf =
     (let len = of_nat (length buf); t = md5_bytes0 ctx;
          ctx = ctx\<lparr>md5_bytes0 := t + len\<rparr>;
          ctx = (if md5_bytes0 ctx < t then ctx\<lparr>md5_bytes1 := md5_bytes1 ctx + 1\<rparr> else ctx);
          t = 64 - (t AND 0x3f)
      in if len < t then do {
           m \<leftarrow> mem_write (md5_in ctx) (64 - unat t) buf;
           Some (ctx\<lparr>md5_in := m\<rparr>) }
         else do {
           m \<leftarrow> mem_write (md5_in ctx) (64 - unat t) (take (unat t) buf);
           (ctx, buf) \<leftarrow> md5_chunks (md5_block (ctx\<lparr>md5_in := m\<rparr>)) (drop (unat t) buf);
           m \<leftarrow> mem_write (md5_in ctx) 0 buf;
           Some (ctx\<lparr>md5_in := m\<rparr>) })"

definition md5_final :: "md5_t \<Rightarrow> (byte list \<times> md5_t) option" where
  "md5_final ctx = do {
     let count = int (unat (md5_bytes0 ctx AND 0x3f));
     let p = nat count;
     m \<leftarrow> mem_write (md5_in ctx) p [0x80];
     let p = p + 1;
     let count = 56 - 1 - count;
     (ctx, p, count) \<leftarrow> (if count < 0 then do {
         m \<leftarrow> mem_write m p (replicate (nat (count + 8)) 0);
         Some (md5_block (ctx\<lparr>md5_in := m\<rparr>), 0, 56) }
       else Some (ctx\<lparr>md5_in := m\<rparr>, p, count));
     m \<leftarrow> mem_write (md5_in ctx) p (replicate (nat count) 0);
     let m = byteSwap 14 m;
     m \<leftarrow> mem_write m 56 (put32 (push_bit 3 (md5_bytes0 ctx)));
     m \<leftarrow> mem_write m 60 (put32 (push_bit 3 (md5_bytes1 ctx) OR drop_bit 29 (md5_bytes0 ctx)));
     let buf = transform (md5_buf ctx) (words_of m);
     Some (byteSwap 4 (concat (map put32 buf)), md5_invalidate ctx) }"

section \<open>The digest of a message\<close>

text \<open>
  The block transformation as the standard states it: the message word, the shift and the round
  function of step \<open>i\<close> are given by formulas; the constants are those of the table.
\<close>

definition md5_K :: "u32 list" where
  "md5_K = [
      0xd76aa478, 0xe8c7b756, 0x242070db, 0xc1bdceee, 0xf57c0faf, 0x4787c62a, 0xa8304613, 0xfd469501,
      0x698098d8, 0x8b44f7af, 0xffff5bb1, 0x895cd7be, 0x6b901122, 0xfd987193, 0xa679438e, 0x49b40821,
      0xf61e2562, 0xc040b340, 0x265e5a51, 0xe9b6c7aa, 0xd62f105d, 0x02441453, 0xd8a1e681, 0xe7d3fbc8,
      0x21e1cde6, 0xc33707d6, 0xf4d50d87, 0x455a14ed, 0xa9e3e905, 0xfcefa3f8, 0x676f02d9, 0x8d2a4c8a,
      0xfffa3942, 0x8771f681, 0x6d9d6122, 0xfde5380c, 0xa4beea44, 0x4bdecfa9, 0xf6bb4b60, 0xbebfbc70,
      0x289b7ec6, 0xeaa127fa, 0xd4ef3085, 0x04881d05, 0xd9d4d039, 0xe6db99e5, 0x1fa27cf8, 0xc4ac5665,
      0xf4292244, 0x432aff97, 0xab9423a7, 0xfc93a039, 0x655b59c3, 0x8f0ccc92, 0xffeff47d, 0x85845dd1,
      0x6fa87e4f, 0xfe2ce6e0, 0xa3014314, 0x4e0811a1, 0xf7537e82, 0xbd3af235, 0x2ad7d2bb, 0xeb86d391]"

definition std_fun :: "nat \<Rightarrow> u32 \<Rightarrow> u32 \<Rightarrow> u32 \<Rightarrow> u32" where
  "std_fun i x y z =
     (if i < 16 then (x AND y) OR (NOT x AND z)
      else if i < 32 then (x AND z) OR (y AND NOT z)
      else if i < 48 then x XOR y XOR z
      else y XOR (x OR NOT z))"

definition std_word :: "nat \<Rightarrow> nat" where
  "std_word i =
     (if i < 16 then i else if i < 32 then (5 * i + 1) mod 16 else if i < 48 then (3 * i + 5) mod 16 else 7 * i mod 16)"

definition std_shift :: "nat \<Rightarrow> nat" where
  "std_shift i = [[7, 12, 17, 22], [5, 9, 14, 20], [4, 11, 16, 23], [6, 10, 15, 21]] ! (i div 16) ! (i mod 4)"

fun std_step :: "u32 list \<Rightarrow> u32 \<times> u32 \<times> u32 \<times> u32 \<Rightarrow> nat \<Rightarrow> u32 \<times> u32 \<times> u32 \<times> u32" where
  "std_step X (a, b, c, d) i =
     (d, b + word_rotl (std_shift i) (a + std_fun i b c d + X ! std_word i + md5_K ! i), b, c)"

definition std_block :: "u32 list \<Rightarrow> byte list \<Rightarrow> u32 list" where
  "std_block buf m =
     (let (a, b, c, d) = foldl (std_step (words_of m)) (buf ! 0, buf ! 1, buf ! 2, buf ! 3) [0..<64]
      in [buf ! 0 + a, buf ! 1 + b, buf ! 2 + c, buf ! 3 + d])"

function std_blocks :: "u32 list \<Rightarrow> byte list \<Rightarrow> u32 list" where
  "std_blocks buf m = (if 64 \<le> length m then std_blocks (std_block buf (take 64 m)) (drop 64 m) else buf)"
  by auto
termination by (relation "measure (\<lambda>(buf, m). length m)") auto

declare std_blocks.simps [simp del]

definition md5_pad :: "byte list \<Rightarrow> byte list" where
  "md5_pad msg = msg @ [0x80] @ replicate ((119 - length msg mod 64) mod 64) 0
     @ put32 (of_nat (8 * length msg)) @ put32 (of_nat (8 * length msg div 2 ^ 32))"

definition MD5 :: "byte list \<Rightarrow> byte list" where
  "MD5 msg = concat (map put32 (std_blocks [0x67452301, 0xefcdab89, 0x98badcfe, 0x10325476] (md5_pad msg)))"

section \<open>The block transformation\<close>

lemma put32_of_bytes:
  "put32 (push_bit 16 (push_bit 8 (ucast d) OR ucast c) OR (push_bit 8 (ucast b) OR ucast a)) = [a, b, c, d]"
proof -
  let ?w = "push_bit 16 (push_bit 8 (ucast d) OR ucast c) OR (push_bit 8 (ucast b) OR ucast a) :: u32"
  have "ucast ?w = a" "ucast (drop_bit 8 ?w) = b" "ucast (drop_bit 16 ?w) = c" "ucast (drop_bit 24 ?w) = d"
    by (rule bit_word_eqI, auto simp: bit_simps dest: bit_imp_le_length)+
  then show ?thesis by (simp add: put32_def)
qed

lemma byteSwap_id [simp]:
  assumes "4 * n \<le> length m"
  shows "byteSwap n m = m"
proof -
  have "concat (map (\<lambda>i. [m ! (4 * i), m ! (4 * i + 1), m ! (4 * i + 2), m ! (4 * i + 3)]) [0..<n]) = take (4 * n) m"
    using assms
  proof (induction n)
    case (Suc n)
    have "take (4 * Suc n) m = take (4 * n) m @ take 4 (drop (4 * n) m)" by (simp add: take_add [symmetric] add.commute)
    also have "take 4 (drop (4 * n) m) = [m ! (4 * n), m ! (4 * n + 1), m ! (4 * n + 2), m ! (4 * n + 3)]"
      using Suc.prems by (intro nth_equalityI) (auto simp: less_Suc_eq numeral_eq_Suc)
    finally show ?case using Suc by simp
  qed simp
  then show ?thesis unfolding byteSwap_def put32_of_bytes by simp
qed

lemma md5_functions:
  "i < 16 \<Longrightarrow> F1 = std_fun i" "16 \<le> i \<Longrightarrow> i < 32 \<Longrightarrow> F2 = std_fun i" "32 \<le> i \<Longrightarrow> i < 48 \<Longrightarrow> F3 = std_fun i" "48 \<le> i \<Longrightarrow> F4 = std_fun i"
  by (intro ext bit_word_eqI; auto simp: F1_def F2_def F3_def F4_def std_fun_def bit_simps)+

lemma rotate_left:
  fixes w :: u32
  assumes "0 < s" "s < 32"
  shows "push_bit s w OR drop_bit (32 - s) w = word_rotl s w"
proof (rule bit_word_eqI)
  fix n
  assume "n < LENGTH(32)"
  then have n: "n < 32" by simp
  have r: "bit (word_rotl s w) n = bit w ((n + (32 - s)) mod 32)" using n assms by (simp add: bit_word_rotl_iff)
  have l: "bit (push_bit s w OR drop_bit (32 - s) w) n = (s \<le> n \<and> bit w (n - s) \<or> bit w (n + (32 - s)))"
    using n by (simp add: bit_simps add.commute)
  show "bit (push_bit s w OR drop_bit (32 - s) w) n = bit (word_rotl s w) n"
  proof (cases "s \<le> n")
    case True
    then have "n + (32 - s) = (n - s) + 32" using assms by simp
    then have "(n + (32 - s)) mod 32 = (n - s) mod 32" "\<not> bit w (n + (32 - s))"
      by (simp_all only: mod_add_self2) (auto dest: bit_imp_le_length)
    moreover have "(n - s) mod 32 = n - s" using n by simp
    ultimately show ?thesis using True unfolding r l by simp
  next
    case False
    then show ?thesis using assms unfolding r l by simp
  qed
qed

definition code_fun :: "nat \<Rightarrow> u32 \<Rightarrow> u32 \<Rightarrow> u32 \<Rightarrow> u32" where
  "code_fun i = (if i < 16 then F1 else if i < 32 then F2 else if i < 48 then F3 else F4)"

lemma upt_64: "[0..<64] = [
      0, 1, 2, 3, 4, 5, 6, 7, 8, 9, 10, 11, 12, 13, 14, 15, 16, 17, 18, 19, 20, 21, 22, 23, 24, 25, 26, 27, 28, 29,
      30, 31, 32, 33, 34, 35, 36, 37, 38, 39, 40, 41, 42, 43, 44, 45, 46, 47, 48, 49, 50, 51, 52, 53, 54, 55, 56,
      57, 58, 59, 60, 61, 62, 63]"
  by code_simp

lemma md5_lines_eq: "md5_lines = map (\<lambda>i. (code_fun i, std_word i, md5_K ! i, std_shift i)) [0..<64]"
  unfolding upt_64 by (simp add: md5_lines_def code_fun_def std_word_def std_shift_def md5_K_def)

lemma code_fun_std: "code_fun i = std_fun i"
  using md5_functions [of i] by (auto simp: code_fun_def not_less)

lemma std_shift_bounds: "i < 64 \<Longrightarrow> 0 < std_shift i \<and> std_shift i < 32"
proof -
  have "\<forall>i \<in> set [0..<64]. 0 < std_shift i \<and> std_shift i < 32" by code_simp
  then show "i < 64 \<Longrightarrow> 0 < std_shift i \<and> std_shift i < 32" by auto
qed

lemma transform_std: "transform buf (words_of m) = std_block buf m"
proof -
  have step: "md5_line X q (code_fun i, std_word i, md5_K ! i, std_shift i) = std_step X q i" if "i < 64" for X q i
    using std_shift_bounds [OF that]
    by (cases q) (simp add: MD5STEP_def Let_def rotate_left code_fun_std add_ac)
  have "foldl (md5_line X) q (map (\<lambda>i. (code_fun i, std_word i, md5_K ! i, std_shift i)) is) = foldl (std_step X) q is"
    if "\<forall>i \<in> set is. i < 64" for X q "is"
    using that by (induction "is" arbitrary: q) (auto simp: step)
  from this [of "[0..<64]"] show ?thesis
    unfolding transform_def std_block_def md5_lines_eq by simp
qed

section \<open>Incremental digests\<close>

lemma std_blocks_short: "length m < 64 \<Longrightarrow> std_blocks buf m = buf"
  by (subst std_blocks.simps) simp

lemma std_blocks_append: "64 dvd length a \<Longrightarrow> std_blocks buf (a @ b) = std_blocks (std_blocks buf a) b"
proof (induction buf a rule: std_blocks.induct)
  case (1 buf a)
  show ?case
  proof (cases "64 \<le> length a")
    case True
    then have "64 dvd length (drop 64 a)" using 1(2) by (simp add: dvd_diff_nat)
    then show ?thesis using 1(1) [OF True] True
      by (subst std_blocks.simps, subst (2) std_blocks.simps) simp
  next
    case False
    then have "a = []" using 1(2) by (auto dest: dvd_imp_le)
    then show ?thesis by (simp add: std_blocks_short)
  qed
qed

lemma std_blocks_one: "length m = 64 \<Longrightarrow> std_blocks buf m = std_block buf m"
  by (subst std_blocks.simps) (simp add: std_blocks_short)

lemma md5_block_eq: "length (md5_in ctx) = 64 \<Longrightarrow> md5_block ctx = ctx\<lparr>md5_buf := std_block (md5_buf ctx) (md5_in ctx)\<rparr>"
  by (simp add: md5_block_def transform_std)

lemma md5_chunks_eq:
  assumes "length (md5_in ctx) = 64"
  obtains m a b where "buf = a @ b" "64 dvd length a" "length b < 64" "length m = 64"
    "md5_chunks ctx buf = Some (ctx\<lparr>md5_in := m, md5_buf := std_blocks (md5_buf ctx) a\<rparr>, b)"
proof -
  have "\<exists>m a b. buf = a @ b \<and> 64 dvd length a \<and> length b < 64 \<and> length m = 64 \<and>
      md5_chunks ctx buf = Some (ctx\<lparr>md5_in := m, md5_buf := std_blocks (md5_buf ctx) a\<rparr>, b)"
    using assms
  proof (induction "length buf" arbitrary: ctx buf rule: less_induct)
    case less
    show ?case
    proof (cases "64 \<le> length buf")
      case True
      let ?ctx = "md5_block (ctx\<lparr>md5_in := take 64 buf\<rparr>)"
      have t: "length (take 64 buf) = 64" using True by simp
      have ctx: "?ctx = ctx\<lparr>md5_in := take 64 buf, md5_buf := std_block (md5_buf ctx) (take 64 buf)\<rparr>"
        using t by (subst md5_block_eq) simp_all
      obtain m a b where m: "drop 64 buf = a @ b" "64 dvd length a" "length b < 64" "length m = 64"
        "md5_chunks ?ctx (drop 64 buf) = Some (?ctx\<lparr>md5_in := m, md5_buf := std_blocks (md5_buf ?ctx) a\<rparr>, b)"
      proof -
        have "length (drop 64 buf) < length buf" "length (md5_in ?ctx) = 64" using True t unfolding ctx by simp_all
        from less.hyps [OF this] show ?thesis using that by blast
      qed
      have "mem_write (md5_in ctx) 0 (take 64 buf) = Some (take 64 buf)" using less.prems t by (simp add: mem_write_def)
      then have "md5_chunks ctx buf = md5_chunks ?ctx (drop 64 buf)"
        using True by (subst md5_chunks.simps) simp
      then have "md5_chunks ctx buf = Some (ctx\<lparr>md5_in := m, md5_buf := std_blocks (md5_buf ctx) (take 64 buf @ a)\<rparr>, b)"
        using m(5) t unfolding ctx by (simp add: std_blocks_append std_blocks_one)
      moreover have "buf = (take 64 buf @ a) @ b" using m(1) by (metis append_assoc append_take_drop_id)
      moreover have "64 dvd length (take 64 buf @ a)" using t m(2) by simp
      ultimately show ?thesis using m(3,4) by blast
    next
      case False
      then have "md5_chunks ctx buf = Some (ctx, buf)" by (subst md5_chunks.simps) simp
      then show ?thesis using False less.prems
        by (intro exI [of _ "md5_in ctx"] exI [of _ "[]"] exI [of _ buf]) (simp add: std_blocks_short)
    qed
  qed
  then show ?thesis using that by blast
qed

definition md5_IV :: "u32 list" where "md5_IV = [0x67452301, 0xefcdab89, 0x98badcfe, 0x10325476]"

text \<open>The context after the bytes \<open>m1 @ m2\<close>, of which \<open>m2\<close> wait in the array.\<close>

definition md5_holds :: "md5_t \<Rightarrow> byte list \<Rightarrow> byte list \<Rightarrow> bool" where
  "md5_holds ctx m1 m2 = (64 dvd length m1 \<and> length m2 < 64 \<and> length (md5_in ctx) = 64
     \<and> md5_buf ctx = std_blocks md5_IV m1 \<and> take (length m2) (md5_in ctx) = m2
     \<and> md5_bytes0 ctx = of_nat (length (m1 @ m2)) \<and> md5_bytes1 ctx = of_nat (length (m1 @ m2) div 2 ^ 32))"

lemma and_63:
  assumes "64 dvd k" "r < 64"
  shows "unat ((of_nat (k + r) :: u32) AND 0x3f) = r"
proof -
  have "(of_nat (k + r) :: u32) AND 0x3f = take_bit 6 (of_nat (k + r))" by (simp add: take_bit_eq_mask mask_eq_exp_minus_1)
  moreover have "unat (take_bit 6 (of_nat (k + r) :: u32)) = (k + r) mod 2 ^ 32 mod 64"
    unfolding unsigned_take_bit_eq unat_of_nat by (simp add: take_bit_eq_mod)
  moreover have "(k + r) mod 2 ^ 32 mod 64 = (k + r) mod 64" by (simp add: mod_mod_cancel)
  moreover have "(k + r) mod 64 = r" using assms by (auto elim!: dvdE)
  ultimately show ?thesis by simp
qed

text \<open>The byte counters.\<close>

lemma carry:
  fixes n l :: nat
  assumes "l < 2 ^ 32"
  shows "(of_nat n + of_nat l < (of_nat n :: u32)) \<longleftrightarrow> (n + l) div 2 ^ 32 = n div 2 ^ 32 + 1"
    "\<not> of_nat n + of_nat l < (of_nat n :: u32) \<longleftrightarrow> (n + l) div 2 ^ 32 = n div 2 ^ 32"
proof -
  define q r where "q = n div 4294967296" and "r = n mod 4294967296"
  have n: "n = q * 4294967296 + r" "r < 4294967296" by (simp_all add: q_def r_def)
  have u: "unat (of_nat n :: u32) = r" by (simp only: unat_of_nat) (simp add: r_def)
  have v: "unat (of_nat n + of_nat l :: u32) = (r + l) mod 4294967296"
    unfolding of_nat_add [symmetric] by (simp only: unat_of_nat) (simp add: n(1) add.assoc)
  have c: "(r + l) mod 4294967296 < r \<longleftrightarrow> 4294967296 \<le> r + l"
    using n(2) assms by (cases "4294967296 \<le> r + l") (simp_all add: le_mod_geq)
  have d: "(n + l) div 4294967296 = q + (if 4294967296 \<le> r + l then 1 else 0)"
    using n(2) assms by (simp add: n(1) add.assoc) (auto intro!: div_nat_eqI)
  show "(of_nat n + of_nat l < (of_nat n :: u32)) \<longleftrightarrow> (n + l) div 2 ^ 32 = n div 2 ^ 32 + 1"
    "\<not> of_nat n + of_nat l < (of_nat n :: u32) \<longleftrightarrow> (n + l) div 2 ^ 32 = n div 2 ^ 32"
    unfolding word_less_nat_alt u v c using d by (simp_all add: q_def)
qed

lemma md5_count:
  assumes "md5_bytes0 ctx = of_nat n" "md5_bytes1 ctx = of_nat (n div 2 ^ 32)" "l < 2 ^ 32"
  defines "ctx' \<equiv> (let t = md5_bytes0 ctx; ctx = ctx\<lparr>md5_bytes0 := t + of_nat l\<rparr>
    in if md5_bytes0 ctx < t then ctx\<lparr>md5_bytes1 := md5_bytes1 ctx + 1\<rparr> else ctx)"
  shows "md5_bytes0 ctx' = of_nat (n + l)" "md5_bytes1 ctx' = of_nat ((n + l) div 2 ^ 32)"
    "md5_in ctx' = md5_in ctx" "md5_buf ctx' = md5_buf ctx"
proof -
  note c = carry [OF assms(3), of n]
  have "of_nat ((n + l) div 2 ^ 32) = (if of_nat n + of_nat l < (of_nat n :: u32) then of_nat (n div 2 ^ 32) + 1 else of_nat (n div 2 ^ 32) :: u32)"
    using c by (cases "of_nat n + of_nat l < (of_nat n :: u32)") simp_all
  then show "md5_bytes1 ctx' = of_nat ((n + l) div 2 ^ 32)" using assms(1,2) by (simp add: ctx'_def Let_def)
  show "md5_bytes0 ctx' = of_nat (n + l)" "md5_in ctx' = md5_in ctx" "md5_buf ctx' = md5_buf ctx"
    using assms(1) by (simp_all add: ctx'_def Let_def)
qed

lemma md5_update_cases:
  assumes "md5_holds ctx m1 m2" "length buf < 2 ^ 32"
  obtains c where "md5_bytes0 c = of_nat (length (m1 @ m2 @ buf))" "md5_bytes1 c = of_nat (length (m1 @ m2 @ buf) div 2 ^ 32)"
    "md5_in c = md5_in ctx" "md5_buf c = md5_buf ctx"
    "md5_update ctx buf = (let t = 64 - length m2 in
       if length buf < t then do { m \<leftarrow> mem_write (md5_in c) (length m2) buf; Some (c\<lparr>md5_in := m\<rparr>) }
       else do {
         m \<leftarrow> mem_write (md5_in c) (length m2) (take t buf);
         (c, buf) \<leftarrow> md5_chunks (md5_block (c\<lparr>md5_in := m\<rparr>)) (drop t buf);
         m \<leftarrow> mem_write (md5_in c) 0 buf;
         Some (c\<lparr>md5_in := m\<rparr>) })"
proof -
  let ?r = "length m2"
  have r: "?r < 64" and b: "md5_bytes0 ctx = of_nat (length m1 + ?r)" "md5_bytes1 ctx = of_nat ((length m1 + ?r) div 2 ^ 32)"
    and d: "64 dvd length m1" using assms(1) by (simp_all add: md5_holds_def)
  let ?x = "md5_bytes0 ctx AND 0x3f"
  have x: "unat ?x = ?r" unfolding b(1) by (rule and_63 [OF d r])
  then have "?x \<le> 64" using r by (simp add: word_le_nat_alt)
  then have t: "unat (64 - ?x) = 64 - ?r" using x by (simp add: unat_sub)
  have "unat (of_nat (length buf) :: u32) = length buf" using assms(2) by (simp only: unat_of_nat) simp
  then have lt: "of_nat (length buf) < 64 - ?x \<longleftrightarrow> length buf < 64 - ?r" by (simp only: word_less_nat_alt t)
  have s: "64 - (64 - ?r) = ?r" using r by simp
  define c where "c = (let t = md5_bytes0 ctx; ctx = ctx\<lparr>md5_bytes0 := t + of_nat (length buf)\<rparr>
    in if md5_bytes0 ctx < t then ctx\<lparr>md5_bytes1 := md5_bytes1 ctx + 1\<rparr> else ctx)"
  note count = md5_count [OF b assms(2), folded c_def]
  show ?thesis
  proof (rule that [of c])
    show "md5_update ctx buf = (let t = 64 - length m2 in
       if length buf < t then do { m \<leftarrow> mem_write (md5_in c) (length m2) buf; Some (c\<lparr>md5_in := m\<rparr>) }
       else do {
         m \<leftarrow> mem_write (md5_in c) (length m2) (take t buf);
         (c, buf) \<leftarrow> md5_chunks (md5_block (c\<lparr>md5_in := m\<rparr>)) (drop t buf);
         m \<leftarrow> mem_write (md5_in c) 0 buf;
         Some (c\<lparr>md5_in := m\<rparr>) })"
      unfolding md5_update_def Let_def lt t s c_def [unfolded Let_def, symmetric] ..
  qed (use count in \<open>simp_all add: add.assoc\<close>)
qed

lemma md5_update_holds:
  assumes "md5_holds ctx m1 m2" "length buf < 2 ^ 32"
  obtains ctx' n1 n2 where "md5_update ctx buf = Some ctx'" "md5_holds ctx' n1 n2" "n1 @ n2 = m1 @ m2 @ buf"
proof -
  let ?t = "64 - length m2"
  have h: "64 dvd length m1" "length m2 < 64" "length (md5_in ctx) = 64" "md5_buf ctx = std_blocks md5_IV m1"
    "take (length m2) (md5_in ctx) = m2" using assms(1) by (simp_all add: md5_holds_def)
  obtain c where c: "md5_bytes0 c = of_nat (length (m1 @ m2 @ buf))" "md5_bytes1 c = of_nat (length (m1 @ m2 @ buf) div 2 ^ 32)"
    "md5_in c = md5_in ctx" "md5_buf c = md5_buf ctx"
    and u: "md5_update ctx buf = (let t = 64 - length m2 in
       if length buf < t then do { m \<leftarrow> mem_write (md5_in c) (length m2) buf; Some (c\<lparr>md5_in := m\<rparr>) }
       else do {
         m \<leftarrow> mem_write (md5_in c) (length m2) (take t buf);
         (c, buf) \<leftarrow> md5_chunks (md5_block (c\<lparr>md5_in := m\<rparr>)) (drop t buf);
         m \<leftarrow> mem_write (md5_in c) 0 buf;
         Some (c\<lparr>md5_in := m\<rparr>) })"
    using md5_update_cases [OF assms] .
  show ?thesis
  proof (cases "length buf < ?t")
    case True
    let ?m = "m2 @ buf @ drop (length m2 + length buf) (md5_in ctx)"
    have "md5_update ctx buf = Some (c\<lparr>md5_in := ?m\<rparr>)" using True h c(3) by (simp add: u mem_write_def)
    moreover have "md5_holds (c\<lparr>md5_in := ?m\<rparr>) m1 (m2 @ buf)"
      using True h c by (simp add: md5_holds_def)
    ultimately show ?thesis using that by simp
  next
    case False
    let ?m = "m2 @ take ?t buf"
    have m: "length ?m = 64" "mem_write (md5_in c) (length m2) (take ?t buf) = Some ?m"
      using False h c(3) by (simp_all add: mem_write_def)
    let ?c = "md5_block (c\<lparr>md5_in := ?m\<rparr>)"
    have ceq: "?c = c\<lparr>md5_in := ?m, md5_buf := std_blocks md5_IV (m1 @ ?m)\<rparr>"
      using m(1) h(1,4) c(4) by (subst md5_block_eq) (simp_all add: std_blocks_append std_blocks_one del: append_assoc)
    have "length (md5_in ?c) = 64" unfolding ceq using m(1) by simp
    then obtain m' a b where x: "drop ?t buf = a @ b" "64 dvd length a" "length b < 64" "length m' = 64"
      "md5_chunks ?c (drop ?t buf) = Some (?c\<lparr>md5_in := m', md5_buf := std_blocks (md5_buf ?c) a\<rparr>, b)"
      by (rule md5_chunks_eq)
    let ?c' = "c\<lparr>md5_in := b @ drop (length b) m', md5_buf := std_blocks md5_IV (m1 @ ?m @ a)\<rparr>"
    have d: "64 dvd length (m1 @ ?m)" using h(1) m(1) by (simp only: length_append) simp
    let ?d = "?c\<lparr>md5_in := m', md5_buf := std_blocks (md5_buf ?c) a\<rparr>"
    have "md5_update ctx buf = do { m \<leftarrow> mem_write (md5_in ?d) 0 b; Some (?d\<lparr>md5_in := m\<rparr>) }"
      using False m(2) x(5) unfolding u Let_def by simp
    also have "\<dots> = Some ?c'"
      using x(3,4) std_blocks_append [OF d, of md5_IV a] unfolding ceq by (simp add: mem_write_def)
    finally have "md5_update ctx buf = Some ?c'" .
    moreover have all: "(m1 @ ?m @ a) @ b = m1 @ m2 @ buf" using x(1) by (metis append_assoc append_take_drop_id)
    moreover have "64 dvd length (m1 @ ?m @ a)" using dvd_add [OF d x(2)] by (simp add: add.assoc)
    then have "md5_holds ?c' (m1 @ ?m @ a) b" using x(3,4) c(1,2) unfolding md5_holds_def all by simp
    ultimately show ?thesis using that by blast
  qed
qed

text \<open>The length in bits.\<close>

lemma bit_length:
  "push_bit 3 (of_nat n :: u32) = of_nat (8 * n)"
  "push_bit 3 (of_nat (n div 2 ^ 32) :: u32) OR drop_bit 29 (of_nat n) = of_nat (8 * n div 2 ^ 32)"
proof -
  show "push_bit 3 (of_nat n :: u32) = of_nat (8 * n)" by (simp add: push_bit_eq_mult mult.commute)
  define q r where "q = n div 4294967296" and "r = n mod 4294967296"
  have n: "n = q * 4294967296 + r" "r < 4294967296" by (simp_all add: q_def r_def)
  let ?x = "drop_bit 29 (of_nat n :: u32)"
  have "unat (of_nat n :: u32) = r" by (simp only: unat_of_nat) (simp add: r_def)
  then have x: "unat ?x = r div 536870912"
    by (simp only: unsigned_drop_bit_eq) (simp add: drop_bit_eq_div take_bit_eq_mod n(2))
  have "push_bit 3 (of_nat q :: u32) AND ?x = 0"
    by (rule bit_word_eqI) (auto simp: bit_simps dest: bit_imp_le_length)
  then have o: "push_bit 3 (of_nat q :: u32) OR ?x = of_nat q * 8 + ?x"
    by (simp add: push_bit_eq_mult flip: disjunctive_add_eq_or)
  have "?x = of_nat (r div 536870912)" unfolding x [symmetric] by simp
  then have "of_nat q * 8 + ?x = (of_nat (q * 8 + r div 536870912) :: u32)" by simp
  moreover have "q * 8 + r div 536870912 = 8 * n div 4294967296"
  proof -
    have "8 * n = 8 * r + q * 8 * 4294967296" by (simp add: n(1))
    then have "8 * n div 4294967296 = q * 8 + 8 * r div 4294967296" by simp
    also have "8 * r div 4294967296 = r div 536870912" using div_mult_mult1 [of 8 r 536870912] by simp
    finally show ?thesis by simp
  qed
  ultimately have "push_bit 3 (of_nat q :: u32) OR ?x = of_nat (8 * n div 4294967296)" by (simp only: o)
  then show "push_bit 3 (of_nat (n div 2 ^ 32) :: u32) OR drop_bit 29 (of_nat n) = of_nat (8 * n div 2 ^ 32)"
    by (simp add: q_def)
qed

lemma mem_write_at_end:
  "length a = k \<Longrightarrow> length w \<le> length d \<Longrightarrow> mem_write (a @ d) k w = Some (a @ w @ drop (length w) d)"
  by (simp add: mem_write_def)

lemma md5_tail:
  assumes "length (md5_in c) = 64" "p + n = 56"
  shows "do {
     m \<leftarrow> mem_write (md5_in c) p (replicate n 0);
     let m = byteSwap 14 m;
     m \<leftarrow> mem_write m 56 (put32 x);
     m \<leftarrow> mem_write m 60 (put32 y);
     let buf = transform (md5_buf c) (words_of m);
     Some (byteSwap 4 (concat (map put32 buf)), z) } =
    Some (concat (map put32 (std_block (md5_buf c) (take p (md5_in c) @ replicate n 0 @ put32 x @ put32 y))), z)"
proof -
  let ?a = "take p (md5_in c) @ replicate n 0"
  have a: "length ?a = 56" using assms by simp
  have "mem_write (md5_in c) p (replicate n 0) = Some (?a @ drop 56 (md5_in c))" using assms by (simp add: mem_write_def)
  moreover have "mem_write (?a @ drop 56 (md5_in c)) 56 (put32 x) = Some (?a @ put32 x @ drop 60 (md5_in c))"
    using assms(1) by (subst mem_write_at_end [OF a]) simp_all
  moreover have "mem_write (?a @ put32 x @ drop 60 (md5_in c)) 60 (put32 y) = Some (?a @ put32 x @ put32 y)"
    using mem_write_at_end [of "?a @ put32 x" 60 "put32 y" "drop 60 (md5_in c)"] a assms(1) by simp
  moreover have "byteSwap 14 (?a @ drop 56 (md5_in c)) = ?a @ drop 56 (md5_in c)" using a assms(1) by (intro byteSwap_id) simp
  moreover have "byteSwap 4 (concat (map put32 (std_block b m))) = concat (map put32 (std_block b m))" for b m
    by (rule byteSwap_id) (simp add: std_block_def Let_def case_prod_beta')
  ultimately show ?thesis by (simp add: transform_std)
qed

lemma md5_final_holds:
  assumes "md5_holds ctx m1 m2"
  shows "\<exists>ctx'. md5_final ctx = Some (MD5 (m1 @ m2), ctx')"
proof -
  let ?r = "length m2" and ?n = "length (m1 @ m2)"
  have h: "64 dvd length m1" "?r < 64" "length (md5_in ctx) = 64" "md5_buf ctx = std_blocks md5_IV m1"
    "take ?r (md5_in ctx) = m2" "md5_bytes0 ctx = of_nat ?n" "md5_bytes1 ctx = of_nat (?n div 2 ^ 32)"
    using assms by (simp_all add: md5_holds_def)
  have r: "unat (md5_bytes0 ctx AND 0x3f) = ?r" unfolding h(6) using and_63 [OF h(1,2)] by simp
  define x y :: u32 where "x = of_nat (8 * ?n)" and "y = of_nat (8 * ?n div 2 ^ 32)"
  let ?L = "put32 x @ put32 y"
  have L: "push_bit 3 (md5_bytes0 ctx) = x" "push_bit 3 (md5_bytes1 ctx) OR drop_bit 29 (md5_bytes0 ctx) = y"
    unfolding h(6,7) x_def y_def by (rule bit_length(1), rule bit_length(2))
  have rn: "?n mod 64 = ?r" using h(1,2) by (auto elim!: dvdE)
  let ?m0 = "m2 @ 0x80 # drop (Suc ?r) (md5_in ctx)"
  have w0: "mem_write (md5_in ctx) ?r [0x80] = Some ?m0" using h(2,3,5) by (simp add: mem_write_def)
  have pad: "MD5 (m1 @ m2) = concat (map put32 (std_blocks (std_blocks md5_IV m1) (m2 @ [0x80] @ replicate ((119 - ?r) mod 64) 0 @ ?L)))"
    using h(1) rn by (simp add: MD5_def md5_pad_def md5_IV_def [symmetric] std_blocks_append x_def y_def)
  show ?thesis
  proof (cases "?r < 56")
    case True
    have "(119 - ?r) mod 64 = 55 - ?r" using True by (simp add: le_mod_geq)
    then have "MD5 (m1 @ m2) = concat (map put32 (std_block (md5_buf ctx) (m2 @ [0x80] @ replicate (55 - ?r) 0 @ ?L)))"
      using True pad h(4) by (simp add: std_blocks_one)
    moreover have "length (md5_in (ctx\<lparr>md5_in := ?m0\<rparr>)) = 64" "?r + 1 + (55 - ?r) = 56" using True h(3) by simp_all
    note md5_tail [OF this, of x y "md5_invalidate (ctx\<lparr>md5_in := ?m0\<rparr>)"]
    moreover have "nat (55 - int ?r) = 55 - ?r" "\<not> 55 - int ?r < 0" using True by linarith+
    ultimately show ?thesis
      using True w0 unfolding md5_final_def by (simp add: r L Let_def)
  next
    case False
    let ?b = "m2 @ [0x80] @ replicate (63 - ?r) 0"
    let ?c = "md5_block (ctx\<lparr>md5_in := ?b\<rparr>)"
    have b: "length ?b = 64" using h(2) by simp
    have c: "?c = ctx\<lparr>md5_in := ?b, md5_buf := std_block (md5_buf ctx) ?b\<rparr>" using b by (subst md5_block_eq) simp_all
    let ?t = "replicate 56 0 @ ?L"
    have z: "119 - ?r = (63 - ?r) + 56" using h(2) by linarith
    have "(119 - ?r) mod 64 = 119 - ?r" using False by (intro mod_less) linarith
    then have "MD5 (m1 @ m2) = concat (map put32 (std_blocks (md5_buf ctx) (?b @ ?t)))"
      unfolding pad h(4) by (simp only: z replicate_add append_assoc)
    also have "std_blocks (md5_buf ctx) (?b @ ?t) = std_blocks (std_blocks (md5_buf ctx) ?b) ?t"
      using b by (intro std_blocks_append) (simp only: dvd_refl)
    also have "\<dots> = std_block (md5_buf ?c) ?t"
      unfolding std_blocks_one [OF b] c by (subst std_blocks_one) simp_all
    finally have "MD5 (m1 @ m2) = concat (map put32 (std_block (md5_buf ?c) ?t))" .
    moreover have "mem_write ?m0 (?r + 1) (replicate (63 - ?r) 0) = Some ?b" using h(2,3) by (simp add: mem_write_def)
    moreover have "length (md5_in ?c) = 64" "0 + 56 = (56 :: nat)" unfolding c using b by simp_all
    note md5_tail [OF this, of x y "md5_invalidate ?c"]
    moreover have "nat (63 - int ?r) = 63 - ?r" "55 - int ?r < 0" using False by linarith+
    moreover have "md5_bytes0 ?c = md5_bytes0 ctx" "md5_bytes1 ?c = md5_bytes1 ctx" unfolding c by simp_all
    ultimately show ?thesis
      using False w0 unfolding md5_final_def by (simp add: r L Let_def)
  qed
qed

text \<open>Any sequence of updates.\<close>

primrec md5_updates :: "md5_t \<Rightarrow> byte list list \<Rightarrow> md5_t option" where
  "md5_updates ctx [] = Some ctx"
| "md5_updates ctx (b # bs) = do { ctx \<leftarrow> md5_update ctx b; md5_updates ctx bs }"

lemma md5_updates_holds:
  assumes "md5_holds ctx m1 m2" "\<And>b. b \<in> set bufs \<Longrightarrow> length b < 2 ^ 32"
  obtains ctx' m1' m2' where "md5_updates ctx bufs = Some ctx'" "m1' @ m2' = m1 @ m2 @ concat bufs" "md5_holds ctx' m1' m2'"
  using assms
proof (induction bufs arbitrary: ctx m1 m2 thesis)
  case Nil
  then show ?case by simp
next
  case (Cons b bs)
  have "length b < 2 ^ 32" using Cons.prems(3) by simp
  with Cons.prems(2) obtain c a d where u: "md5_update ctx b = Some c" "a @ d = m1 @ m2 @ b" "md5_holds c a d"
    by (rule md5_update_holds)
  obtain c' a' d' where v: "md5_updates c bs = Some c'" "a' @ d' = a @ d @ concat bs" "md5_holds c' a' d'"
    using Cons.IH [OF _ u(3)] Cons.prems(3) by (metis list.set_intros(2))
  have "a' @ d' = m1 @ m2 @ concat (b # bs)" using u(2) v(2) by (metis append_assoc concat.simps(2))
  moreover have "md5_updates ctx (b # bs) = Some c'" by (simp add: u(1) v(1))
  ultimately show ?case using Cons.prems(1) v(3) by blast
qed

lemma md5_init_holds: "length (md5_in ctx) = 64 \<Longrightarrow> md5_holds (md5_init ctx) [] []"
  by (simp add: md5_holds_def md5_init_def md5_IV_def std_blocks_short)

text \<open>The test vector \<open>abc\<close> of the standard, for the reference.\<close>

lemma rotl_num: "0 < s \<Longrightarrow> s < 32 \<Longrightarrow> word_rotl s (w :: u32) = push_bit s w OR drop_bit (32 - s) w"
  by (simp add: rotate_left)

lemma upt64: "[0..<64] = [0, 1, 2, 3, 4, 5, 6, 7, 8, 9, 10, 11, 12, 13, 14, 15, 16, 17, 18, 19, 20, 21, 22, 23, 24, 25, 26, 27, 28, 29,
     30, 31, 32, 33, 34, 35, 36, 37, 38, 39, 40, 41, 42, 43, 44, 45, 46, 47, 48, 49, 50, 51, 52, 53, 54, 55, 56, 57, 58, 59, 60, 61, 62, 63]"
  by (simp add: upt_rec)

lemma zeros: "replicate 52 (0 :: byte) = [0, 0, 0, 0, 0, 0, 0, 0, 0, 0, 0, 0, 0, 0, 0, 0, 0, 0, 0, 0, 0, 0, 0, 0, 0, 0,
     0, 0, 0, 0, 0, 0, 0, 0, 0, 0, 0, 0, 0, 0, 0, 0, 0, 0, 0, 0, 0, 0, 0, 0, 0, 0]"
  by code_simp

lemma pad_abc: "md5_pad [0x61, 0x62, 0x63] = [0x61, 0x62, 0x63, 0x80, 0, 0, 0, 0, 0, 0, 0, 0, 0, 0, 0, 0, 0, 0, 0, 0, 0, 0, 0, 0,
     0, 0, 0, 0, 0, 0, 0, 0, 0, 0, 0, 0, 0, 0, 0, 0, 0, 0, 0, 0, 0, 0, 0, 0, 0, 0, 0, 0, 0, 0, 0, 0, 24, 0, 0, 0, 0, 0, 0, 0]"
  by (simp add: md5_pad_def zeros put32_def)

lemma words_abc: "words_of (md5_pad [0x61, 0x62, 0x63]) = [0x80636261, 0, 0, 0, 0, 0, 0, 0, 0, 0, 0, 0, 0, 0, 24, 0]"
  unfolding pad_abc by (simp add: words_of_def get32_def upt_rec)

lemma block_abc:
  "std_block [0x67452301, 0xefcdab89, 0x98badcfe, 0x10325476] (md5_pad [0x61, 0x62, 0x63])
     = [0x98500190, 0xb04fd23c, 0x7d3f96d6, 0x727fe128]"
  unfolding std_block_def words_abc upt64
  by (simp add: std_fun_def std_word_def std_shift_def md5_K_def rotl_num)

lemma MD5_abc:
  "MD5 [0x61, 0x62, 0x63]
     = [0x90, 0x01, 0x50, 0x98, 0x3c, 0xd2, 0x4f, 0xb0, 0xd6, 0x96, 0x3f, 0x7d, 0x28, 0xe1, 0x7f, 0x72]"
  unfolding MD5_def by (subst std_blocks_one) (simp add: pad_abc, unfold block_abc, simp add: put32_def)

text \<open>
  C17. The incremental interface computes the digest of the standard.  From any context, \<open>md5_init\<close>,
  any sequence of \<open>md5_update\<close> calls whatever the sizes of the pieces, and \<open>md5_final\<close> run without a
  write outside the context, and return the digest of the concatenation of the pieces: padding,
  bit length on 64 bits with its carry between the two counters, and the 64 unrolled lines of
  \<open>transform\<close> against the formulas of the standard.
\<close>

theorem md5_incremental:
  assumes "length (md5_in ctx) = 64" "\<forall>b \<in> set bufs. length b < 2 ^ 32"
  shows "\<exists>ctx' ctx''. md5_updates (md5_init ctx) bufs = Some ctx' \<and> md5_final ctx' = Some (MD5 (concat bufs), ctx'')"
proof -
  obtain c a d where u: "md5_updates (md5_init ctx) bufs = Some c" "a @ d = [] @ [] @ concat bufs" "md5_holds c a d"
    using md5_updates_holds [OF md5_init_holds [OF assms(1)]] assms(2) by blast
  then show ?thesis using md5_final_holds [OF u(3)] by simp
qed

theorem md5_incremental_witness:
  "\<exists>ctx' ctx''. md5_updates (md5_init (\<lparr>md5_buf = [0, 0, 0, 0], md5_bytes0 = 7, md5_bytes1 = 9, md5_in = replicate 64 5\<rparr>)) [[0x61], [0x62, 0x63]] = Some ctx' \<and>
     md5_final ctx' = Some ([0x90, 0x01, 0x50, 0x98, 0x3c, 0xd2, 0x4f, 0xb0, 0xd6, 0x96, 0x3f, 0x7d, 0x28, 0xe1, 0x7f, 0x72], ctx'')"
  using md5_incremental [of "\<lparr>md5_buf = [0, 0, 0, 0], md5_bytes0 = 7, md5_bytes1 = 9, md5_in = replicate 64 5\<rparr>" "[[0x61], [0x62, 0x63]]"] by (simp add: MD5_abc)

end
