(* ===== verification/Dhcp6Mac.thy ===== *)
theory Dhcp6Mac
  imports Dhcp6Md5
begin

text \<open>
  The message authentication code of the DHCPv6 programs, \<^verbatim>\<open>src/apps/dhcp6/auth.c\<close>: the keyed hash
  \<open>hmacmd5_init\<close>, \<open>hmacmd5_update\<close>, \<open>hmacmd5_sign\<close>, \<open>hmacmd5_verify\<close> on the contexts of \<open>Dhcp6Md5\<close>, and the two
  operations on a message, \<open>dhcp6_calc_mac\<close> and \<open>dhcp6_verify_mac\<close>, with the key lifetime test.  Local
  variables the C code leaves uninitialised are arguments: \<open>stk\<close> holds the contents of the temporary
  digest context of \<open>hmacmd5_init\<close> and of the context of the caller.  Sizes and offsets are 32 bits wide.
  \<^term>\<open>None\<close> is an access outside the message.
\<close>

unbundle bit_operations_syntax

section \<open>The code\<close>

record hmacmd5_t =
  md5ctx :: md5_t
  hmac_key :: "byte list"

record keyinfo =
  key_name :: string
  key_realm :: "byte list"
  key_keyid :: u32
  key_secret :: "byte list"
  key_expire :: int

definition hmacmd5_init :: "md5_t \<Rightarrow> hmacmd5_t \<Rightarrow> byte list \<Rightarrow> hmacmd5_t option" where
  "hmacmd5_init tmp ctx key = do {
     let k = replicate 64 0;
     k \<leftarrow> (if length key > 64 then do {
         c \<leftarrow> md5_update (md5_init tmp) key;
         (digest, c) \<leftarrow> md5_final c;
         mem_write k 0 digest }
       else mem_write k 0 key);
     let c = md5_init (md5ctx ctx);
     let ipad = map (\<lambda>b. 0x36 XOR b) k;
     c \<leftarrow> md5_update c ipad;
     Some (ctx\<lparr>md5ctx := c, hmac_key := k\<rparr>) }"

text \<open>\<open>sizeof(ctx)\<close> in the last \<open>memset\<close> is the size of a pointer: four bytes, the first word of the digest.\<close>

definition hmacmd5_invalidate :: "hmacmd5_t \<Rightarrow> hmacmd5_t" where
  "hmacmd5_invalidate ctx =
     (let c = md5_invalidate (md5ctx ctx)
      in ctx\<lparr>hmac_key := replicate 64 0, md5ctx := c\<lparr>md5_buf := (md5_buf c)[0 := 0]\<rparr>\<rparr>)"

definition hmacmd5_update :: "hmacmd5_t \<Rightarrow> byte list \<Rightarrow> hmacmd5_t option" where
  "hmacmd5_update ctx buf = do { c \<leftarrow> md5_update (md5ctx ctx) buf; Some (ctx\<lparr>md5ctx := c\<rparr>) }"

definition hmacmd5_sign :: "hmacmd5_t \<Rightarrow> (byte list \<times> hmacmd5_t) option" where
  "hmacmd5_sign ctx = do {
     (digest, c) \<leftarrow> md5_final (md5ctx ctx);
     let opad = map (\<lambda>b. 0x5c XOR b) (hmac_key ctx);
     let c = md5_init c;
     c \<leftarrow> md5_update c opad;
     c \<leftarrow> md5_update c digest;
     (digest, c) \<leftarrow> md5_final c;
     Some (digest, hmacmd5_invalidate (ctx\<lparr>md5ctx := c\<rparr>)) }"

text \<open>\<open>memcmp\<close>: zero, or the difference of the first two bytes that differ.\<close>

fun memcmp :: "byte list \<Rightarrow> byte list \<Rightarrow> int" where
  "memcmp (x # xs) (y # ys) = (if x = y then memcmp xs ys else uint x - uint y)"
| "memcmp _ _ = 0"

definition hmacmd5_verify :: "hmacmd5_t \<Rightarrow> byte list \<Rightarrow> int option" where
  "hmacmd5_verify ctx digest = do {
     (newdigest, ctx) \<leftarrow> hmacmd5_sign ctx;
     Some (memcmp digest newdigest) }"

text \<open>\<open>time()\<close> returns \<open>now\<close>, -1 on an error.\<close>

definition dhcp6_validate_key :: "int \<Rightarrow> keyinfo \<Rightarrow> int" where
  "dhcp6_validate_key now key =
     (if key_expire key = 0 then 0 else if now = -1 then -1 else if now > key_expire key then -1 else 0)"

definition DHCP6_AUTHALG_HMACMD5 :: int where "DHCP6_AUTHALG_HMACMD5 = 1"

definition dhcp6_calc_mac ::
  "md5_t \<times> hmacmd5_t \<Rightarrow> byte list \<Rightarrow> u32 \<Rightarrow> int \<Rightarrow> int \<Rightarrow> u32 \<Rightarrow> keyinfo \<Rightarrow> (int \<times> byte list) option" where
  "dhcp6_calc_mac stk buf len proto alg off key =
     (if alg \<noteq> DHCP6_AUTHALG_HMACMD5 then Some (-1, buf)
      else if off + 16 > len then Some (-1, buf)
      else do {
        ctx \<leftarrow> hmacmd5_init (fst stk) (snd stk) (key_secret key);
        m \<leftarrow> mem_read buf 0 (unat len);
        ctx \<leftarrow> hmacmd5_update ctx m;
        (digest, ctx) \<leftarrow> hmacmd5_sign ctx;
        buf \<leftarrow> mem_write buf (unat off) digest;
        Some (0, buf) })"

definition dhcp6_verify_mac ::
  "md5_t \<times> hmacmd5_t \<Rightarrow> byte list \<Rightarrow> u32 \<Rightarrow> int \<Rightarrow> int \<Rightarrow> u32 \<Rightarrow> keyinfo \<Rightarrow> (int \<times> byte list) option" where
  "dhcp6_verify_mac stk buf len proto alg off key =
     (if alg \<noteq> DHCP6_AUTHALG_HMACMD5 then Some (-1, buf)
      else if off + 16 > len then Some (-1, buf)
      else do {
        digest \<leftarrow> mem_read buf (unat off) 16;
        buf \<leftarrow> mem_write buf (unat off) (replicate 16 0);
        ctx \<leftarrow> hmacmd5_init (fst stk) (snd stk) (key_secret key);
        m \<leftarrow> mem_read buf 0 (unat len);
        ctx \<leftarrow> hmacmd5_update ctx m;
        result \<leftarrow> hmacmd5_verify ctx digest;
        buf \<leftarrow> mem_write buf (unat off) digest;
        Some (result, buf) })"

section \<open>The keyed hash of a message\<close>

text \<open>The definition of RFC 2104 over the digest of the standard.\<close>

definition hmac_block :: "byte list \<Rightarrow> byte list" where
  "hmac_block key = (if 64 < length key then MD5 key @ replicate 48 0 else key @ replicate (64 - length key) 0)"

definition HMAC_MD5 :: "byte list \<Rightarrow> byte list \<Rightarrow> byte list" where
  "HMAC_MD5 key msg =
     MD5 (map (\<lambda>b. 0x5c XOR b) (hmac_block key) @ MD5 (map (\<lambda>b. 0x36 XOR b) (hmac_block key) @ msg))"

definition stack_ok :: "md5_t \<times> hmacmd5_t \<Rightarrow> bool" where
  "stack_ok stk \<longleftrightarrow> length (md5_in (fst stk)) = 64 \<and> length (md5_in (md5ctx (snd stk))) = 64"

lemma length_std_blocks: "length buf = 4 \<Longrightarrow> length (std_blocks buf m) = 4"
  by (induction buf m rule: std_blocks.induct) (subst std_blocks.simps, simp add: std_block_def Let_def case_prod_beta')

lemma length_MD5 [simp]: "length (MD5 m) = 16"
  by (simp add: MD5_def length_concat comp_def sum_list_triv length_std_blocks)

lemma length_hmac_block [simp]: "length (hmac_block key) = 64"
  by (simp add: hmac_block_def)

lemma length_HMAC_MD5 [simp]: "length (HMAC_MD5 key m) = 16"
  by (simp add: HMAC_MD5_def)

text \<open>One digest from a fresh context, and the context that remains.\<close>

lemma md5_holds_in: "md5_holds c a b \<Longrightarrow> length (md5_in c) = 64"
  by (simp add: md5_holds_def)

lemma md5_final_in:
  assumes "md5_holds c a b"
  obtains c' where "md5_final c = Some (MD5 (a @ b), c')" "length (md5_in c') = 64"
proof -
  obtain c' where c: "md5_final c = Some (MD5 (a @ b), c')" using md5_final_holds [OF assms] by blast
  then have "length (md5_in c') = 64"
    by (auto simp: md5_final_def md5_invalidate_def Let_def split: bind_splits)
  with c show ?thesis by (rule that)
qed

lemma hmacmd5_init_holds:
  assumes "stack_ok stk" "length key < 2 ^ 32"
  obtains ctx a b where "hmacmd5_init (fst stk) (snd stk) key = Some ctx" "hmac_key ctx = hmac_block key"
    "md5_holds (md5ctx ctx) a b" "a @ b = map (\<lambda>b. 0x36 XOR b) (hmac_block key)"
proof -
  have s: "md5_holds (md5_init (fst stk)) [] []" "md5_holds (md5_init (md5ctx (snd stk))) [] []"
    using assms(1) by (simp_all add: stack_ok_def md5_init_holds)
  let ?k = "if length key > 64 then do {
         c \<leftarrow> md5_update (md5_init (fst stk)) key;
         (digest, c) \<leftarrow> md5_final c;
         mem_write (replicate 64 0) 0 digest }
       else mem_write (replicate 64 0) 0 key"
  have k: "?k = Some (hmac_block key)"
  proof (cases "length key > 64")
    case True
    obtain c a b where u: "md5_update (md5_init (fst stk)) key = Some c" "md5_holds c a b" "a @ b = [] @ [] @ key"
      using md5_update_holds [OF s(1) assms(2)] .
    then show ?thesis using True md5_final_holds [OF u(2)] by (auto simp: hmac_block_def mem_write_def)
  next
    case False
    then show ?thesis by (simp add: hmac_block_def mem_write_def)
  qed
  let ?i = "map (\<lambda>b. 0x36 XOR b) (hmac_block key)"
  have "length ?i < 2 ^ 32" by simp
  with s(2) obtain c a b where u: "md5_update (md5_init (md5ctx (snd stk))) ?i = Some c" "md5_holds c a b" "a @ b = [] @ [] @ ?i"
    by (rule md5_update_holds)
  show ?thesis
    by (rule that [of "(snd stk)\<lparr>md5ctx := c, hmac_key := hmac_block key\<rparr>" a b])
      (use k u in \<open>simp_all add: hmacmd5_init_def\<close>)
qed

lemma hmacmd5_sign_holds:
  assumes "md5_holds (md5ctx ctx) a b" "length (hmac_key ctx) = 64"
  obtains ctx' where
    "hmacmd5_sign ctx = Some (MD5 (map (\<lambda>b. 0x5c XOR b) (hmac_key ctx) @ MD5 (a @ b)), ctx')"
proof -
  obtain c where c: "md5_final (md5ctx ctx) = Some (MD5 (a @ b), c)" "length (md5_in c) = 64"
    using assms(1) by (rule md5_final_in)
  let ?o = "map (\<lambda>b. 0x5c XOR b) (hmac_key ctx)"
  have "md5_holds (md5_init c) [] []" "length ?o < 2 ^ 32" using c(2) assms(2) by (simp_all add: md5_init_holds)
  then obtain c1 a1 b1 where u: "md5_update (md5_init c) ?o = Some c1" "md5_holds c1 a1 b1" "a1 @ b1 = [] @ [] @ ?o"
    by (rule md5_update_holds)
  have "length (MD5 (a @ b)) < 2 ^ 32" by simp
  with u(2) obtain c2 a2 b2 where v: "md5_update c1 (MD5 (a @ b)) = Some c2" "md5_holds c2 a2 b2" "a2 @ b2 = a1 @ b1 @ MD5 (a @ b)"
    by (rule md5_update_holds)
  obtain c3 where f: "md5_final c2 = Some (MD5 (a2 @ b2), c3)" using v(2) by (rule md5_final_in)
  have "a2 @ b2 = ?o @ MD5 (a @ b)" using u(3) v(3) by (metis append.assoc append_Nil)
  then show ?thesis using that c(1) u(1) v(1) f by (simp add: hmacmd5_sign_def)
qed

text \<open>The three calls in a row compute the keyed hash.\<close>

lemma hmac_of_message:
  assumes "stack_ok stk" "length key < 2 ^ 32" "length m < 2 ^ 32"
  obtains ctx ctx' ctx'' where "hmacmd5_init (fst stk) (snd stk) key = Some ctx" "hmacmd5_update ctx m = Some ctx'"
    "hmacmd5_sign ctx' = Some (HMAC_MD5 key m, ctx'')"
proof -
  obtain ctx a b where i: "hmacmd5_init (fst stk) (snd stk) key = Some ctx" "hmac_key ctx = hmac_block key"
    "md5_holds (md5ctx ctx) a b" "a @ b = map (\<lambda>b. 0x36 XOR b) (hmac_block key)"
    using assms(1,2) by (rule hmacmd5_init_holds)
  from i(3) assms(3) obtain c a' b' where u: "md5_update (md5ctx ctx) m = Some c" "md5_holds c a' b'" "a' @ b' = a @ b @ m"
    by (rule md5_update_holds)
  let ?c = "ctx\<lparr>md5ctx := c\<rparr>"
  have "md5_holds (md5ctx ?c) a' b'" "length (hmac_key ?c) = 64" using u(2) i(2) by simp_all
  then obtain c' where s: "hmacmd5_sign ?c = Some (MD5 (map (\<lambda>b. 0x5c XOR b) (hmac_key ?c) @ MD5 (a' @ b')), c')"
    by (rule hmacmd5_sign_holds)
  have "a' @ b' = map (\<lambda>b. 0x36 XOR b) (hmac_block key) @ m" using u(3) i(4) by (metis append.assoc)
  then have "hmacmd5_sign ?c = Some (HMAC_MD5 key m, c')" using s i(2) by (simp add: HMAC_MD5_def)
  with i(1) show ?thesis using u(1) that by (simp add: hmacmd5_update_def)
qed

section \<open>The code of a message\<close>

text \<open>The message with the sixteen bytes at \<open>off\<close> replaced.\<close>

definition with_mac :: "byte list \<Rightarrow> nat \<Rightarrow> byte list \<Rightarrow> byte list" where
  "with_mac buf off mac = take off buf @ mac @ drop (off + 16) buf"

lemma with_mac_length [simp]: "off + 16 \<le> length buf \<Longrightarrow> length mac = 16 \<Longrightarrow> length (with_mac buf off mac) = length buf"
  by (simp add: with_mac_def)

lemma with_mac_write:
  "off + 16 \<le> length buf \<Longrightarrow> length mac = 16 \<Longrightarrow> mem_write buf off mac = Some (with_mac buf off mac)"
  by (simp add: mem_write_def with_mac_def)

lemma with_mac_twice:
  assumes "off + 16 \<le> length buf" "length mac = 16" "length mac' = 16"
  shows "with_mac (with_mac buf off mac) off mac' = with_mac buf off mac'"
  using assms by (simp add: with_mac_def)

lemma with_mac_field: "off + 16 \<le> length buf \<Longrightarrow> length mac = 16 \<Longrightarrow> take 16 (drop off (with_mac buf off mac)) = mac"
  by (simp add: with_mac_def)

lemma with_mac_same: "off + 16 \<le> length buf \<Longrightarrow> with_mac buf off (take 16 (drop off buf)) = buf"
  using append_take_drop_id [of 16 "drop off buf"] by (simp add: with_mac_def add.commute)

lemma memcmp_zero: "length xs = length ys \<Longrightarrow> memcmp xs ys = 0 \<longleftrightarrow> xs = ys"
  by (induction xs ys rule: list_induct2) (auto simp: word_uint_eq_iff)

lemma mac_field_fits:
  fixes off len :: u32
  assumes "unat off + 16 \<le> unat len"
  shows "\<not> off + 16 > len"
proof -
  have "unat off + 16 < 4294967296" using assms unat_u32_less [of len] by linarith
  then have "unat (off + 16) = unat off + 16" by (simp add: unat_word_ariths)
  then show ?thesis using assms by (simp add: word_less_nat_alt)
qed

text \<open>What is authenticated: the first \<open>len\<close> bytes with the field cleared.\<close>

definition mac_of :: "byte list \<Rightarrow> nat \<Rightarrow> nat \<Rightarrow> keyinfo \<Rightarrow> byte list" where
  "mac_of buf len off key = HMAC_MD5 (key_secret key) (take len (with_mac buf off (replicate 16 0)))"

lemma dhcp6_calc_mac_eq:
  assumes "stack_ok stk" "length (key_secret key) < 2 ^ 32" "unat off + 16 \<le> unat len" "unat len \<le> length buf"
  shows "dhcp6_calc_mac stk buf len proto DHCP6_AUTHALG_HMACMD5 off key =
    Some (0, with_mac buf (unat off) (HMAC_MD5 (key_secret key) (take (unat len) buf)))"
proof -
  have "length (take (unat len) buf) < 2 ^ 32" using unat_u32_less [of len] by (simp add: min_less_iff_disj)
  with assms(1,2) obtain c c' c'' where h: "hmacmd5_init (fst stk) (snd stk) (key_secret key) = Some c"
    "hmacmd5_update c (take (unat len) buf) = Some c'" "hmacmd5_sign c' = Some (HMAC_MD5 (key_secret key) (take (unat len) buf), c'')"
    by (rule hmac_of_message)
  have "mem_read buf 0 (unat len) = Some (take (unat len) buf)" using assms(4) by (simp add: mem_read_def)
  then show ?thesis
    using h assms(3,4) mac_field_fits [OF assms(3)] by (simp add: dhcp6_calc_mac_def with_mac_write)
qed

lemma dhcp6_verify_mac_eq:
  assumes "stack_ok stk" "length (key_secret key) < 2 ^ 32" "unat off + 16 \<le> unat len" "unat len \<le> length buf"
  shows "dhcp6_verify_mac stk buf len proto DHCP6_AUTHALG_HMACMD5 off key =
    Some (memcmp (take 16 (drop (unat off) buf)) (mac_of buf (unat len) (unat off) key), buf)"
proof -
  let ?z = "with_mac buf (unat off) (replicate 16 0)" and ?d = "take 16 (drop (unat off) buf)"
  have fits: "unat off + 16 \<le> length buf" using assms(3,4) by simp
  have "length (take (unat len) ?z) < 2 ^ 32" using unat_u32_less [of len] by (simp add: min_less_iff_disj)
  with assms(1,2) obtain c c' c'' where h: "hmacmd5_init (fst stk) (snd stk) (key_secret key) = Some c"
    "hmacmd5_update c (take (unat len) ?z) = Some c'" "hmacmd5_sign c' = Some (mac_of buf (unat len) (unat off) key, c'')"
    unfolding mac_of_def by (rule hmac_of_message)
  have "mem_read ?z 0 (unat len) = Some (take (unat len) ?z)" "mem_read buf (unat off) 16 = Some ?d"
    "mem_write buf (unat off) (replicate 16 0) = Some ?z"
    using assms(4) fits by (simp_all add: mem_read_def with_mac_write)
  moreover have "mem_write ?z (unat off) ?d = Some buf"
    using fits by (simp add: with_mac_write with_mac_twice with_mac_same)
  ultimately show ?thesis
    using h mac_field_fits [OF assms(3)] by (simp add: dhcp6_verify_mac_def hmacmd5_verify_def)
qed

text \<open>
  C16. The authentication code of a message is HMAC-MD5 of RFC 2104, for a secret of any length and
  whatever the uninitialised contexts contain.  On a message with room for the code,
  \<open>dhcp6_calc_mac\<close> replaces the sixteen bytes at the offset by the keyed hash of the message and
  nothing else.  \<open>dhcp6_verify_mac\<close> leaves the message as it was, and returns zero exactly when
  these bytes are the keyed hash of the message with the field cleared.  Neither leaves the buffer.
\<close>

theorem mac_exact:
  assumes "stack_ok stk" "length (key_secret key) < 2 ^ 32" "unat off + 16 \<le> unat len" "unat len \<le> length buf"
  shows "dhcp6_calc_mac stk buf len proto DHCP6_AUTHALG_HMACMD5 off key =
      Some (0, with_mac buf (unat off) (HMAC_MD5 (key_secret key) (take (unat len) buf))) \<and>
    (\<exists>r. dhcp6_verify_mac stk buf len proto DHCP6_AUTHALG_HMACMD5 off key = Some (r, buf) \<and>
      (r = 0 \<longleftrightarrow> take 16 (drop (unat off) buf) =
        HMAC_MD5 (key_secret key) (take (unat len) (with_mac buf (unat off) (replicate 16 0)))))"
proof -
  have "length (take 16 (drop (unat off) buf)) = length (mac_of buf (unat len) (unat off) key)"
    using assms(3,4) by (simp add: mac_of_def)
  then show ?thesis
    using dhcp6_calc_mac_eq [OF assms] dhcp6_verify_mac_eq [OF assms] by (simp add: memcmp_zero flip: mac_of_def)
qed

theorem mac_exact_witness:
  "let stk = (\<lparr>md5_buf = [], md5_bytes0 = 3, md5_bytes1 = 0, md5_in = replicate 64 1\<rparr>,
              \<lparr>md5ctx = \<lparr>md5_buf = [], md5_bytes0 = 0, md5_bytes1 = 5, md5_in = replicate 64 2\<rparr>, hmac_key = []\<rparr>);
       key = \<lparr>key_name = ''k'', key_realm = [], key_keyid = 1, key_secret = replicate 80 9, key_expire = 0\<rparr>
   in dhcp6_calc_mac stk (replicate 20 7) 20 2 DHCP6_AUTHALG_HMACMD5 4 key =
      Some (0, replicate 4 7 @ HMAC_MD5 (replicate 80 9) (replicate 20 7))"
  using mac_exact [of "(\<lparr>md5_buf = [], md5_bytes0 = 3, md5_bytes1 = 0, md5_in = replicate 64 1\<rparr>,
              \<lparr>md5ctx = \<lparr>md5_buf = [], md5_bytes0 = 0, md5_bytes1 = 5, md5_in = replicate 64 2\<rparr>, hmac_key = []\<rparr>)"
      "\<lparr>key_name = ''k'', key_realm = [], key_keyid = 1, key_secret = replicate 80 9, key_expire = 0\<rparr>"
      4 20 "replicate 20 7" 2]
  by (simp add: stack_ok_def with_mac_def)

end
