(* ===== verification/Dhcp6Auth.thy ===== *)
theory Dhcp6Auth
  imports Dhcp6Mac
begin

text \<open>
  Delayed authentication between the DHCPv6 client and server: the replay counter of
  \<^verbatim>\<open>src/apps/dhcp6/common.c\<close> (\<open>dhcp6_auth_replaycheck\<close>, \<open>get_rdvalue\<close>), the authentication option as
  \<open>dhcp6_set_options\<close> writes it and \<open>dhcp6_get_options\<close> reads it, \<open>set_auth\<close> and \<open>process_auth\<close> of
  \<^verbatim>\<open>src/apps/dhcp6/dhcp6c.c\<close>, \<open>process_auth\<close> of \<^verbatim>\<open>src/apps/dhcp6/dhcp6s.c\<close>.

  A message is the list of its bytes, the four bytes of the header first.  What the system answers is an
  argument: \<open>now\<close> is what \<open>time\<close> returns, \<open>tv\<close> what \<open>gettimeofday\<close> stores (\<^term>\<open>None\<close>: it fails), \<open>alloc\<close>
  whether \<open>malloc\<close> succeeds.  The other options of a message are bytes written before the authentication
  option, which comes last.
\<close>

unbundle bit_operations_syntax

section \<open>The code\<close>

type_synonym u64 = "64 word"

definition put64 :: "u64 \<Rightarrow> byte list" where
  "put64 w = put32 (ucast w) @ put32 (ucast (drop_bit 32 w))"

definition get64 :: "byte list \<Rightarrow> u64" where
  "get64 m = ucast (get32 m 0) OR push_bit 32 (ucast (get32 m 4))"

definition ntohq :: "u64 \<Rightarrow> u64" where
  "ntohq x = get64 (rev (put64 x))"

definition DHCP6_AUTHPROTO_UNDEF :: int where "DHCP6_AUTHPROTO_UNDEF = -1"
definition DHCP6_AUTHPROTO_DELAYED :: int where "DHCP6_AUTHPROTO_DELAYED = 2"
definition DHCP6_AUTHRDM_MONOCOUNTER :: int where "DHCP6_AUTHRDM_MONOCOUNTER = 0"

definition dhcp6_auth_replaycheck :: "int \<Rightarrow> u64 \<Rightarrow> u64 \<Rightarrow> int" where
  "dhcp6_auth_replaycheck method prev current =
     (if method \<noteq> DHCP6_AUTHRDM_MONOCOUNTER then -1
      else
        let prev = ntohq prev; current = ntohq current
        in if prev = current XOR 0x8000000000000000 then 1
           else if sint (current - prev) > 0 then 0 else 1)"

text \<open>The branch for \<open>gettimeofday\<close>; the result is \<^term>\<open>None\<close> when the C function returns -1.\<close>

definition get_rdvalue :: "int \<Rightarrow> (int \<times> int) option \<Rightarrow> u64 option" where
  "get_rdvalue rdm tv =
     (if rdm \<noteq> DHCP6_AUTHRDM_MONOCOUNTER then None
      else case tv of
        None \<Rightarrow> None
      | Some (tv_sec, tv_usec) \<Rightarrow>
          let w = of_int tv_sec + 2208988800; l = of_int tv_usec
          in Some (get64 (rev (put32 w) @ rev (put32 l))))"

text \<open>The authentication part of \<open>struct dhcp6_optinfo\<close>, and its initial value.\<close>

record dhcp6_optinfo =
  authflags :: u32
  authproto :: int
  authalgorithm :: int
  authrdm :: int
  authrd :: u64
  delayedauth_keyid :: u32
  delayedauth_realmval :: "byte list"
  delayedauth_offset :: int

definition dhcp6_init_auth :: dhcp6_optinfo where
  "dhcp6_init_auth = \<lparr>authflags = 0, authproto = DHCP6_AUTHPROTO_UNDEF, authalgorithm = -1, authrdm = -1, authrd = 0,
     delayedauth_keyid = 0, delayedauth_realmval = [], delayedauth_offset = 0\<rparr>"

definition DHCP6OPT_AUTHFLAG_NOINFO :: u32 where "DHCP6OPT_AUTHFLAG_NOINFO = 1"

abbreviation noinfo :: "dhcp6_optinfo \<Rightarrow> bool" where
  "noinfo opt \<equiv> authflags opt AND DHCP6OPT_AUTHFLAG_NOINFO \<noteq> 0"

subsection \<open>The option on the wire\<close>

definition DH6OPT_AUTH :: u16 where "DH6OPT_AUTH = 11"

text \<open>
  \<open>copy_option\<close>: \<open>ep\<close> is the end of the buffer and \<open>optp\<close> the address of the caller's write pointer, not the
  address it points to.  The options are in \<open>outb\<close>, written from \<open>p\<close> on.
\<close>

definition copy_option ::
  "u32 \<Rightarrow> u32 \<Rightarrow> u16 \<Rightarrow> u16 \<Rightarrow> byte list \<Rightarrow> byte list \<Rightarrow> nat \<Rightarrow> (int \<times> byte list \<times> nat) option" where
  "copy_option ep optp ty len val outb p =
     (if ep - optp < ucast len + 4 then Some (-1, outb, p)
      else do {
        outb \<leftarrow> mem_write outb p (rev (put16 ty) @ rev (put16 len));
        outb \<leftarrow> (if len \<noteq> 0 then do { v \<leftarrow> mem_read val 0 (unat len); mem_write outb (p + 4) v } else Some outb);
        Some (0, outb, p + 4 + unat len) })"

text \<open>The authentication option in \<open>dhcp6_set_options\<close>; the size of the structure is 15.\<close>

definition set_auth_option ::
  "u32 \<Rightarrow> u32 \<Rightarrow> bool \<Rightarrow> dhcp6_optinfo \<Rightarrow> byte list \<Rightarrow> nat \<Rightarrow> (int \<times> dhcp6_optinfo \<times> byte list \<times> nat) option" where
  "set_auth_option ep optp alloc opt outb p =
     (if authproto opt = DHCP6_AUTHPROTO_UNDEF then Some (0, opt, outb, p)
      else if \<not> noinfo opt \<and> authproto opt \<noteq> DHCP6_AUTHPROTO_DELAYED then Some (-1, opt, outb, p)
      else
        let authlen = 15 + (if noinfo opt then 0 else length (delayedauth_realmval opt) + 4 + 16)
        in if \<not> alloc then Some (-1, opt, outb, p)
           else do {
             auth \<leftarrow> mem_write (replicate authlen 0) 4
               ([of_int (authproto opt), of_int (authalgorithm opt), of_int (authrdm opt)] @ put64 (authrd opt));
             (auth, opt) \<leftarrow> (if noinfo opt then Some (auth, opt)
               else do {
                 auth \<leftarrow> mem_write auth 15 (delayedauth_realmval opt);
                 auth \<leftarrow> mem_write auth (15 + length (delayedauth_realmval opt)) (rev (put32 (delayedauth_keyid opt)));
                 Some (auth, opt\<lparr>delayedauth_offset := int p + int authlen - 16\<rparr>) });
             (r, outb, p) \<leftarrow> copy_option ep optp DH6OPT_AUTH (of_nat (authlen - 4)) (drop 4 auth) outb p;
             Some (if r \<noteq> 0 then -1 else 0, opt, outb, p) })"

text \<open>
  The authentication option in \<open>dhcp6_get_options\<close>: the body of the option starts at \<open>cp\<close> of the options
  \<open>m\<close> and is \<open>optlen\<close> bytes long.  The flag of the result is false where the code jumps to \<open>malformed\<close>
  or \<open>fail\<close>.
\<close>

definition get_auth_option ::
  "bool \<Rightarrow> byte list \<Rightarrow> nat \<Rightarrow> nat \<Rightarrow> dhcp6_optinfo \<Rightarrow> (bool \<times> dhcp6_optinfo) option" where
  "get_auth_option alloc m cp optlen opt =
     (if optlen < 11 then Some (False, opt)
      else if authproto opt \<noteq> DHCP6_AUTHPROTO_UNDEF then Some (False, opt)
      else do {
        h \<leftarrow> mem_read m cp 3;
        rd \<leftarrow> mem_read m (cp + 3) 8;
        let opt = opt\<lparr>authproto := uint (h ! 0), authalgorithm := uint (h ! 1), authrdm := uint (h ! 2), authrd := get64 rd\<rparr>;
        let cp = cp + 11;
        let authinfolen = optlen - 11;
        if authproto opt \<noteq> DHCP6_AUTHPROTO_DELAYED then Some (False, opt)
        else if authinfolen = 0 then Some (True, opt\<lparr>authflags := authflags opt OR DHCP6OPT_AUTHFLAG_NOINFO\<rparr>)
        else if authinfolen < 20 then Some (False, opt)
        else if \<not> alloc then Some (False, opt)
        else do {
          let realmlen = authinfolen - 20;
          realm \<leftarrow> mem_read m cp realmlen;
          kid \<leftarrow> mem_read m (cp + realmlen) 4;
          Some (True, opt\<lparr>delayedauth_realmval := realm, delayedauth_keyid := get32 (rev kid) 0,
            delayedauth_offset := int (cp + realmlen + 4)\<rparr>) } })"

subsection \<open>The server\<close>

record host_conf =
  delayedkey :: "keyinfo option"
  saw_previous_rd :: bool
  previous_rd :: u64

definition DH6_SOLICIT :: byte where "DH6_SOLICIT = 1"

text \<open>The three comparisons of key identifier and realm.\<close>

definition key_mismatch :: "dhcp6_optinfo \<Rightarrow> keyinfo \<Rightarrow> bool" where
  "key_mismatch opt key \<longleftrightarrow>
     delayedauth_keyid opt \<noteq> key_keyid key \<or> length (delayedauth_realmval opt) \<noteq> length (key_realm key) \<or>
     memcmp (delayedauth_realmval opt) (key_realm key) \<noteq> 0"

text \<open>The checks on a message other than a solicit: whether they pass, and the message.\<close>

definition check_message ::
  "md5_t \<times> hmacmd5_t \<Rightarrow> int \<Rightarrow> byte list \<Rightarrow> u32 \<Rightarrow> host_conf \<Rightarrow> keyinfo \<Rightarrow> dhcp6_optinfo \<Rightarrow> (bool \<times> byte list) option" where
  "check_message stk now dh6 len conf key opt =
     (if saw_previous_rd conf \<and> dhcp6_auth_replaycheck (authrdm opt) (previous_rd conf) (authrd opt) \<noteq> 0 then Some (False, dh6)
      else if noinfo opt then Some (False, dh6)
      else if key_mismatch opt key then Some (False, dh6)
      else if dhcp6_validate_key now key \<noteq> 0 then Some (False, dh6)
      else do {
        (r, dh6) \<leftarrow> dhcp6_verify_mac stk dh6 len (authproto opt) (authalgorithm opt) (of_int (delayedauth_offset opt) + 4) key;
        Some (r = 0, dh6) })"

text \<open>The case of delayed authentication: whether the message is authenticated, the reply options, the message.\<close>

definition delayed_auth ::
  "md5_t \<times> hmacmd5_t \<Rightarrow> int \<Rightarrow> (int \<times> int) option \<Rightarrow> bool \<Rightarrow> byte \<Rightarrow> byte list \<Rightarrow> u32 \<Rightarrow> host_conf option
     \<Rightarrow> dhcp6_optinfo \<Rightarrow> dhcp6_optinfo \<Rightarrow> (bool \<times> dhcp6_optinfo \<times> byte list) option" where
  "delayed_auth stk now tv alloc msgtype dh6 len client_conf opt ropt =
     (if authalgorithm opt \<noteq> DHCP6_AUTHALG_HMACMD5 then Some (False, ropt, dh6)
      else if authrdm opt \<noteq> DHCP6_AUTHRDM_MONOCOUNTER then Some (False, ropt, dh6)
      else case client_conf of
        None \<Rightarrow> Some (False, ropt, dh6)
      | Some conf \<Rightarrow>
        (case delayedkey conf of
           None \<Rightarrow> Some (False, ropt, dh6)
         | Some key \<Rightarrow> do {
             (ok, dh6) \<leftarrow> (if msgtype = DH6_SOLICIT then Some (True, dh6) else check_message stk now dh6 len conf key opt);
             if \<not> ok then Some (False, ropt, dh6)
             else
               let ropt = ropt\<lparr>authproto := authproto opt, authalgorithm := authalgorithm opt, authrdm := authrdm opt\<rparr>
               in case get_rdvalue (authrdm ropt) tv of
                    None \<Rightarrow> Some (False, ropt, dh6)
                  | Some rd \<Rightarrow>
                      let ropt = ropt\<lparr>authrd := rd, delayedauth_keyid := key_keyid key\<rparr>
                      in if \<not> alloc then Some (False, ropt, dh6)
                         else Some (True, ropt\<lparr>delayedauth_realmval := key_realm key\<rparr>, dh6) }))"

definition process_auth ::
  "md5_t \<times> hmacmd5_t \<Rightarrow> int \<Rightarrow> (int \<times> int) option \<Rightarrow> bool \<Rightarrow> byte list \<Rightarrow> u32 \<Rightarrow> host_conf option
     \<Rightarrow> dhcp6_optinfo \<Rightarrow> dhcp6_optinfo \<Rightarrow> (int \<times> host_conf option \<times> dhcp6_optinfo \<times> byte list) option" where
  "process_auth stk now tv alloc dh6 len client_conf opt ropt = do {
     m \<leftarrow> mem_read dh6 0 1;
     let msgtype = hd m;
     if authproto opt = DHCP6_AUTHPROTO_UNDEF then Some (0, client_conf, ropt, dh6)
     else if authproto opt \<noteq> DHCP6_AUTHPROTO_DELAYED then Some (-1, client_conf, ropt, dh6)
     else do {
       (authenticated, ropt, dh6) \<leftarrow> delayed_auth stk now tv alloc msgtype dh6 len client_conf opt ropt;
       if \<not> authenticated then Some (if msgtype \<noteq> DH6_SOLICIT then -1 else 0, client_conf, ropt, dh6)
       else if msgtype \<noteq> DH6_SOLICIT then
         Some (0, map_option (\<lambda>c. c\<lparr>previous_rd := authrd opt, saw_previous_rd := True\<rparr>) client_conf, ropt, dh6)
       else Some (0, client_conf, ropt, dh6) } }"

subsection \<open>The client\<close>

record authparam =
  ap_authproto :: int
  ap_authalgorithm :: int
  ap_authrdm :: int
  ap_key :: "keyinfo option"
  ap_noprevrd :: bool
  ap_prevrd :: u64

definition new_authparam :: "int \<Rightarrow> int \<Rightarrow> int \<Rightarrow> authparam" where
  "new_authparam proto alg rdm =
     \<lparr>ap_authproto = proto, ap_authalgorithm = alg, ap_authrdm = rdm, ap_key = None, ap_noprevrd = True, ap_prevrd = 0\<rparr>"

datatype client_state =
  DHCP6S_INIT | DHCP6S_SOLICIT | DHCP6S_INFOREQ | DHCP6S_REQUEST | DHCP6S_RENEW | DHCP6S_REBIND | DHCP6S_RELEASE | DHCP6S_IDLE

fun find_key :: "keyinfo list \<Rightarrow> byte list \<Rightarrow> u32 \<Rightarrow> keyinfo option" where
  "find_key [] realm i = None"
| "find_key (key # keys) realm i =
     (if length (key_realm key) = length realm \<and> memcmp (key_realm key) realm = 0 \<and> key_keyid key = i then Some key
      else find_key keys realm i)"

text \<open>The case of delayed authentication in the client: whether it is authenticated, the parameters, the message.\<close>

definition client_delayed_auth ::
  "md5_t \<times> hmacmd5_t \<Rightarrow> int \<Rightarrow> keyinfo list \<Rightarrow> authparam \<Rightarrow> byte list \<Rightarrow> u32 \<Rightarrow> dhcp6_optinfo
     \<Rightarrow> (bool \<times> authparam \<times> byte list) option" where
  "client_delayed_auth stk now key_list ap dh6 len opt =
     (if noinfo opt then Some (False, ap, dh6)
      else if authalgorithm opt \<noteq> DHCP6_AUTHALG_HMACMD5 then Some (False, ap, dh6)
      else if authrdm opt \<noteq> DHCP6_AUTHRDM_MONOCOUNTER then Some (False, ap, dh6)
      else if \<not> ap_noprevrd ap \<and> dhcp6_auth_replaycheck (authrdm opt) (ap_prevrd ap) (authrd opt) \<noteq> 0 then Some (False, ap, dh6)
      else
        let found = (case ap_key ap of
              Some key \<Rightarrow> if key_mismatch opt key then None else Some (key, ap)
            | None \<Rightarrow> map_option (\<lambda>key. (key, ap\<lparr>ap_key := Some key\<rparr>))
                        (find_key key_list (delayedauth_realmval opt) (delayedauth_keyid opt)))
        in case found of
             None \<Rightarrow> Some (False, ap, dh6)
           | Some (key, ap) \<Rightarrow>
               if dhcp6_validate_key now key \<noteq> 0 then Some (False, ap, dh6)
               else do {
                 (r, dh6) \<leftarrow> dhcp6_verify_mac stk dh6 len (authproto opt) (authalgorithm opt) (of_int (delayedauth_offset opt) + 4) key;
                 Some (r = 0, ap, dh6) })"

definition client_process_auth ::
  "md5_t \<times> hmacmd5_t \<Rightarrow> int \<Rightarrow> keyinfo list \<Rightarrow> authparam \<Rightarrow> byte list \<Rightarrow> u32 \<Rightarrow> dhcp6_optinfo
     \<Rightarrow> (int \<times> authparam \<times> byte list) option" where
  "client_process_auth stk now key_list ap dh6 len opt = do {
     (authenticated, ap, dh6) \<leftarrow>
       (if authproto opt = DHCP6_AUTHPROTO_DELAYED then client_delayed_auth stk now key_list ap dh6 len opt
        else Some (False, ap, dh6));
     if \<not> authenticated then Some (if ap_authproto ap \<noteq> DHCP6_AUTHPROTO_UNDEF then -1 else 0, ap, dh6)
     else Some (0, ap\<lparr>ap_prevrd := authrd opt, ap_noprevrd := False\<rparr>, dh6) }"

definition set_auth ::
  "int \<Rightarrow> (int \<times> int) option \<Rightarrow> bool \<Rightarrow> client_state \<Rightarrow> authparam option \<Rightarrow> dhcp6_optinfo \<Rightarrow> int \<times> dhcp6_optinfo" where
  "set_auth now tv alloc st param opt =
     (case param of
        None \<Rightarrow> (0, opt)
      | Some ap \<Rightarrow>
          let opt = opt\<lparr>authproto := ap_authproto ap, authalgorithm := ap_authalgorithm ap, authrdm := ap_authrdm ap\<rparr>
          in if ap_authproto ap = DHCP6_AUTHPROTO_UNDEF then (0, opt)
             else if ap_authproto ap \<noteq> DHCP6_AUTHPROTO_DELAYED then (-1, opt)
             else if st = DHCP6S_INFOREQ then (-1, opt)
             else if st = DHCP6S_SOLICIT then (0, opt\<lparr>authflags := authflags opt OR DHCP6OPT_AUTHFLAG_NOINFO\<rparr>)
             else case ap_key ap of
                    None \<Rightarrow> (-1, opt)
                  | Some key \<Rightarrow>
                      if dhcp6_validate_key now key \<noteq> 0 then (-1, opt)
                      else case get_rdvalue (authrdm opt) tv of
                             None \<Rightarrow> (-1, opt)
                           | Some rd \<Rightarrow>
                               let opt = opt\<lparr>authrd := rd, delayedauth_keyid := key_keyid key\<rparr>
                               in if \<not> alloc then (-1, opt) else (0, opt\<lparr>delayedauth_realmval := key_realm key\<rparr>))"

text \<open>
  The end of \<open>client6_send\<close>: authentication parameters, authentication option after the \<open>p\<close> bytes of
  options already in the buffer, authentication code.  The result is the message that is sent, if any.
\<close>

definition client6_send_auth ::
  "md5_t \<times> hmacmd5_t \<Rightarrow> int \<Rightarrow> (int \<times> int) option \<Rightarrow> bool \<Rightarrow> u32 \<Rightarrow> u32 \<Rightarrow> client_state \<Rightarrow> authparam option
     \<Rightarrow> dhcp6_optinfo \<Rightarrow> byte list \<Rightarrow> nat \<Rightarrow> byte list option option" where
  "client6_send_auth stk now tv alloc ep optp st param opt buf p =
     (let (r, opt) = set_auth now tv alloc st param opt
      in if r \<noteq> 0 then Some None
         else do {
           (r, opt, outb, p) \<leftarrow> set_auth_option ep optp alloc opt (drop 4 buf) p;
           let buf = take 4 buf @ outb;
           let len = 4 + p;
           if r < 0 then Some None
           else case param of
             Some ap \<Rightarrow>
               (if ap_authproto ap = DHCP6_AUTHPROTO_DELAYED then
                  case ap_key ap of
                    None \<Rightarrow> Some (Some (take len buf))
                  | Some key \<Rightarrow> do {
                      (r, buf) \<leftarrow> dhcp6_calc_mac stk buf (of_nat len) (authproto opt) (authalgorithm opt)
                        (of_int (delayedauth_offset opt) + 4) key;
                      Some (if r \<noteq> 0 then None else Some (take len buf)) }
                else Some (Some (take len buf)))
           | None \<Rightarrow> Some (Some (take len buf)) })"

section \<open>The replay counter\<close>

lemma length_put64 [simp]: "length (put64 w) = 8"
  by (simp add: put64_def)

lemma put32_get32:
  assumes "length m = 4"
  shows "put32 (get32 m 0) = m"
proof -
  obtain a b c d where m: "m = [a, b, c, d]" using assms by (auto simp: numeral_eq_Suc length_Suc_conv)
  let ?w = "ucast a OR push_bit 8 (ucast b) OR push_bit 16 (ucast c) OR push_bit 24 (ucast d) :: u32"
  have "ucast ?w = a" "ucast (drop_bit 8 ?w) = b" "ucast (drop_bit 16 ?w) = c" "ucast (drop_bit 24 ?w) = d"
    by (rule bit_word_eqI, auto simp: bit_simps dest: bit_imp_le_length)+
  then show ?thesis by (simp add: m get32_def put32_def)
qed

lemma join64:
  fixes l h :: u32
  shows "ucast (ucast l OR push_bit 32 (ucast h) :: u64) = l"
    "ucast (drop_bit 32 (ucast l OR push_bit 32 (ucast h) :: u64)) = h"
  by (rule bit_word_eqI, auto simp: bit_simps dest: bit_imp_le_length)+

lemma split64: "ucast (ucast w :: u32) OR push_bit 32 (ucast (ucast (drop_bit 32 w) :: u32)) = (w :: u64)"
  by (rule bit_word_eqI) (auto simp: bit_simps)

lemma get64_parts: "get64 (put32 l @ put32 h) = ucast l OR push_bit 32 (ucast h)"
  using get32_put32 [of h "[]"] by (simp add: get64_def le_simps)

lemma get64_put64 [simp]: "get64 (put64 w) = w"
  unfolding put64_def get64_parts by (rule split64)

lemma put64_get64:
  assumes "length a = 4" "length b = 4"
  shows "put64 (get64 (a @ b)) = a @ b"
proof -
  have e: "get64 (a @ b) = ucast (get32 a 0) OR push_bit 32 (ucast (get32 b 0))"
    using assms get64_parts [of "get32 a 0" "get32 b 0"] by (simp only: put32_get32)
  show ?thesis unfolding put64_def e join64 using assms by (simp add: put32_get32)
qed

text \<open>A counter stored in network order is read back as the number it was made of.\<close>

lemma ntohq_network: "ntohq (get64 (rev (put32 h) @ rev (put32 l))) = ucast l OR push_bit 32 (ucast h)"
  by (simp add: ntohq_def put64_get64 get64_parts)

lemma join64_add: "(ucast (l :: u32) OR push_bit 32 (ucast (h :: u32)) :: u64) = of_int (uint h * 2 ^ 32 + uint l)"
proof -
  have "ucast l AND push_bit 32 (ucast h) = (0 :: u64)"
    by (rule bit_word_eqI) (auto simp: bit_simps dest: bit_imp_le_length)
  then have "(ucast l OR push_bit 32 (ucast h) :: u64) = ucast l + push_bit 32 (ucast h)"
    by (rule disjunctive_add_eq_or [symmetric])
  also have "\<dots> = of_int (uint h * 2 ^ 32 + uint l)"
    unfolding of_int_add of_int_mult of_int_uint of_int_power push_bit_eq_mult by simp
  finally show ?thesis .
qed

text \<open>The counter made of a clock reading is the reading in units of \<open>2\<^sup>-\<^sup>3\<^sup>2\<close> seconds, on 64 bits.\<close>

lemma ntohq_rdvalue:
  assumes "get_rdvalue DHCP6_AUTHRDM_MONOCOUNTER (Some (s, u)) = Some a" "0 \<le> u" "u < 2 ^ 32"
  shows "ntohq a = of_int ((s + 2208988800) * 2 ^ 32 + u)"
proof -
  let ?x = "s + 2208988800"
  have "uint (of_int ?x :: u32) = ?x mod 2 ^ 32" "uint (of_int u :: u32) = u"
    using assms(2,3) by (simp_all only: uint_word_of_int) simp_all
  moreover have "a = get64 (rev (put32 (of_int ?x)) @ rev (put32 (of_int u)))"
    using assms(1) by (simp add: get_rdvalue_def Let_def)
  ultimately have a: "ntohq a = of_int ((?x mod 2 ^ 32) * 2 ^ 32 + u)"
    unfolding ntohq_network join64_add by (simp only: ntohq_network join64_add)
  have "k * m = (k mod m) * m + (k div m) * (m * m)" for k m :: int
  proof -
    have "k * m = (k div m * m + k mod m) * m" by (subst div_mult_mod_eq) (rule refl)
    then show ?thesis by (simp only: distrib_right distrib_left ac_simps)
  qed
  from this [of ?x "2 ^ 32"] have "?x * 2 ^ 32 = (?x mod 2 ^ 32) * 2 ^ 32 + (?x div 2 ^ 32) * 2 ^ 64"
    by (simp only: power_add [symmetric]) simp
  then have "(of_int (?x * 2 ^ 32 + u) :: u64) = of_int ((?x mod 2 ^ 32) * 2 ^ 32 + u) + of_int (?x div 2 ^ 32) * of_int (2 ^ 64)"
    by (simp only: of_int_add of_int_mult) simp
  also have "(of_int (2 ^ 64) :: u64) = 0" by simp
  finally show ?thesis unfolding a by simp
qed

text \<open>How far the counter advances, in serial number arithmetic.\<close>

definition advance :: "u64 \<Rightarrow> u64 \<Rightarrow> nat" where
  "advance prev current = unat (ntohq current - ntohq prev)"

lemma half_bit:
  fixes x k :: nat
  assumes "x < 2 * k"
  shows "odd (x div k) \<longleftrightarrow> k \<le> x"
proof (cases "k \<le> x")
  case True
  then have "x div k = 1" using assms by (intro div_nat_eqI) simp_all
  with True show ?thesis by simp
qed simp

lemma sint_positive: "0 < sint w \<longleftrightarrow> 0 < unat w \<and> unat w < 2 ^ 63" for w :: u64
proof -
  have u: "uint w = int (unat w)" "unat w < 2 ^ 64" using unsigned_less [of w, where ?'a = nat] by simp_all
  have t: "take_bit 64 (uint w) = uint w" using uint_lt2p [of w] by (intro take_bit_int_eq_self) simp_all
  have "sint w = uint w - 2 ^ 64 * of_bool (bit (uint w) 63)"
    using t by (simp add: sint_uint signed_take_bit_eq_take_bit_minus)
  then have "sint w = int (unat w) - 2 ^ 64 * of_bool (bit (int (unat w)) 63)" by (simp only: u(1))
  moreover have "bit (int (unat w)) 63 \<longleftrightarrow> 2 ^ 63 \<le> unat w"
  proof -
    have "bit (int x) 63 \<longleftrightarrow> odd (x div 2 ^ 63)" for x
    proof -
      have "int x div 2 ^ 63 = int (x div 2 ^ 63)" by (simp add: zdiv_int)
      then show ?thesis by (simp only: bit_iff_odd even_of_nat)
    qed
    moreover have "odd (unat w div 2 ^ 63) \<longleftrightarrow> 2 ^ 63 \<le> unat w" using u(2) by (intro half_bit) simp
    ultimately show ?thesis by blast
  qed
  ultimately have "sint w = int (unat w) - 2 ^ 64 * of_bool (2 ^ 63 \<le> unat w)" by (simp only:)
  moreover have "0 < int x - 2 ^ 64 * of_bool (2 ^ 63 \<le> x) \<longleftrightarrow> 0 < x \<and> x < 2 ^ 63" if "x < 2 ^ 64" for x :: nat
    using that by (cases "2 ^ 63 \<le> x") simp_all
  ultimately show ?thesis using u(2) by (simp only:)
qed

lemma xor_bit_add: "\<not> bit c k \<Longrightarrow> c XOR push_bit k 1 = c + push_bit k 1" for c :: u64
proof -
  assume "\<not> bit c k"
  then have "c AND push_bit k 1 = 0" by (intro bit_word_eqI) (auto simp: bit_simps)
  then show ?thesis by (simp only: disjunctive_xor_eq_or disjunctive_add_eq_or)
qed

lemma singular_point: "c - (c XOR 0x8000000000000000) = 0x8000000000000000" for c :: u64
proof (cases "bit c 63")
  case True
  let ?p = "c XOR push_bit 63 1"
  have "\<not> bit (c XOR push_bit k 1) k" if "bit c k" for k using that by (auto simp: bit_simps dest: bit_imp_le_length)
  from xor_bit_add [OF this, OF True] have "?p XOR push_bit 63 1 = ?p + push_bit 63 1" .
  moreover have "?p XOR push_bit 63 1 = c" by (simp only: xor.assoc xor_self_eq xor.right_neutral)
  ultimately have "c - ?p = push_bit 63 1" by (metis add_diff_cancel_left')
  then show ?thesis by simp
next
  case False
  from xor_bit_add [OF this] show ?thesis by simp
qed

text \<open>
  The counter is accepted exactly when it advances by less than half of its range; the test for the
  singular point is implied by the sign test.
\<close>

lemma replaycheck_iff:
  "dhcp6_auth_replaycheck method prev current = 0 \<longleftrightarrow>
     method = DHCP6_AUTHRDM_MONOCOUNTER \<and> 0 < advance prev current \<and> advance prev current < 2 ^ 63"
proof -
  have "\<not> (0 < unat (c - p) \<and> unat (c - p) < 2 ^ 63)" if "p = c XOR 0x8000000000000000" for c p :: u64
    unfolding that singular_point by simp
  then show ?thesis
    by (auto simp: dhcp6_auth_replaycheck_def advance_def Let_def sint_positive)
qed

text \<open>A later clock reading makes a counter that is accepted, for 68 years.\<close>

definition later :: "int \<times> int \<Rightarrow> int \<times> int \<Rightarrow> bool" where
  "later t0 t \<longleftrightarrow> 0 \<le> snd t0 \<and> snd t0 < 1000000 \<and> 0 \<le> snd t \<and> snd t < 1000000 \<and>
     (fst t0 < fst t \<or> fst t0 = fst t \<and> snd t0 < snd t) \<and> fst t - fst t0 < 2 ^ 31"

lemma later_accepted:
  assumes "later t0 t"
    "get_rdvalue DHCP6_AUTHRDM_MONOCOUNTER (Some t0) = Some a" "get_rdvalue DHCP6_AUTHRDM_MONOCOUNTER (Some t) = Some b"
  shows "dhcp6_auth_replaycheck DHCP6_AUTHRDM_MONOCOUNTER a b = 0"
proof -
  obtain s0 u0 s u where t: "t0 = (s0, u0)" "t = (s, u)" by (metis surj_pair)
  have l: "0 \<le> u0" "u0 < 1000000" "0 \<le> u" "u < 1000000" "s0 < s \<or> s0 = s \<and> u0 < u" "s - s0 < 2147483648"
    using assms(1) by (simp_all add: later_def t)
  define e where "e = s - s0"
  define d where "d = e * 4294967296 + (u - u0)"
  have e: "1 \<le> e \<or> e = 0 \<and> u0 < u" "e \<le> 2147483647" using l(5,6) unfolding e_def by auto
  have d: "0 < d" "d < 9223372036854775808" using e l(1-4) unfolding d_def by auto
  have u: "u0 < 2 ^ 32" "u < 2 ^ 32" using l(2,4) by simp_all
  have "ntohq a = of_int ((s0 + 2208988800) * 2 ^ 32 + u0)" "ntohq b = of_int ((s + 2208988800) * 2 ^ 32 + u)"
    using ntohq_rdvalue [OF assms(2) [unfolded t(1)] l(1) u(1)] ntohq_rdvalue [OF assms(3) [unfolded t(2)] l(3) u(2)] .
  then have "ntohq b - ntohq a = of_int (((s + 2208988800) * 2 ^ 32 + u) - ((s0 + 2208988800) * 2 ^ 32 + u0))"
    by (simp only: of_int_diff)
  also have "((s + 2208988800) * 2 ^ 32 + u) - ((s0 + 2208988800) * 2 ^ 32 + u0) = d" by (simp add: d_def e_def algebra_simps)
  finally have "uint (ntohq b - ntohq a) = d mod 2 ^ 64" by (simp only: uint_word_of_int) simp
  also have "\<dots> = d" using d by (intro mod_pos_pos_trivial) simp_all
  finally have "advance a b = nat d" by (simp only: advance_def unat_eq_nat_uint)
  then show ?thesis using d by (simp add: replaycheck_iff)
qed

section \<open>What the server accepts\<close>

text \<open>The part of a message the server relies on: room for the code behind the header.\<close>

definition in_message :: "byte list \<Rightarrow> dhcp6_optinfo \<Rightarrow> bool" where
  "in_message dh6 opt \<longleftrightarrow> 4 \<le> length dh6 \<and> length dh6 < 2 ^ 31 \<and> 0 \<le> delayedauth_offset opt \<and> delayedauth_offset opt < 2 ^ 31 - 4"

lemma mac_offset:
  assumes "0 \<le> off" "off < 2 ^ 31 - 4"
  shows "unat (of_int off + 4 :: u32) = nat off + 4"
proof -
  have "(of_int off + 4 :: u32) = of_nat (nat off + 4)" using assms(1) by simp
  moreover have "nat off + 4 < 2 ^ 32" using assms by (simp add: nat_less_iff)
  ultimately show ?thesis by (simp only: unat_of_nat) simp
qed

text \<open>The verification of a message is total: outside the message it refuses.\<close>

lemma verify_message:
  assumes "stack_ok stk" "length (key_secret key) < 2 ^ 32" "in_message dh6 opt"
  defines "off \<equiv> nat (delayedauth_offset opt) + 4"
  obtains r where "dhcp6_verify_mac stk dh6 (of_nat (length dh6)) proto DHCP6_AUTHALG_HMACMD5 (of_int (delayedauth_offset opt) + 4) key = Some (r, dh6)"
    "r = 0 \<longleftrightarrow> off + 16 \<le> length dh6 \<and> take 16 (drop off dh6) = mac_of dh6 (length dh6) off key"
proof -
  let ?o = "of_int (delayedauth_offset opt) + 4 :: u32" and ?n = "of_nat (length dh6) :: u32"
  have o: "unat ?o = off" "off < 2 ^ 31" using assms(3) mac_offset by (simp_all add: in_message_def off_def nat_less_iff)
  have n: "unat ?n = length dh6" using assms(3) by (simp add: in_message_def unat_of_nat)
  show ?thesis
  proof (cases "off + 16 \<le> length dh6")
    case True
    then have "length (take 16 (drop off dh6)) = length (mac_of dh6 (length dh6) off key)" by (simp add: mac_of_def)
    from memcmp_zero [OF this] show ?thesis
      using that True dhcp6_verify_mac_eq [OF assms(1,2), of ?o ?n dh6 proto] by (simp add: o n)
  next
    case False
    have "unat (w + 16) = unat w + 16" if "unat w < 2 ^ 31" for w :: u32 using that by (simp add: unat_word_ariths)
    from this [of ?o] have "unat (?o + 16) = off + 16" using o by (simp only:)
    then have "?o + 16 > ?n" using False n by (simp add: word_less_nat_alt)
    then show ?thesis using that [of "-1"] False by (simp add: dhcp6_verify_mac_def)
  qed
qed

text \<open>When a message is authentic and its counter fresh: all that the server requires of it.\<close>

definition authentic :: "int \<Rightarrow> byte list \<Rightarrow> keyinfo \<Rightarrow> dhcp6_optinfo \<Rightarrow> bool" where
  "authentic now dh6 key opt \<longleftrightarrow>
     (let off = nat (delayedauth_offset opt) + 4
      in authalgorithm opt = DHCP6_AUTHALG_HMACMD5 \<and> authrdm opt = DHCP6_AUTHRDM_MONOCOUNTER \<and> \<not> noinfo opt \<and>
         delayedauth_keyid opt = key_keyid key \<and> delayedauth_realmval opt = key_realm key \<and>
         dhcp6_validate_key now key = 0 \<and> off + 16 \<le> length dh6 \<and> take 16 (drop off dh6) = mac_of dh6 (length dh6) off key)"

definition fresh :: "host_conf \<Rightarrow> u64 \<Rightarrow> bool" where
  "fresh conf rd \<longleftrightarrow> (saw_previous_rd conf \<longrightarrow> 0 < advance (previous_rd conf) rd \<and> advance (previous_rd conf) rd < 2 ^ 63)"

lemma key_mismatch_iff: "key_mismatch opt key \<longleftrightarrow> delayedauth_keyid opt \<noteq> key_keyid key \<or> delayedauth_realmval opt \<noteq> key_realm key"
  using memcmp_zero [of "delayedauth_realmval opt" "key_realm key"] by (auto simp: key_mismatch_def)

lemma check_message_iff:
  assumes "stack_ok stk" "length (key_secret key) < 2 ^ 32" "in_message dh6 opt"
    "authalgorithm opt = DHCP6_AUTHALG_HMACMD5" "authrdm opt = DHCP6_AUTHRDM_MONOCOUNTER"
  shows "check_message stk now dh6 (of_nat (length dh6)) conf key opt = Some (authentic now dh6 key opt \<and> fresh conf (authrd opt), dh6)"
proof -
  obtain r where r: "dhcp6_verify_mac stk dh6 (of_nat (length dh6)) (authproto opt) DHCP6_AUTHALG_HMACMD5 (of_int (delayedauth_offset opt) + 4) key = Some (r, dh6)"
    "r = 0 \<longleftrightarrow> nat (delayedauth_offset opt) + 4 + 16 \<le> length dh6 \<and>
       take 16 (drop (nat (delayedauth_offset opt) + 4) dh6) = mac_of dh6 (length dh6) (nat (delayedauth_offset opt) + 4) key"
    using verify_message [OF assms(1-3)] .
  then show ?thesis
    unfolding check_message_def key_mismatch_iff replaycheck_iff authentic_def fresh_def Let_def assms(4,5) by auto
qed

text \<open>The server on a message other than a solicit that asks for delayed authentication.\<close>

lemma process_auth_delayed:
  assumes "stack_ok stk" "in_message dh6 opt" "hd dh6 \<noteq> DH6_SOLICIT" "authproto opt = DHCP6_AUTHPROTO_DELAYED"
    "delayedkey conf = Some key" "length (key_secret key) < 2 ^ 32"
  shows "\<exists>ropt'. process_auth stk now tv alloc dh6 (of_nat (length dh6)) (Some conf) opt ropt =
    (if authentic now dh6 key opt \<and> fresh conf (authrd opt) \<and> tv \<noteq> None \<and> alloc
     then Some (0, Some (conf\<lparr>previous_rd := authrd opt, saw_previous_rd := True\<rparr>), ropt', dh6)
     else Some (-1, Some conf, ropt', dh6))"
proof -
  have m: "mem_read dh6 0 (Suc 0) = Some [hd dh6]"
    using assms(2) by (cases dh6) (auto simp: in_message_def mem_read_def)
  show ?thesis
  proof (cases "authalgorithm opt = DHCP6_AUTHALG_HMACMD5 \<and> authrdm opt = DHCP6_AUTHRDM_MONOCOUNTER")
    case True
    then have "check_message stk now dh6 (of_nat (length dh6)) conf key opt = Some (authentic now dh6 key opt \<and> fresh conf (authrd opt), dh6)"
      using assms by (intro check_message_iff) simp_all
    then show ?thesis
      using True assms(3-5) by (auto simp: process_auth_def delayed_auth_def m Let_def get_rdvalue_def
          DHCP6_AUTHPROTO_DELAYED_def DHCP6_AUTHPROTO_UNDEF_def split: option.splits prod.splits)
  next
    case False
    then have "\<not> authentic now dh6 key opt" by (auto simp: authentic_def Let_def)
    then show ?thesis
      using False assms(3,4) by (auto simp: process_auth_def delayed_auth_def m Let_def
          DHCP6_AUTHPROTO_DELAYED_def DHCP6_AUTHPROTO_UNDEF_def)
  qed
qed

lemma process_auth_other:
  assumes "in_message dh6 opt" "hd dh6 = DH6_SOLICIT \<or> authproto opt \<noteq> DHCP6_AUTHPROTO_DELAYED"
  shows "\<exists>r ropt'. process_auth stk now tv alloc dh6 len (Some conf) opt ropt = Some (r, Some conf, ropt', dh6)"
proof -
  have m: "mem_read dh6 0 (Suc 0) = Some [hd dh6]"
    using assms(1) by (cases dh6) (auto simp: in_message_def mem_read_def)
  show ?thesis
    using assms(2) by (auto simp: process_auth_def delayed_auth_def m Let_def split: option.splits prod.splits)
qed

section \<open>What the client accepts\<close>

lemma find_key_Some:
  "find_key keys realm i = Some key \<Longrightarrow> key \<in> set keys \<and> key_realm key = realm \<and> key_keyid key = i"
  by (induction keys) (auto split: if_splits simp: memcmp_zero)

lemma client_delayed_auth_cases:
  assumes "stack_ok stk" "in_message dh6 opt" "\<forall>key \<in> set key_list \<union> set_option (ap_key ap). length (key_secret key) < 2 ^ 32"
  obtains (refused) ap1 where "client_delayed_auth stk now key_list ap dh6 (of_nat (length dh6)) opt = Some (False, ap1, dh6)"
      "ap_authproto ap1 = ap_authproto ap"
    | (accepted) key where "key \<in> set key_list \<union> set_option (ap_key ap)" "authentic now dh6 key opt"
      "client_delayed_auth stk now key_list ap dh6 (of_nat (length dh6)) opt = Some (True, ap\<lparr>ap_key := Some key\<rparr>, dh6)"
      "\<not> ap_noprevrd ap \<longrightarrow> 0 < advance (ap_prevrd ap) (authrd opt) \<and> advance (ap_prevrd ap) (authrd opt) < 2 ^ 63"
proof -
  define found where "found = (case ap_key ap of
      Some key \<Rightarrow> if key_mismatch opt key then None else Some (key, ap)
    | None \<Rightarrow> map_option (\<lambda>key. (key, ap\<lparr>ap_key := Some key\<rparr>)) (find_key key_list (delayedauth_realmval opt) (delayedauth_keyid opt)))"
  let ?bad = "noinfo opt \<or> authalgorithm opt \<noteq> DHCP6_AUTHALG_HMACMD5 \<or> authrdm opt \<noteq> DHCP6_AUTHRDM_MONOCOUNTER \<or>
    \<not> ap_noprevrd ap \<and> dhcp6_auth_replaycheck (authrdm opt) (ap_prevrd ap) (authrd opt) \<noteq> 0"
  note d = client_delayed_auth_def [of stk now key_list ap dh6 "of_nat (length dh6)" opt, folded found_def, unfolded Let_def]
  consider "?bad" | "\<not> ?bad" "found = None" | key where "\<not> ?bad" "found = Some (key, ap\<lparr>ap_key := Some key\<rparr>)"
    "key \<in> set key_list \<union> set_option (ap_key ap)" "delayedauth_keyid opt = key_keyid key" "delayedauth_realmval opt = key_realm key"
  proof (cases found)
    case (Some x)
    have "ap\<lparr>ap_key := Some key\<rparr> = ap" if "ap_key ap = Some key" for key using that by (cases ap) simp
    with Some have "\<exists>key. found = Some (key, ap\<lparr>ap_key := Some key\<rparr>) \<and> key \<in> set key_list \<union> set_option (ap_key ap) \<and>
        delayedauth_keyid opt = key_keyid key \<and> delayedauth_realmval opt = key_realm key"
      by (auto simp: found_def key_mismatch_iff split: option.splits if_splits dest: find_key_Some)
    with that show ?thesis by blast
  qed (use that in blast)
  then show ?thesis
  proof cases
    case 3
    obtain r where r: "dhcp6_verify_mac stk dh6 (of_nat (length dh6)) (authproto opt) DHCP6_AUTHALG_HMACMD5 (of_int (delayedauth_offset opt) + 4) key = Some (r, dh6)"
      "r = 0 \<longleftrightarrow> nat (delayedauth_offset opt) + 4 + 16 \<le> length dh6 \<and>
         take 16 (drop (nat (delayedauth_offset opt) + 4) dh6) = mac_of dh6 (length dh6) (nat (delayedauth_offset opt) + 4) key"
      using verify_message [OF assms(1) bspec [OF assms(3) 3(3)] assms(2)] .
    show ?thesis
    proof (cases "dhcp6_validate_key now key = 0 \<and> r = 0")
      case True
      then have "authentic now dh6 key opt" using 3 r(2) by (auto simp: authentic_def Let_def)
      with 3 True r(1) show ?thesis by (intro accepted [of key]) (auto simp: d replaycheck_iff)
    next
      case False
      with 3(1,2) r(1) show ?thesis by (intro refused [of "ap\<lparr>ap_key := Some key\<rparr>"]) (auto simp: d)
    qed
  qed (auto simp: d intro: refused)
qed

text \<open>
  A client that requires authentication accepts only authentic messages with a fresh counter, under the key
  it knew or one it finds; it keeps this key and remembers the counter.
\<close>

lemma client_accepts:
  assumes "stack_ok stk" "in_message dh6 opt" "\<forall>key \<in> set key_list \<union> set_option (ap_key ap). length (key_secret key) < 2 ^ 32"
    "ap_authproto ap = DHCP6_AUTHPROTO_DELAYED"
    "client_process_auth stk now key_list ap dh6 (of_nat (length dh6)) opt = Some (0, ap', dh6')"
  obtains key where "key \<in> set key_list \<union> set_option (ap_key ap)" "authentic now dh6 key opt" "dh6' = dh6"
    "ap' = ap\<lparr>ap_key := Some key, ap_prevrd := authrd opt, ap_noprevrd := False\<rparr>"
    "\<not> ap_noprevrd ap \<longrightarrow> 0 < advance (ap_prevrd ap) (authrd opt) \<and> advance (ap_prevrd ap) (authrd opt) < 2 ^ 63"
proof (cases rule: client_delayed_auth_cases [OF assms(1-3), of now])
  case (1 ap1)
  then show ?thesis
    using assms(4,5) by (auto simp: client_process_auth_def DHCP6_AUTHPROTO_DELAYED_def DHCP6_AUTHPROTO_UNDEF_def split: if_splits)
next
  case (2 key)
  then show ?thesis
    using assms(4,5) by (intro that [of key])
      (auto simp: client_process_auth_def DHCP6_AUTHPROTO_DELAYED_def DHCP6_AUTHPROTO_UNDEF_def split: if_splits)
qed

section \<open>Replays\<close>

text \<open>The messages of one client that reach the server, and what it accepts as authenticated.\<close>

record arrival =
  ar_stk :: "md5_t \<times> hmacmd5_t"
  ar_now :: int
  ar_tv :: "(int \<times> int) option"
  ar_alloc :: bool
  ar_dh6 :: "byte list"
  ar_opt :: dhcp6_optinfo
  ar_ropt :: dhcp6_optinfo

definition arrival_ok :: "arrival \<Rightarrow> bool" where
  "arrival_ok a \<longleftrightarrow> stack_ok (ar_stk a) \<and> in_message (ar_dh6 a) (ar_opt a)"

definition checked_kind :: "arrival \<Rightarrow> bool" where
  "checked_kind a \<longleftrightarrow> authproto (ar_opt a) = DHCP6_AUTHPROTO_DELAYED \<and> hd (ar_dh6 a) \<noteq> DH6_SOLICIT"

primrec auth_run :: "host_conf option \<Rightarrow> arrival list \<Rightarrow> (host_conf option \<times> arrival list) option" where
  "auth_run conf [] = Some (conf, [])"
| "auth_run conf (a # as) = do {
     (r, conf, ropt, dh6) \<leftarrow> process_auth (ar_stk a) (ar_now a) (ar_tv a) (ar_alloc a) (ar_dh6 a)
       (of_nat (length (ar_dh6 a))) conf (ar_opt a) (ar_ropt a);
     (conf, accepted) \<leftarrow> auth_run conf as;
     Some (conf, if r = 0 \<and> checked_kind a then a # accepted else accepted) }"

fun serial_chain :: "u64 list \<Rightarrow> bool" where
  "serial_chain (a # b # rds) \<longleftrightarrow> 0 < advance a b \<and> advance a b < 2 ^ 63 \<and> serial_chain (b # rds)"
| "serial_chain _ \<longleftrightarrow> True"

definition known_rd :: "host_conf \<Rightarrow> u64 list" where
  "known_rd conf = (if saw_previous_rd conf then [previous_rd conf] else [])"

lemma auth_run_chain:
  assumes "delayedkey conf = Some key" "length (key_secret key) < 2 ^ 32" "\<And>a. a \<in> set as \<Longrightarrow> arrival_ok a"
  shows "\<exists>conf' acc. auth_run (Some conf) as = Some (Some conf', acc) \<and>
    (\<forall>a \<in> set acc. a \<in> set as \<and> authentic (ar_now a) (ar_dh6 a) key (ar_opt a)) \<and>
    serial_chain (known_rd conf @ map (\<lambda>a. authrd (ar_opt a)) acc)"
  using assms(1,3)
proof (induction as arbitrary: conf)
  case Nil
  then show ?case by (simp add: known_rd_def)
next
  case (Cons a as)
  let ?p = "process_auth (ar_stk a) (ar_now a) (ar_tv a) (ar_alloc a) (ar_dh6 a) (of_nat (length (ar_dh6 a))) (Some conf) (ar_opt a) (ar_ropt a)"
  let ?c = "conf\<lparr>previous_rd := authrd (ar_opt a), saw_previous_rd := True\<rparr>"
  have ok: "stack_ok (ar_stk a)" "in_message (ar_dh6 a) (ar_opt a)" using Cons.prems(2) by (simp_all add: arrival_ok_def)
  consider (accepted) ropt where "checked_kind a" "authentic (ar_now a) (ar_dh6 a) key (ar_opt a)" "fresh conf (authrd (ar_opt a))" "?p = Some (0, Some ?c, ropt, ar_dh6 a)"
    | (ignored) r ropt where "r \<noteq> 0 \<or> \<not> checked_kind a" "?p = Some (r, Some conf, ropt, ar_dh6 a)"
  proof (cases "checked_kind a")
    case True
    then show ?thesis
      using process_auth_delayed [OF ok _ _ Cons.prems(1) assms(2)] that unfolding checked_kind_def by (metis neg_equal_0_iff_equal zero_neq_one)
  next
    case False
    then show ?thesis using process_auth_other [OF ok(2)] that(2) unfolding checked_kind_def by metis
  qed
  then show ?case
  proof cases
    case accepted
    have "delayedkey ?c = Some key" using Cons.prems(1) by simp
    then obtain conf' acc where r: "auth_run (Some ?c) as = Some (Some conf', acc)"
      "\<forall>a \<in> set acc. a \<in> set as \<and> authentic (ar_now a) (ar_dh6 a) key (ar_opt a)"
      "serial_chain (authrd (ar_opt a) # map (\<lambda>a. authrd (ar_opt a)) acc)"
      using Cons.IH [of ?c] Cons.prems(2) by (auto simp: known_rd_def)
    then show ?thesis using accepted by (auto simp: known_rd_def fresh_def)
  next
    case ignored
    then show ?thesis using Cons.IH [OF Cons.prems(1)] Cons.prems(2) by auto
  qed
qed

text \<open>Along a chain the counter moves by the sum of the advances.\<close>

lemma serial_chain_nth: "serial_chain rds \<Longrightarrow> Suc i < length rds \<Longrightarrow> 0 < advance (rds ! i) (rds ! Suc i) \<and> advance (rds ! i) (rds ! Suc i) < 2 ^ 63"
  by (induction rds arbitrary: i rule: serial_chain.induct) (auto simp: less_Suc_eq_0_disj)

lemma advance_sum:
  "i \<le> j \<Longrightarrow> ntohq (rds ! j) - ntohq (rds ! i) = of_nat (\<Sum>k = i..<j. advance (rds ! k) (rds ! Suc k))"
proof (induction j rule: dec_induct)
  case (step n)
  have "ntohq (rds ! Suc n) - ntohq (rds ! i) = (ntohq (rds ! n) - ntohq (rds ! i)) + of_nat (advance (rds ! n) (rds ! Suc n))"
    by (simp add: advance_def)
  with step show ?case by simp
qed simp

lemma serial_chain_repeats:
  assumes "serial_chain rds" "i < j" "j < length rds" "rds ! i = rds ! j"
  shows "2 ^ 64 \<le> (\<Sum>k = i..<j. advance (rds ! k) (rds ! Suc k))"
proof -
  let ?s = "\<Sum>k = i..<j. advance (rds ! k) (rds ! Suc k)"
  have "(of_nat ?s :: u64) = 0" using advance_sum [of i j rds] assms(2,4) by simp
  then have "2 ^ 64 dvd ?s" by (simp only: word_of_nat_eq_0_iff) simp
  moreover have "0 < ?s"
    using assms(2,3) serial_chain_nth [OF assms(1), of i] by (simp add: sum.atLeast_Suc_lessThan)
  ultimately show ?thesis by (rule dvd_imp_le)
qed

text \<open>
  C11. Replays are refused.  Whatever messages reach the server for a client with a key, at whatever
  times, authenticated or not, \<open>process_auth\<close> handles all of them without leaving a message.  Each one it accepts
  under delayed authentication carries the key's identifier and realm, an unexpired key and the
  keyed hash of its bytes.  From one accepted message to the next the counter advances by less than
  half its range.  Hence a counter value is accepted a second time only after the counter has gone
  through all 64-bit values.
\<close>

theorem auth_no_replay:
  assumes "delayedkey conf = Some key" "length (key_secret key) < 2 ^ 32" "\<forall>a \<in> set as. arrival_ok a"
  shows "\<exists>conf' acc. auth_run (Some conf) as = Some (Some conf', acc) \<and>
    (\<forall>a \<in> set acc. a \<in> set as \<and> authentic (ar_now a) (ar_dh6 a) key (ar_opt a)) \<and>
    (let rds = known_rd conf @ map (\<lambda>a. authrd (ar_opt a)) acc
     in (\<forall>i. Suc i < length rds \<longrightarrow> 0 < advance (rds ! i) (rds ! Suc i) \<and> advance (rds ! i) (rds ! Suc i) < 2 ^ 63) \<and>
        (\<forall>i j. i < j \<and> j < length rds \<and> rds ! i = rds ! j \<longrightarrow>
           2 ^ 64 \<le> (\<Sum>k = i..<j. advance (rds ! k) (rds ! Suc k))))"
proof -
  obtain conf' acc where r: "auth_run (Some conf) as = Some (Some conf', acc)"
    "\<forall>a \<in> set acc. a \<in> set as \<and> authentic (ar_now a) (ar_dh6 a) key (ar_opt a)"
    "serial_chain (known_rd conf @ map (\<lambda>a. authrd (ar_opt a)) acc)"
    using auth_run_chain [OF assms(1,2)] assms(3) by blast
  then show ?thesis
    unfolding Let_def using serial_chain_nth [OF r(3)] serial_chain_repeats [OF r(3)] by blast
qed

definition demo_key :: keyinfo where
  "demo_key = \<lparr>key_name = ''k'', key_realm = [0x61], key_keyid = 1, key_secret = [7, 8, 9], key_expire = 0\<rparr>"

definition demo_conf :: host_conf where
  "demo_conf = \<lparr>delayedkey = Some demo_key, saw_previous_rd = False, previous_rd = 0\<rparr>"

definition demo_stack :: "md5_t \<times> hmacmd5_t" where
  "demo_stack = (let c = \<lparr>md5_buf = [], md5_bytes0 = 3, md5_bytes1 = 0, md5_in = replicate 64 1\<rparr>
     in (c, \<lparr>md5ctx = c, hmac_key = []\<rparr>))"

definition demo_arrival :: arrival where
  "demo_arrival = \<lparr>ar_stk = demo_stack, ar_now = 5, ar_tv = Some (1, 1), ar_alloc = True,
     ar_dh6 = [3, 0, 0, 1] @ HMAC_MD5 [7, 8, 9] ([3, 0, 0, 1] @ replicate 16 0),
     ar_opt = \<lparr>authflags = 0, authproto = 2, authalgorithm = 1, authrdm = 0, authrd = 77,
       delayedauth_keyid = 1, delayedauth_realmval = [0x61], delayedauth_offset = 0\<rparr>,
     ar_ropt = dhcp6_init_auth\<rparr>"

lemma demo_arrival_ok: "arrival_ok demo_arrival"
  by (simp add: arrival_ok_def demo_arrival_def demo_stack_def stack_ok_def in_message_def Let_def)

lemma demo_authentic: "authentic 5 (ar_dh6 demo_arrival) demo_key (ar_opt demo_arrival)"
  by (simp add: authentic_def demo_arrival_def demo_key_def mac_of_def with_mac_def DHCP6_AUTHALG_HMACMD5_def
      DHCP6_AUTHRDM_MONOCOUNTER_def dhcp6_validate_key_def)

text \<open>An authentic message sent twice is accepted once only.\<close>

theorem auth_no_replay_witness:
  "\<exists>conf' acc. auth_run (Some demo_conf) [demo_arrival, demo_arrival] = Some (Some conf', acc) \<and> acc \<noteq> [demo_arrival, demo_arrival] \<and>
     authentic 5 (ar_dh6 demo_arrival) demo_key (ar_opt demo_arrival)"
proof -
  obtain conf' acc where r: "auth_run (Some demo_conf) [demo_arrival, demo_arrival] = Some (Some conf', acc)"
    "\<forall>i. Suc i < length acc \<longrightarrow> 0 < advance (map (\<lambda>a. authrd (ar_opt a)) acc ! i) (map (\<lambda>a. authrd (ar_opt a)) acc ! Suc i)"
    using auth_no_replay [of demo_conf demo_key "[demo_arrival, demo_arrival]"] demo_arrival_ok
    by (auto simp: demo_conf_def demo_key_def known_rd_def Let_def)
  have "acc \<noteq> [demo_arrival, demo_arrival]" using r(2) by (auto simp: advance_def)
  with r(1) demo_authentic show ?thesis by blast
qed

end
