(* ===== verification/Dhcp6Exchange.thy ===== *)
theory Dhcp6Exchange
  imports Dhcp6Auth
begin

text \<open>
  The authentication option between client and server: the bytes \<open>dhcp6_set_options\<close> writes are those
  \<open>dhcp6_get_options\<close> reads, and the message the client signs is the message the server verifies.
\<close>

unbundle bit_operations_syntax

section \<open>The option on the wire\<close>

text \<open>The body of the option with its code, and the option with its header.\<close>

definition auth_fields :: "dhcp6_optinfo \<Rightarrow> byte list" where
  "auth_fields opt = [of_int (authproto opt), of_int (authalgorithm opt), of_int (authrdm opt)] @ put64 (authrd opt)
     @ delayedauth_realmval opt @ rev (put32 (delayedauth_keyid opt))"

definition auth_header :: "dhcp6_optinfo \<Rightarrow> byte list" where
  "auth_header opt = rev (put16 DH6OPT_AUTH) @ rev (put16 (of_nat (31 + length (delayedauth_realmval opt))))"

lemma length_auth_fields [simp]: "length (auth_fields opt) = 15 + length (delayedauth_realmval opt)"
  by (simp add: auth_fields_def)

lemma length_auth_header [simp]: "length (auth_header opt) = 4"
  by (simp add: auth_header_def)

lemma auth_structure:
  assumes "rl = length (delayedauth_realmval opt)"
  shows "do {
    auth \<leftarrow> mem_write (replicate (35 + rl) 0) 4
      ([of_int (authproto opt), of_int (authalgorithm opt), of_int (authrdm opt)] @ put64 (authrd opt));
    auth \<leftarrow> mem_write auth 15 (delayedauth_realmval opt);
    mem_write auth (15 + rl) (rev (put32 (delayedauth_keyid opt))) } =
    Some (replicate 4 0 @ auth_fields opt @ replicate 16 0)"
proof -
  let ?a = "[of_int (authproto opt), of_int (authalgorithm opt), of_int (authrdm opt)] @ put64 (authrd opt) :: byte list"
  let ?r = "delayedauth_realmval opt" and ?k = "rev (put32 (delayedauth_keyid opt))"
  have z: "replicate (35 + rl) 0 = replicate 4 0 @ (replicate (31 + rl) (0 :: byte))"
    by (simp flip: replicate_add)
  have "mem_write (replicate (35 + rl) 0) 4 ?a = Some ((replicate 4 0 @ ?a) @ replicate (20 + rl) 0)"
    unfolding z by (subst mem_write_at_end) simp_all
  moreover have "mem_write ((replicate 4 0 @ ?a) @ replicate (20 + rl) 0) 15 ?r = Some ((replicate 4 0 @ ?a @ ?r) @ replicate 20 0)"
    using assms by (subst mem_write_at_end) simp_all
  moreover have "mem_write ((replicate 4 0 @ ?a @ ?r) @ replicate 20 0) (15 + rl) ?k = Some ((replicate 4 0 @ ?a @ ?r) @ ?k @ replicate 16 0)"
    using assms by (subst mem_write_at_end) simp_all
  ultimately show ?thesis by (simp only: Option.bind.simps auth_fields_def append_assoc)
qed

lemma copy_size:
  fixes len :: u16
  assumes "unat len = n"
  shows "unat (ucast len + 4 :: u32) = n + 4"
proof -
  have "n < 65536" using assms unat_u16_less [of len] by simp
  then show ?thesis using assms by (simp add: unat_word_ariths)
qed

lemma copy_option_at:
  assumes "unat len = length val" "length a = p" "length val + 4 \<le> length b" "length val + 4 \<le> unat (ep - optp)"
  shows "copy_option ep optp ty len val (a @ b) p =
    Some (0, a @ (rev (put16 ty) @ rev (put16 len)) @ val @ drop (length val + 4) b, p + 4 + length val)"
proof -
  have "unat (ucast len + 4 :: u32) = length val + 4" using assms(1) by (rule copy_size)
  then have "\<not> ep - optp < ucast len + 4" using assms(4) by (simp add: word_less_nat_alt)
  moreover have "mem_write (a @ b) p (rev (put16 ty) @ rev (put16 len)) = Some ((a @ rev (put16 ty) @ rev (put16 len)) @ drop 4 b)"
    using assms(2,3) by (subst mem_write_at_end) simp_all
  moreover have "mem_write ((a @ rev (put16 ty) @ rev (put16 len)) @ drop 4 b) (p + 4) val =
    Some ((a @ rev (put16 ty) @ rev (put16 len)) @ val @ drop (length val + 4) b)"
    using assms(2,3) by (subst mem_write_at_end) simp_all
  moreover have "mem_read val 0 (unat len) = Some val" using assms(1) by (simp add: mem_read_def)
  moreover have "val = []" if "len = 0" using that assms(1) by simp
  ultimately show ?thesis unfolding copy_option_def using assms(1) by (cases "len = 0") simp_all
qed

text \<open>
  The test in \<open>copy_option\<close> measures from the address of the pointer variable: where that passes, an option
  is written beyond the end of the buffer.
\<close>

lemma copy_option_overruns:
  assumes "unat len = length val" "0 < length val" "length outb < p + 4 + length val" "length val + 4 \<le> unat (ep - optp)"
  shows "copy_option ep optp ty len val outb p = None"
proof -
  have "unat (ucast len + 4 :: u32) = length val + 4"
    using copy_size [OF assms(1)] .
  then have "\<not> ep - optp < ucast len + 4" using assms(4) by (simp add: word_less_nat_alt)
  moreover have "len \<noteq> 0" using assms(1,2) by auto
  moreover have "mem_write m (p + 4) val = None" if "mem_write outb p bs = Some m" for m bs
  proof -
    have "length m = length outb" using that by (auto simp: mem_write_def split: if_splits)
    then show ?thesis using assms(3) by (simp add: mem_write_def)
  qed
  moreover have "mem_read val 0 (unat len) = Some val" using assms(1) by (simp add: mem_read_def)
  ultimately show ?thesis
    unfolding copy_option_def by (cases "mem_write outb p (rev (put16 ty) @ rev (put16 len))") simp_all
qed

text \<open>What the option looks like in the buffer, behind the \<open>p\<close> bytes \<open>a\<close> of other options.\<close>

lemma set_auth_option_at:
  fixes opt :: dhcp6_optinfo
  defines "rl \<equiv> length (delayedauth_realmval opt)"
  assumes "authproto opt = DHCP6_AUTHPROTO_DELAYED" "\<not> noinfo opt" "length a = p" "35 + rl \<le> length b" "31 + rl < 2 ^ 16"
    "35 + rl \<le> unat (ep - optp)"
  shows "set_auth_option ep optp True opt (a @ b) p =
    Some (0, opt\<lparr>delayedauth_offset := int (p + 19 + rl)\<rparr>,
      a @ auth_header opt @ (auth_fields opt @ replicate 16 0) @ drop (35 + rl) b, p + 35 + rl)"
proof -
  let ?v = "auth_fields opt @ replicate 16 0"
  have u: "unat (of_nat (31 + rl) :: u16) = length ?v" using assms(6) by (simp only: unat_of_nat) (simp add: rl_def)
  have c: "copy_option ep optp DH6OPT_AUTH (of_nat (31 + rl)) ?v (a @ b) p =
    Some (0, a @ auth_header opt @ ?v @ drop (35 + rl) b, p + 35 + rl)"
    using copy_option_at [OF u assms(4), of b ep optp DH6OPT_AUTH] assms(5,7)
    by (simp add: rl_def auth_header_def add.commute add.left_commute)
  show ?thesis
    unfolding set_auth_option_def using assms(2,3) auth_structure [OF rl_def [THEN meta_eq_to_obj_eq]] c
    by (auto simp: rl_def Let_def bind_eq_Some_conv DHCP6_AUTHPROTO_DELAYED_def DHCP6_AUTHPROTO_UNDEF_def)
qed

text \<open>The option is read back, whatever the sixteen bytes of the code are.\<close>

definition read_back :: "dhcp6_optinfo \<Rightarrow> dhcp6_optinfo \<Rightarrow> nat \<Rightarrow> dhcp6_optinfo" where
  "read_back opt opt0 off = opt0\<lparr>authproto := authproto opt, authalgorithm := authalgorithm opt, authrdm := authrdm opt,
     authrd := authrd opt, delayedauth_realmval := delayedauth_realmval opt, delayedauth_keyid := delayedauth_keyid opt,
     delayedauth_offset := int off\<rparr>"

lemma mem_read_middle: "length a = k \<Longrightarrow> length m = n \<Longrightarrow> mem_read (a @ m @ b) k n = Some m"
  by (simp add: mem_read_def)

lemma get_auth_option_at:
  fixes opt :: dhcp6_optinfo
  defines "rl \<equiv> length (delayedauth_realmval opt)"
  assumes "authproto opt = DHCP6_AUTHPROTO_DELAYED" "0 \<le> authalgorithm opt" "authalgorithm opt < 256" "0 \<le> authrdm opt" "authrdm opt < 256"
    "authproto opt0 = DHCP6_AUTHPROTO_UNDEF" "length a = cp" "length mac = 16"
  shows "get_auth_option True (a @ auth_fields opt @ mac) cp (31 + rl) opt0 = Some (True, read_back opt opt0 (cp + 15 + rl))"
proof -
  let ?h = "[of_int (authproto opt), of_int (authalgorithm opt), of_int (authrdm opt)] :: byte list"
  let ?d = "put64 (authrd opt)" and ?r = "delayedauth_realmval opt" and ?k = "rev (put32 (delayedauth_keyid opt))"
  let ?m = "a @ auth_fields opt @ mac"
  have m: "?m = a @ ?h @ ?d @ ?r @ ?k @ mac" by (simp add: auth_fields_def)
  have "mem_read ?m cp 3 = Some ?h" using assms(8) unfolding m by (intro mem_read_middle) simp_all
  moreover have "mem_read ?m (cp + 3) 8 = Some ?d"
    using mem_read_middle [of "a @ ?h" "cp + 3" ?d 8 "?r @ ?k @ mac"] assms(8) unfolding m by simp
  moreover have "mem_read ?m (cp + 11) rl = Some ?r"
    using mem_read_middle [of "a @ ?h @ ?d" "cp + 11" ?r rl "?k @ mac"] assms(8) unfolding m rl_def by simp
  moreover have "mem_read ?m (cp + 11 + rl) 4 = Some ?k"
    using mem_read_middle [of "a @ ?h @ ?d @ ?r" "cp + 11 + rl" ?k 4 mac] assms(8) unfolding m rl_def by simp
  moreover have "uint (of_int x :: byte) = x" if "0 \<le> x" "x < 256" for x
    using that by (simp only: uint_word_of_int) simp
  moreover have "get32 (put32 (delayedauth_keyid opt)) 0 = delayedauth_keyid opt"
    using get32_put32 [of "delayedauth_keyid opt" "[]"] by simp
  ultimately show ?thesis
    using assms(2-7) by (simp add: get_auth_option_def read_back_def Let_def DHCP6_AUTHPROTO_DELAYED_def ac_simps)
qed

section \<open>The message\<close>

text \<open>The message of the client: header and other options, authentication option, code.\<close>

definition signed_part :: "byte list \<Rightarrow> nat \<Rightarrow> dhcp6_optinfo \<Rightarrow> byte list" where
  "signed_part buf p opt = take (4 + p) buf @ auth_header opt @ auth_fields opt"

definition sign_with :: "keyinfo \<Rightarrow> byte list \<Rightarrow> byte list" where
  "sign_with key m = m @ HMAC_MD5 (key_secret key) (m @ replicate 16 0)"

text \<open>What \<open>set_auth\<close> puts into the option.\<close>

definition client_opt :: "keyinfo \<Rightarrow> u64 \<Rightarrow> dhcp6_optinfo" where
  "client_opt key rd = dhcp6_init_auth\<lparr>authproto := DHCP6_AUTHPROTO_DELAYED, authalgorithm := DHCP6_AUTHALG_HMACMD5,
     authrdm := DHCP6_AUTHRDM_MONOCOUNTER, authrd := rd, delayedauth_keyid := key_keyid key, delayedauth_realmval := key_realm key\<rparr>"

definition delayed_param :: "keyinfo \<Rightarrow> authparam \<Rightarrow> bool" where
  "delayed_param key ap \<longleftrightarrow> ap_authproto ap = DHCP6_AUTHPROTO_DELAYED \<and> ap_authalgorithm ap = DHCP6_AUTHALG_HMACMD5 \<and>
     ap_authrdm ap = DHCP6_AUTHRDM_MONOCOUNTER \<and> ap_key ap = Some key"

lemma set_auth_delayed:
  assumes "delayed_param key ap" "st \<noteq> DHCP6S_INFOREQ" "st \<noteq> DHCP6S_SOLICIT" "dhcp6_validate_key now key = 0"
    "get_rdvalue DHCP6_AUTHRDM_MONOCOUNTER tv = Some rd"
  shows "set_auth now tv True st (Some ap) dhcp6_init_auth = (0, client_opt key rd)"
  using assms by (simp add: set_auth_def delayed_param_def client_opt_def Let_def DHCP6_AUTHPROTO_DELAYED_def DHCP6_AUTHPROTO_UNDEF_def)

lemma client_opt_fields [simp]:
  "authproto (client_opt key rd) = DHCP6_AUTHPROTO_DELAYED" "authalgorithm (client_opt key rd) = DHCP6_AUTHALG_HMACMD5"
  "authrdm (client_opt key rd) = DHCP6_AUTHRDM_MONOCOUNTER" "authrd (client_opt key rd) = rd"
  "delayedauth_realmval (client_opt key rd) = key_realm key" "delayedauth_keyid (client_opt key rd) = key_keyid key"
  "authflags (client_opt key rd) = 0"
  by (simp_all add: client_opt_def dhcp6_init_auth_def)

lemma client_sends:
  assumes "stack_ok stk" "length (key_secret key) < 2 ^ 32" "delayed_param key ap" "st \<noteq> DHCP6S_INFOREQ" "st \<noteq> DHCP6S_SOLICIT"
    "dhcp6_validate_key now key = 0" "get_rdvalue DHCP6_AUTHRDM_MONOCOUNTER tv = Some rd"
    "39 + p + length (key_realm key) \<le> length buf" "length buf < 2 ^ 31" "31 + length (key_realm key) < 2 ^ 16"
    "35 + length (key_realm key) \<le> unat (ep - optp)"
  shows "client6_send_auth stk now tv True ep optp st (Some ap) dhcp6_init_auth buf p =
    Some (Some (sign_with key (signed_part buf p (client_opt key rd))))"
proof -
  let ?rl = "length (key_realm key)" and ?o = "client_opt key rd"
  let ?s = "signed_part buf p ?o" and ?b = "drop (35 + ?rl) (drop p (drop 4 buf))"
  define m where "m = ?s @ replicate 16 0 @ ?b"
  have len: "length ?s = 23 + p + ?rl" using assms(8) by (simp add: signed_part_def)
  have so: "set_auth_option ep optp True ?o (drop 4 buf) p =
    Some (0, ?o\<lparr>delayedauth_offset := int (p + 19 + ?rl)\<rparr>,
      take p (drop 4 buf) @ auth_header ?o @ (auth_fields ?o @ replicate 16 0) @ drop (35 + ?rl) (drop p (drop 4 buf)), p + 35 + ?rl)"
    using set_auth_option_at [of ?o "take p (drop 4 buf)" p "drop p (drop 4 buf)" ep optp, unfolded append_take_drop_id] assms(8,10,11)
    by simp
  have m4: "take 4 buf @ take p (drop 4 buf) @ auth_header ?o @ (auth_fields ?o @ replicate 16 0) @ drop (35 + ?rl) (drop p (drop 4 buf)) = m"
    by (simp add: m_def signed_part_def take_add)
  let ?len = "of_nat (4 + (p + 35 + ?rl)) :: u32" and ?off = "of_int (int (p + 19 + ?rl)) + 4 :: u32"
  have u: "unat ?len = 39 + p + ?rl" using assms(8,9) by (simp only: unat_of_nat) simp
  have "?off = of_nat (23 + p + ?rl)" by simp
  then have o: "unat ?off = 23 + p + ?rl" using assms(8,9) by (simp only: unat_of_nat) simp
  have lm: "39 + p + ?rl \<le> length m" "take (39 + p + ?rl) m = ?s @ replicate 16 0" using len by (simp_all add: m_def)
  have mac: "dhcp6_calc_mac stk m ?len DHCP6_AUTHPROTO_DELAYED DHCP6_AUTHALG_HMACMD5 ?off key =
      Some (0, with_mac m (23 + p + ?rl) (HMAC_MD5 (key_secret key) (?s @ replicate 16 0)))"
    using dhcp6_calc_mac_eq [OF assms(1,2), of ?off ?len m DHCP6_AUTHPROTO_DELAYED] lm unfolding u o by simp
  have w: "take (39 + p + ?rl) (with_mac m (23 + p + ?rl) (HMAC_MD5 (key_secret key) (?s @ replicate 16 0))) = sign_with key ?s"
    using len by (simp add: with_mac_def m_def sign_with_def)
  show ?thesis
    using set_auth_delayed [OF assms(3-7)] so m4 mac w assms(3)
    by (simp add: client6_send_auth_def delayed_param_def ac_simps)
qed

lemma signed_authentic:
  assumes "length m = nat (delayedauth_offset opt) + 4" "authalgorithm opt = DHCP6_AUTHALG_HMACMD5" "authrdm opt = DHCP6_AUTHRDM_MONOCOUNTER"
    "\<not> noinfo opt" "delayedauth_keyid opt = key_keyid key" "delayedauth_realmval opt = key_realm key" "dhcp6_validate_key now key = 0"
  shows "authentic now (sign_with key m) key opt"
  using assms by (simp add: authentic_def sign_with_def mac_of_def with_mac_def flip: assms(1))

text \<open>
  C12. A message the client signs is accepted by the server.  The client holds parameters for delayed
  authentication with a key that has not expired and a buffer with room for the option; the server
  holds the same key, and the counter it remembers, if any, comes from an earlier reading of the
  client's clock.  Then \<open>client6_send\<close> sends the bytes that were in the buffer followed by the authentication option;
  \<open>dhcp6_get_options\<close> reads from them the fields and the offset of the code; \<open>process_auth\<close>
  accepts the message, leaves it as it is and remembers the counter of the client's clock.
\<close>

theorem authenticated_exchange:
  fixes buf :: "byte list" and key :: keyinfo and p :: nat
  defines "rl \<equiv> length (key_realm key)"
  assumes "stack_ok stk" "stack_ok stk'" "length (key_secret key) < 2 ^ 32"
    "delayed_param key ap" "st \<noteq> DHCP6S_INFOREQ" "st \<noteq> DHCP6S_SOLICIT"
    "dhcp6_validate_key now key = 0" "dhcp6_validate_key now' key = 0"
    "39 + p + rl \<le> length buf" "length buf < 2 ^ 31" "31 + rl < 2 ^ 16" "35 + rl \<le> unat (ep - optp)" "hd buf \<noteq> DH6_SOLICIT"
    "delayedkey conf = Some key"
    "saw_previous_rd conf \<longrightarrow> later t0 t \<and> get_rdvalue DHCP6_AUTHRDM_MONOCOUNTER (Some t0) = Some (previous_rd conf)"
  shows "\<exists>msg opt ropt' rd. client6_send_auth stk now (Some t) True ep optp st (Some ap) dhcp6_init_auth buf p = Some (Some msg) \<and>
    take (8 + p) msg = take (4 + p) buf @ [0, 11] @ rev (put16 (of_nat (31 + rl))) \<and>
    get_auth_option True (drop 4 msg) (p + 4) (31 + rl) dhcp6_init_auth = Some (True, opt) \<and>
    get_rdvalue DHCP6_AUTHRDM_MONOCOUNTER (Some t) = Some rd \<and>
    process_auth stk' now' (Some t') True msg (of_nat (length msg)) (Some conf) opt ropt =
      Some (0, Some (conf\<lparr>previous_rd := rd, saw_previous_rd := True\<rparr>), ropt', msg)"
proof -
  obtain rd where rd: "get_rdvalue DHCP6_AUTHRDM_MONOCOUNTER (Some t) = Some rd"
    by (cases t) (simp add: get_rdvalue_def Let_def)
  let ?o = "client_opt key rd" and ?s = "signed_part buf p (client_opt key rd)"
  let ?m = "sign_with key ?s" and ?q = "read_back (client_opt key rd) dhcp6_init_auth (p + 19 + rl)"
  have send: "client6_send_auth stk now (Some t) True ep optp st (Some ap) dhcp6_init_auth buf p = Some (Some ?m)"
    using assms rd unfolding rl_def by (intro client_sends) simp_all
  have len: "length ?s = 23 + p + rl" using assms(10) by (simp add: signed_part_def rl_def)
  have "rev (put16 DH6OPT_AUTH) = [0, 11]" by (simp add: put16_def DH6OPT_AUTH_def)
  then have head: "take (8 + p) ?m = take (4 + p) buf @ [0, 11] @ rev (put16 (of_nat (31 + rl)))"
    using assms(10) by (simp add: sign_with_def signed_part_def auth_header_def rl_def)
  have "drop 4 ?m = (drop 4 (take (4 + p) buf) @ auth_header ?o) @ auth_fields ?o @ HMAC_MD5 (key_secret key) (?s @ replicate 16 0)"
    using assms(10) by (simp add: sign_with_def signed_part_def)
  then have get: "get_auth_option True (drop 4 ?m) (p + 4) (31 + rl) dhcp6_init_auth = Some (True, ?q)"
    using get_auth_option_at [of ?o dhcp6_init_auth "drop 4 (take (4 + p) buf) @ auth_header ?o" "p + 4"] assms(10)
    by (simp add: DHCP6_AUTHALG_HMACMD5_def DHCP6_AUTHRDM_MONOCOUNTER_def dhcp6_init_auth_def rl_def ac_simps)
  have q: "authproto ?q = DHCP6_AUTHPROTO_DELAYED" "delayedauth_offset ?q = int (p + 19 + rl)" "authrd ?q = rd"
    by (simp_all add: read_back_def)
  have "authentic now' ?m key ?q"
    using assms(9) len by (intro signed_authentic) (simp_all add: read_back_def dhcp6_init_auth_def nat_add_distrib)
  moreover have "fresh conf rd"
    using assms(16) later_accepted [of t0 t "previous_rd conf" rd] rd by (simp add: fresh_def replaycheck_iff)
  moreover have "in_message ?m ?q" using len assms(10,11) by (simp add: in_message_def q(2) sign_with_def)
  moreover have "hd ?m \<noteq> DH6_SOLICIT"
    using assms(10,14) by (cases buf) (simp_all add: sign_with_def signed_part_def)
  ultimately obtain ropt' where "process_auth stk' now' (Some t') True ?m (of_nat (length ?m)) (Some conf) ?q ropt =
      Some (0, Some (conf\<lparr>previous_rd := rd, saw_previous_rd := True\<rparr>), ropt', ?m)"
    using process_auth_delayed [OF assms(3) _ _ q(1) assms(15,4), of ?m now' "Some t'" True ropt] q(3) by auto
  then show ?thesis using send head get rd by blast
qed

theorem authenticated_exchange_witness:
  "let ap = (new_authparam 2 1 0)\<lparr>ap_key := Some demo_key\<rparr>; buf = [3, 0, 0, 1] @ replicate 60 0;
       conf = demo_conf\<lparr>saw_previous_rd := True, previous_rd := get64 (rev (put32 (10 + 2208988800)) @ rev (put32 5))\<rparr>
   in \<exists>msg opt ropt' rd. client6_send_auth demo_stack 5 (Some (20, 3)) True 100 0 DHCP6S_REQUEST (Some ap) dhcp6_init_auth buf 0 = Some (Some msg) \<and>
     take 8 msg = [3, 0, 0, 1, 0, 11, 0, 32] \<and> get_auth_option True (drop 4 msg) 4 32 dhcp6_init_auth = Some (True, opt) \<and>
     process_auth demo_stack 6 (Some (21, 0)) True msg (of_nat (length msg)) (Some conf) opt dhcp6_init_auth =
       Some (0, Some (conf\<lparr>previous_rd := rd, saw_previous_rd := True\<rparr>), ropt', msg)"
proof -
  let ?ap = "(new_authparam 2 1 0)\<lparr>ap_key := Some demo_key\<rparr>" and ?buf = "[3, 0, 0, 1] @ replicate 60 0 :: byte list"
  let ?conf = "demo_conf\<lparr>saw_previous_rd := True, previous_rd := get64 (rev (put32 (10 + 2208988800)) @ rev (put32 5))\<rparr>"
  have f: "stack_ok demo_stack" "dhcp6_validate_key 5 demo_key = 0" "dhcp6_validate_key 6 demo_key = 0" "delayedkey ?conf = Some demo_key"
    "length (key_secret demo_key) < 2 ^ 32" "length (key_realm demo_key) = 1"
    by (simp_all add: demo_stack_def stack_ok_def Let_def dhcp6_validate_key_def demo_key_def demo_conf_def)
  have d: "delayed_param demo_key ?ap"
    by (simp add: delayed_param_def new_authparam_def DHCP6_AUTHPROTO_DELAYED_def DHCP6_AUTHALG_HMACMD5_def DHCP6_AUTHRDM_MONOCOUNTER_def)
  have l: "saw_previous_rd ?conf \<longrightarrow> later (10, 5) (20, 3) \<and> get_rdvalue DHCP6_AUTHRDM_MONOCOUNTER (Some (10, 5)) = Some (previous_rd ?conf)"
    by (simp add: later_def get_rdvalue_def Let_def)
  have "39 + 0 + length (key_realm demo_key) \<le> length ?buf" "length ?buf < 2 ^ 31" "31 + length (key_realm demo_key) < 2 ^ 16"
    "35 + length (key_realm demo_key) \<le> unat (100 - 0 :: u32)" "hd ?buf \<noteq> DH6_SOLICIT" "DHCP6S_REQUEST \<noteq> DHCP6S_INFOREQ" "DHCP6S_REQUEST \<noteq> DHCP6S_SOLICIT"
    using f(6) by (simp_all add: DH6_SOLICIT_def)
  note authenticated_exchange [OF f(1) f(1) f(5) d this(6,7) f(2,3) this(1-5) f(4) l, of "(21, 0)" dhcp6_init_auth]
  then obtain msg opt ropt' rd where "client6_send_auth demo_stack 5 (Some (20, 3)) True 100 0 DHCP6S_REQUEST (Some ?ap) dhcp6_init_auth ?buf 0 = Some (Some msg)"
    "take (8 + 0) msg = take (4 + 0) ?buf @ [0, 11] @ rev (put16 (of_nat (31 + length (key_realm demo_key))))"
    "get_auth_option True (drop 4 msg) (0 + 4) (31 + length (key_realm demo_key)) dhcp6_init_auth = Some (True, opt)"
    "process_auth demo_stack 6 (Some (21, 0)) True msg (of_nat (length msg)) (Some ?conf) opt dhcp6_init_auth =
      Some (0, Some (?conf\<lparr>previous_rd := rd, saw_previous_rd := True\<rparr>), ropt', msg)"
    by blast
  moreover have "length (key_realm demo_key) = 1" by (simp add: demo_key_def)
  ultimately show ?thesis unfolding Let_def by (intro exI [of _ msg] exI [of _ opt] exI [of _ ropt'] exI [of _ rd]) (simp add: put16_def)
qed

end
