(* ===== verification/Spec2Isabelle.thy ===== *)
theory Spec2Isabelle
  imports NvServer ModemBoot ModemCtrl CmrMsg WcndTypes Dhcp6Pool Dhcp6Base64 Dhcp6Exchange
begin

text \<open>
  A verification of parts of the Spreadtrum vendor sources for Android under \<^verbatim>\<open>src/\<close>: programs that keep
  and transport the calibration data of the modem, boot the modem, drive the WLAN and Bluetooth
  co-processor, move messages in the camera library, and assign IPv6 addresses.

  \<^bold>\<open>Conventions.\<close>  The programs are C for 32-bit ARM: \<open>unsigned int\<close> and \<open>size_t\<close> are words of 32 bits, \<open>char\<close> is
  unsigned, memory is little endian.  A structure is a record, an array a list of bytes, a pointer into an array an
  offset.  A function that changes memory takes the state and returns the changed one.  The value
  \<^term>\<open>None\<close> is undefined behaviour, such as an access outside an array; theorems that a call gives \<^term>\<open>Some\<close>
  result therefore say that it is free of it.  What the system answers (devices, clocks, allocation,
  uninitialised variables) is an argument.  Calls on devices have an \<open>outcome\<close>, which also tells
  a call that still waits from one that returned.

  \<^bold>\<open>Shared theories.\<close>  \<open>Prelude\<close> has the word types, checked block copies (\<open>mem_read\<close>, \<open>mem_write\<close>), the
  little-endian fields and the generic lemmas.  \<open>DeviceIo\<close> has the calls on device files and the
  predicate \<open>safely\<close>, by which safety proofs go through sequences of calls.

  \<^bold>\<open>The NV item daemon\<close>, \<^verbatim>\<open>src/apps/nvitem\<close>, keeps partitions of modem data in memory, receives changes from
  the modem and stores each partition in two image files.
  \<^item> \<open>NvCommon\<close>: the checksum of \<^verbatim>\<open>nvitem_common.c\<close>; it detects every change of a single byte.
  \<^item> \<open>NvFs\<close>: \<^verbatim>\<open>nvitem_fs.c\<close>, the start-up configuration and the image files.  \<open>write_crash\<close> is the
    relation of states a power failure may leave; reading afterwards gives the old or the new image.
  \<^item> \<open>NvBuf\<close>: \<^verbatim>\<open>nvitem_buf.c\<close>, the copies in memory with dirty tables (\<open>nv_world\<close>).  The locale \<open>nv_store\<close> is the
    contract of the buffers with the layers above, interpreted as \<open>ramnv\<close>: writes are committed or undone as
    a whole, no interleaving makes a buffer checksum fail.
  \<^item> \<open>NvPacket\<close>, \<open>NvSync\<close>: \<^verbatim>\<open>nvitem_packet.c\<close> and \<^verbatim>\<open>nvitem_sync.c\<close>, packets and the analyzer of requests.
    \<open>server_step\<close> is the step relation of the server with its save task; a request is applied exactly, and
    partitions that are not being written keep their committed contents.
  \<^item> \<open>NvServer\<close>: \<open>main\<close> of \<^verbatim>\<open>nvitem_server.c\<close>, from the command line to all reachable states.

  \<^bold>\<open>The control process of the external modem\<close>, \<^verbatim>\<open>src/apps/modem_control\<close>, downloads the images (the files of
  the NV item daemon among them) and serves clients that watch the modem.
  \<^item> \<open>FdlCrc\<close>, \<open>FdlPacket\<close>, \<open>FdlSend\<close>: \<^verbatim>\<open>crc16.c\<close> and \<^verbatim>\<open>packet.c\<close>, checksums against reference
    definitions, frames with their round trip, messages on the serial line and on SPI.
  \<^item> \<open>ModemImage\<close>, \<open>ModemTable\<close>, \<open>ModemConnect\<close>, \<open>ModemBoot\<close>: \<^verbatim>\<open>modem_boot.c\<close>, the download of an image and
    of the table, power and hand shake, and \<open>modem_boot\<close>, which puts them together.
  \<^item> \<open>ModemCtrl\<close>: \<^verbatim>\<open>main.c\<close>, the tables of sockets with the invariant of \<open>ctrl_step\<close>, broadcasts, the automaton of the
    modem's state and its call of \<open>modem_boot\<close>.

  \<^bold>\<open>The camera library\<close>: \<open>CmrMsg\<close> models \<^verbatim>\<open>src/libs/libcamera/common/src/cmr_msg.c\<close>.  \<open>cmr_step\<close> interleaves senders and the
  worker thread.  The locale \<open>bounded_fifo\<close> is the contract of a queue, interpreted on the ring as \<open>cmr\<close>.

  \<^bold>\<open>The co-processor daemon\<close>, \<^verbatim>\<open>src/apps/wcnd\<close>: \<open>WcndSm\<close> has the state machine and the client table, \<open>WcndCmd\<close> the
  commands, \<open>WcndRun\<close> the proof that waiting clients are answered, \<open>WcndTypes\<close> the types of the state in
  every run, \<open>WcndFaults\<close> two defects.

  \<^bold>\<open>The DHCPv6 programs\<close>, \<^verbatim>\<open>src/apps/dhcp6\<close>.
  \<^item> \<open>Dhcp6Lease\<close>: \<^verbatim>\<open>lease.c\<close>, the hash table of leased addresses, a refinement of a finite map.  The locale
    \<open>lease_store\<close> is its contract with the pools, interpreted as \<open>lease_table\<close>.
  \<^item> \<open>Dhcp6Pool\<close>: the pools of \<^verbatim>\<open>config.c\<close> and their use in \<^verbatim>\<open>dhcp6s.c\<close>; the search ends with the least
    free address and no address is given out twice.
  \<^item> \<open>Dhcp6Base64\<close>: \<^verbatim>\<open>base64.c\<close>, the decoder of secrets, exact in both directions.
  \<^item> \<open>Dhcp6Md5\<close>, \<open>Dhcp6Mac\<close>: \<^verbatim>\<open>auth.c\<close>, equal to MD5 and HMAC-MD5 as the standards define them, which are
    checked on a test vector; the code of a message and its verification.
  \<^item> \<open>Dhcp6Auth\<close>, \<open>Dhcp6Exchange\<close>: delayed authentication in \<^verbatim>\<open>common.c\<close>, \<^verbatim>\<open>dhcp6s.c\<close> and \<^verbatim>\<open>dhcp6c.c\<close>.  What the
    server accepts is authentic and not a replay; what the client signs the server accepts.

  \<^bold>\<open>This theory\<close> joins the daemon and the control process: what \<open>ramDisk_Write\<close> stored is what \<open>download_image\<close> sends.

  \<^bold>\<open>Loops and bounds.\<close>  Loops over data are recursive functions with termination proofs.  The hand
  shakes of \<open>ModemConnect\<close> and the search of a pool are partial functions whose value \<^term>\<open>None\<close> includes not returning;
  that they return is a theorem.  Loops that wait for a device recurse over the list of its answers,
  and \<open>Waiting\<close> is the outcome when the list is used up; \<open>modem_boot\<close> has one such list for each pass.  No
  fuel is used.  Theorems on sizes have the bounds of the C types as hypotheses: images up to
  \<open>2\<^sup>3\<^sup>0\<close> bytes, messages below \<open>2\<^sup>3\<^sup>1\<close> bytes, digest pieces below \<open>2\<^sup>3\<^sup>2\<close> bytes.

  \<^bold>\<open>Not modelled.\<close>  Log output, terminal settings and delays.  Opening and polling of sockets around
  the handlers.  Of the DHCPv6 programs: the generated configuration parser, the client's state machine, the
  relay, the control sockets, timers and bindings, and all options but authentication, which enter as
  bytes.  Of the co-processor daemon: the builds other than \<open>USE_MARLIN\<close>.  The remaining directories are
  user interfaces in Java, drivers and hardware tables, wrappers of libraries without sources, third-party
  programs with generated parsers, and shell scripts, which have no behaviour of their own to
  state beyond input and output; \<^verbatim>\<open>src/apps/modemd\<close>, \<^verbatim>\<open>src/apps/dns6\<close>, \<^verbatim>\<open>src/apps/engmode\<close> and \<^verbatim>\<open>src/libs/libdm\<close> have such
  behaviour and are left out for their size.
\<close>

section \<open>From the NV item daemon to the modem\<close>

lemma image_body_written: "image_body (nv_header buf @ buf) = Some buf"
proof -
  have "get32 (nv_header buf @ buf) 0 = NvFs.NV_HEAD_MAGIC"
    unfolding nv_header_def append_assoc by (rule get32_put32)
  then have "get32 (nv_header buf @ buf) 0 = BOOT_NV_HEAD_MAGIC"
    by (simp add: NvFs.NV_HEAD_MAGIC_def BOOT_NV_HEAD_MAGIC_def)
  then show ?thesis by (simp add: image_body_def RAMNV_SECT_SIZE_def)
qed

text \<open>C4. What the NV item daemon commits is what the modem boots with.  After \<open>ramDisk_Write\<close> stored a
  partition, \<open>download_image\<close> of modem_control, pointed at either of the two files the daemon keeps,
  recognises and skips the daemon's header and sends the modem exactly the committed bytes.\<close>

theorem nv_commit_reaches_modem:
  assumes "getIdx tab h = int n"
    and "\<And>b. creatable fs (mirror b (tab ! n)) \<and> RAMNV_SECT_SIZE + length buf \<le> room fs (mirror b (tab ! n))"
    and "image_files s = files (fst (ramDisk_Write tab fs h buf))"
    and "image_info.image_path info = Some (mirror coin (tab ! n))" "mirror coin (tab ! n) \<noteq> proc_cmdline"
    and "unat (image_info.image_size info) = length buf" "length buf \<le> 2 ^ 30"
    and "t = trans_size_of info" "k = (length buf + t - 1) div t"
    and "length (test_buffer s) = HS_PACKET_SIZE + 128" "answers (k + 2) s"
  shows "\<exists>s' payloads. download_image info s = Returned (DL_SUCCESS, s')
    \<and> wire s' = wire s @ start_packet (of_nat (k * t)) (address info) @ concat (map data_packet payloads) @ end_packet
    \<and> concat payloads = buf @ replicate (k * t - length buf) 0xFF"
proof -
  have "image_files s (mirror coin (tab ! n)) = Some (nv_header buf @ buf)"
    unfolding assms(3) ramDisk_Write_full [OF assms(1,2)] by (simp add: mirror_def)
  then obtain s' where s': "download_image info s = Returned (DL_SUCCESS, s')"
    "wire s' = wire s @ start_packet (of_nat (k * t)) (address info)
       @ concat (map data_packet (chunks t k (padded (length buf) (k * t) buf))) @ end_packet"
    using download_image_sent [OF assms(4,5) _ image_body_written, of s buf t k] assms(6-) by auto
  have "length (padded (length buf) (k * t) buf) = k * t"
    using block_count_small(2) [of info t k] assms(6-9) by (simp add: padded_def)
  then show ?thesis
    using s' concat_chunks [of "padded (length buf) (k * t) buf" k t] by (intro exI conjI) (auto simp: padded_def)
qed

definition demo_nv :: image_info where
  "demo_nv = by_name ''l_fixnv1'' 2 0x82310000 MODE_SVLTE\<lparr>image_info.image_path := Some ''a''\<rparr>"

theorem nv_commit_reaches_modem_witness:
  "\<exists>s' payloads. download_image demo_nv
        (demo_boot (files (fst (ramDisk_Write demo_cfgs demo_fs 1 [7, 8]))) (replicate 3 [0, 0x80, 0, 0, 0, 0]) (replicate 3 40000))
      = Returned (DL_SUCCESS, s')
    \<and> wire s' = wire (demo_boot (files (fst (ramDisk_Write demo_cfgs demo_fs 1 [7, 8]))) (replicate 3 [0, 0x80, 0, 0, 0, 0]) (replicate 3 40000))
        @ start_packet (of_nat (1 * 256)) (address demo_nv) @ concat (map data_packet payloads) @ end_packet
    \<and> concat payloads = [7, 8] @ replicate (1 * 256 - length [7, 8 :: byte]) 0xFF"
  by (rule nv_commit_reaches_modem [OF demo_getIdx, where coin = True and fs = demo_fs])
    (simp_all add: demo_paths demo_fs_def RAMNV_SECT_SIZE_def mirror_def demo_nv_def by_name_def Let_def proc_cmdline_def
      trans_size_of_def size_defs demo_boot_def answers_def spi_ack_def)

end
